(* ===== verification/Prelude.thy ===== *)
theory Prelude
  imports Main "HOL-Library.Word" "HOL-Library.Monad_Syntax"
begin

text \<open>
  Shared vocabulary of the development: the machine integer types of the C sources, the
  little-endian view of an integer as bytes (the sources run on, and write files for, a
  little-endian machine), C's truncating division, and the collections of rewrite rules that
  the component theories add to.

  Undefined behaviour of C (a read outside an array, a dereference of an invalid pointer, a
  trapping division) is the value \<open>None\<close> of the option monad in every model of this
  library; a value \<open>Some r\<close> is a run that stays inside what C defines.
\<close>

unbundle bit_operations_syntax

type_synonym u8 = "8 word"
type_synonym u16 = "16 word"
type_synonym u32 = "32 word"
type_synonym u64 = "64 word"

text \<open>C strings and byte arrays are lists of bytes; a string literal is written as a char list
  and converted with \<open>bytes_of\<close>.\<close>

type_synonym bytes = "u8 list"

definition byte_of_char :: "char \<Rightarrow> u8" where
  "byte_of_char c = of_nat (of_char c)"

definition bytes_of :: "string \<Rightarrow> bytes" where
  "bytes_of s = map byte_of_char s"

named_theorems field_simps_c \<open>read-over-write rules for C objects, arrays and stores\<close>
named_theorems op_defs \<open>definitions of the single virtual machine instructions\<close>
named_theorems codec_simps \<open>rules about encoders and decoders of the binary format\<close>

subsection \<open>Options as possibly undefined results\<close>

lemma bind_Some_iff [simp]:
  "(Option.bind x f = Some y) \<longleftrightarrow> (\<exists>z. x = Some z \<and> f z = Some y)"
  by (cases x) auto

lemma bind_None_iff [simp]:
  "(Option.bind x f = None) \<longleftrightarrow> (x = None \<or> (\<exists>z. x = Some z \<and> f z = None))"
  by (cases x) auto

definition guard_c :: "bool \<Rightarrow> unit option" where
  "guard_c b = (if b then Some () else None)"

lemma guard_c_simps [simp]:
  "guard_c True = Some ()" "guard_c False = None"
  "(guard_c b = Some u) \<longleftrightarrow> b" "(guard_c b = None) \<longleftrightarrow> \<not> b"
  by (simp_all add: guard_c_def)

subsection \<open>Little-endian bytes\<close>

primrec le_bytes :: "nat \<Rightarrow> nat \<Rightarrow> bytes" where
  "le_bytes 0 n = []"
| "le_bytes (Suc k) n = word_of_nat n # le_bytes k (n div 256)"

primrec le_val :: "bytes \<Rightarrow> nat" where
  "le_val [] = 0"
| "le_val (b # bs) = unat b + 256 * le_val bs"

lemma length_le_bytes [simp]: "length (le_bytes k n) = k"
  by (induction k arbitrary: n) auto

lemma le_val_bound: "le_val bs < 256 ^ length bs"
proof (induction bs)
  case (Cons b bs)
  have "unat b < 256" using unsigned_less [of b] by simp
  with Cons show ?case by simp
qed simp

lemma le_val_le_bytes: "le_val (le_bytes k n) = n mod 256 ^ k"
proof (induction k arbitrary: n)
  case (Suc k)
  have "unat (word_of_nat n :: u8) = n mod 256" by (simp add: unat_of_nat)
  with Suc show ?case
    by (simp add: mod_mult2_eq add.commute)
qed simp

lemma le_val_le_bytes_id [codec_simps]: "n < 256 ^ k \<Longrightarrow> le_val (le_bytes k n) = n"
  by (simp add: le_val_le_bytes)

lemma le_bytes_le_val [codec_simps]: "le_bytes (length bs) (le_val bs) = bs"
proof (induction bs)
  case (Cons b bs)
  have *: "unat b < 256" using unsigned_less [of b] by simp
  have "word_of_nat (unat b + 256 * le_val bs) = b"
  proof -
    have "(256 :: u8) = 0" by simp
    then show ?thesis by (simp only: of_nat_add of_nat_mult of_nat_numeral of_nat_unat) simp
  qed
  moreover have "(unat b + 256 * le_val bs) div 256 = le_val bs" using * by simp
  ultimately show ?case using Cons by simp
qed simp

lemma unat_of_nat_id: "n < 2 ^ LENGTH('a) \<Longrightarrow> unat (word_of_nat n :: 'a::len word) = n"
  by (simp add: unat_of_nat take_bit_nat_eq_self)

lemma unat_u8_less [simp]: "unat (b :: u8) < 256"
  using unsigned_less [of b] by simp

lemma unat_u16_less [simp]: "unat (b :: u16) < 65536"
  using unsigned_less [of b] by simp

lemma unat_u32_less [simp]: "unat (b :: u32) < 4294967296"
  using unsigned_less [of b] by simp

lemma unat_u64_less [simp]: "unat (b :: u64) < 18446744073709551616"
  using unsigned_less [of b] by simp

subsection \<open>Signed integers and truncating division\<close>

definition c_div :: "int \<Rightarrow> int \<Rightarrow> int" where
  "c_div a b = sgn a * sgn b * (\<bar>a\<bar> div \<bar>b\<bar>)"

definition c_mod :: "int \<Rightarrow> int \<Rightarrow> int" where
  "c_mod a b = a - b * c_div a b"

lemma c_div_c_mod: "b * c_div a b + c_mod a b = a"
  by (simp add: c_mod_def)

lemma c_mod_sgn: "c_mod a b = sgn a * (\<bar>a\<bar> mod \<bar>b\<bar>)"
proof -
  have "a = sgn a * \<bar>a\<bar>" by (simp add: sgn_mult_abs)
  also have "\<dots> = sgn a * (\<bar>b\<bar> * (\<bar>a\<bar> div \<bar>b\<bar>) + \<bar>a\<bar> mod \<bar>b\<bar>)" by simp
  also have "\<dots> = b * c_div a b + sgn a * (\<bar>a\<bar> mod \<bar>b\<bar>)"
    by (simp add: c_div_def distrib_left abs_sgn [of b] mult_ac)
  finally show ?thesis using c_div_c_mod [of b a] by linarith
qed

lemma c_mod_abs: "\<bar>c_mod a b\<bar> = \<bar>a\<bar> mod \<bar>b\<bar>"
proof -
  have "0 \<le> \<bar>a\<bar> mod \<bar>b\<bar>" by (cases "b = 0") simp_all
  then show ?thesis by (cases "a = 0") (auto simp: c_mod_sgn abs_mult abs_sgn_eq)
qed

lemma c_mod_less: "b \<noteq> 0 \<Longrightarrow> \<bar>c_mod a b\<bar> < \<bar>b\<bar>"
  by (simp add: c_mod_abs)

text \<open>The value of a comparison in C is the int 0 or 1.\<close>

definition c_bool :: "bool \<Rightarrow> u32" where
  "c_bool b = (if b then 1 else 0)"

lemma c_bool_simps [simp]: "c_bool True = 1" "c_bool False = 0"
  "(c_bool b = 0) \<longleftrightarrow> \<not> b" "(c_bool b = 1) \<longleftrightarrow> b"
  by (auto simp: c_bool_def)

subsection \<open>Steps that may end the process\<close>

text \<open>A computation that may call \<open>exit(n)\<close> has the result \<open>Inl n\<close> then.\<close>

definition exit_bind :: "(int + 'a) option \<Rightarrow> ('a \<Rightarrow> (int + 'b) option) \<Rightarrow> (int + 'b) option" where
  "exit_bind r f = (case r of None \<Rightarrow> None | Some (Inl n) \<Rightarrow> Some (Inl n) | Some (Inr a) \<Rightarrow> f a)"

lemma exit_bind_simps [simp]:
  "exit_bind None f = None" "exit_bind (Some (Inl n)) f = Some (Inl n)" "exit_bind (Some (Inr a)) f = f a"
  by (simp_all add: exit_bind_def)

lemma exit_bind_Inr_iff [simp]:
  "(exit_bind r f = Some (Inr b)) \<longleftrightarrow> (\<exists>a. r = Some (Inr a) \<and> f a = Some (Inr b))"
  by (auto simp: exit_bind_def split: option.splits sum.splits)

lemma exit_bind_Inl_iff:
  "(exit_bind r f = Some (Inl n)) \<longleftrightarrow> (r = Some (Inl n) \<or> (\<exists>a. r = Some (Inr a) \<and> f a = Some (Inl n)))"
  by (auto simp: exit_bind_def split: option.splits sum.splits)

lemma exit_bind_assoc: "exit_bind (exit_bind r f) g = exit_bind r (\<lambda>a. exit_bind (f a) g)"
  by (auto simp: exit_bind_def split: option.splits sum.splits)

lemma exit_bind_Inr_right [simp]: "exit_bind r (\<lambda>a. Some (Inr a)) = r"
  by (auto simp: exit_bind_def split: option.splits sum.splits)

primrec fold_exit :: "('a \<Rightarrow> 's \<Rightarrow> (int + 's) option) \<Rightarrow> 'a list \<Rightarrow> 's \<Rightarrow> (int + 's) option" where
  "fold_exit f [] s = Some (Inr s)"
| "fold_exit f (x # xs) s = exit_bind (f x s) (fold_exit f xs)"

lemma fold_exit_append: "fold_exit f (xs @ ys) s = exit_bind (fold_exit f xs s) (fold_exit f ys)"
  by (induction xs arbitrary: s) (auto simp: exit_bind_def split: option.splits sum.splits)

subsection \<open>Decimal output\<close>

text \<open>What \<open>printf\<close> writes for \<open>%d\<close>.\<close>

function dec_nat :: "nat \<Rightarrow> bytes" where
  "dec_nat n = (if n < 10 then [48 + word_of_nat n] else dec_nat (n div 10) @ [48 + word_of_nat (n mod 10)])"
  by pat_completeness auto
termination by (relation "measure id") auto

declare dec_nat.simps [simp del]

definition fmt_d :: "int \<Rightarrow> bytes" where
  "fmt_d i = (if i < 0 then 45 # dec_nat (nat (- i)) else dec_nat (nat i))"

end
