(* ===== verification/C_Memory.thy ===== *)
theory C_Memory
  imports Prelude
begin

text \<open>
  The byte-addressed memory that the programs' pointers point into: what the C sources use of
  the language and of \<open>malloc\<close>, \<open>realloc\<close>, \<open>free\<close>. An address is a natural number; address 0 is
  \<open>NULL\<close>. A byte is readable and writable while the chunk that holds it is allocated, and an
  access to any other address is undefined behaviour (\<open>None\<close>).

  Which address the C library returns, and what a fresh chunk holds before it is written, are
  parameters (\<open>al\<close>, \<open>jk\<close>): the locale \<open>allocator\<close> states what the C standard promises
  of them, its lemmas are what the components use, and \<open>bump_alloc\<close> is a concrete allocator
  that keeps the promise.
\<close>

record memory =
  cells :: "nat \<rightharpoonup> u8"
  chunks :: "nat \<rightharpoonup> nat"   \<comment> \<open>start and length of every allocated chunk\<close>
  brk :: nat               \<comment> \<open>no address from here on was ever allocated\<close>

type_synonym policy = "memory \<Rightarrow> nat \<Rightarrow> nat"
type_synonym junk = "nat \<Rightarrow> u8"

primrec poke :: "(nat \<rightharpoonup> u8) \<Rightarrow> nat \<Rightarrow> bytes \<Rightarrow> (nat \<rightharpoonup> u8)" where
  "poke f a [] = f"
| "poke f a (b # bs) = poke (f(a \<mapsto> b)) (Suc a) bs"

definition mem_read :: "memory \<Rightarrow> nat \<Rightarrow> nat \<Rightarrow> bytes option" where
  "mem_read m a n = those (map (cells m) [a..<a + n])"

definition mem_ok_range :: "memory \<Rightarrow> nat \<Rightarrow> nat \<Rightarrow> bool" where
  "mem_ok_range m a n = list_all (\<lambda>x. cells m x \<noteq> None) [a..<a + n]"

definition mem_write :: "memory \<Rightarrow> nat \<Rightarrow> bytes \<Rightarrow> memory option" where
  "mem_write m a bs =
     (if mem_ok_range m a (length bs) then Some (m\<lparr>cells := poke (cells m) a bs\<rparr>) else None)"

text \<open>A NUL-terminated string at an address (what \<open>fputs\<close> prints). A string that is not
  terminated inside mapped memory is undefined.\<close>

partial_function (option) mem_cstr :: "memory \<Rightarrow> nat \<Rightarrow> bytes option" where
  "mem_cstr m a = do {
     b \<leftarrow> cells m a;
     if b = 0 then Some [] else do { bs \<leftarrow> mem_cstr m (Suc a); Some (b # bs) } }"

definition c_malloc :: "policy \<Rightarrow> junk \<Rightarrow> memory \<Rightarrow> nat \<Rightarrow> nat \<times> memory" where
  "c_malloc al jk m n =
     (let a = al m n in
      if a = 0 then (0, m)
      else (a, m\<lparr>cells := poke (cells m) a (map jk [a..<a + n]),
                 chunks := (chunks m)(a \<mapsto> n),
                 brk := max (brk m) (a + max n 1)\<rparr>))"

definition c_free :: "memory \<Rightarrow> nat \<Rightarrow> memory option" where
  "c_free m p =
     (if p = 0 then Some m
      else do {
        n \<leftarrow> chunks m p;
        Some (m\<lparr>cells := (\<lambda>x. if p \<le> x \<and> x < p + n then None else cells m x),
                chunks := (chunks m)(p := None)\<rparr>) })"

definition c_realloc ::
  "policy \<Rightarrow> junk \<Rightarrow> memory \<Rightarrow> nat \<Rightarrow> nat \<Rightarrow> (nat \<times> memory) option" where
  "c_realloc al jk m p n =
     (if p = 0 then Some (c_malloc al jk m n)
      else do {
        old \<leftarrow> chunks m p;
        bs \<leftarrow> mem_read m p (min old n);
        m1 \<leftarrow> c_free m p;
        let (q, m2) = c_malloc al jk m1 n;
        if q = 0 then Some (0, m)
        else do { m3 \<leftarrow> mem_write m2 q bs; Some (q, m3) } })"

subsection \<open>Reading and writing\<close>

lemma poke_apply:
  "poke f a bs x = (if a \<le> x \<and> x < a + length bs then Some (bs ! (x - a)) else f x)"
proof (induction bs arbitrary: f a x)
  case (Cons b bs)
  show ?case
    by (cases "x = a") (auto simp: Cons nth_Cons')
qed auto

lemma those_map_Some_iff:
  "those (map f xs) = Some ys \<longleftrightarrow> map f xs = map Some ys"
proof (induction xs arbitrary: ys)
  case (Cons x xs)
  then show ?case by (cases ys) (auto split: option.splits)
qed auto

lemma mem_read_Some_iff:
  "mem_read m a n = Some bs \<longleftrightarrow>
     length bs = n \<and> (\<forall>i < n. cells m (a + i) = Some (bs ! i))"
  by (auto simp: mem_read_def those_map_Some_iff list_eq_iff_nth_eq)

lemma mem_ok_range_iff: "mem_ok_range m a n \<longleftrightarrow> (\<forall>x. a \<le> x \<and> x < a + n \<longrightarrow> cells m x \<noteq> None)"
  by (auto simp: mem_ok_range_def list_all_iff)

lemma mem_read_defined: "mem_ok_range m a n \<Longrightarrow> \<exists>bs. mem_read m a n = Some bs"
proof -
  assume ok: "mem_ok_range m a n"
  have "mem_read m a n = Some (map (\<lambda>x. the (cells m x)) [a..<a + n])"
    using ok by (auto simp: mem_read_Some_iff mem_ok_range_iff)
  then show ?thesis by blast
qed

lemma mem_write_Some_iff:
  "mem_write m a bs = Some m' \<longleftrightarrow>
     mem_ok_range m a (length bs) \<and> m' = m\<lparr>cells := poke (cells m) a bs\<rparr>"
  by (auto simp: mem_write_def)

text \<open>Read after write, and the frame rule for reads that do not overlap the write.\<close>

lemma mem_read_write_same:
  "mem_write m a bs = Some m' \<Longrightarrow> mem_read m' a (length bs) = Some bs"
  by (auto simp: mem_write_Some_iff mem_read_Some_iff poke_apply)

lemma mem_read_write_other:
  assumes "mem_write m a bs = Some m'" and "b + n \<le> a \<or> a + length bs \<le> b"
  shows "mem_read m' b n = mem_read m b n"
proof -
  have "map (cells m') [b..<b + n] = map (cells m) [b..<b + n]"
    using assms by (auto simp: mem_write_Some_iff poke_apply)
  then show ?thesis unfolding mem_read_def by (rule arg_cong)
qed

lemma mem_write_keeps:
  assumes "mem_write m a bs = Some m'"
  shows "chunks m' = chunks m" and "brk m' = brk m"
    and "cells m' x = None \<longleftrightarrow> cells m x = None"
  using assms by (auto simp: mem_write_Some_iff poke_apply mem_ok_range_iff)

lemma mem_ok_range_write:
  "mem_write m a bs = Some m' \<Longrightarrow> mem_ok_range m' b n = mem_ok_range m b n"
  by (simp add: mem_ok_range_iff mem_write_keeps)

lemma mem_ok_range_mono:
  "mem_ok_range m a n \<Longrightarrow> a \<le> b \<Longrightarrow> b + k \<le> a + n \<Longrightarrow> mem_ok_range m b k"
  by (auto simp: mem_ok_range_iff)

subsection \<open>The contract of the C allocator\<close>

definition mem_ok :: "memory \<Rightarrow> bool" where
  "mem_ok m \<longleftrightarrow>
     (\<forall>x. cells m x \<noteq> None \<longrightarrow> x < brk m) \<and>
     (\<forall>a n. chunks m a = Some n \<longrightarrow> a \<noteq> 0 \<and> a < brk m \<and> mem_ok_range m a n) \<and>
     (\<forall>a n b k. chunks m a = Some n \<longrightarrow> chunks m b = Some k \<longrightarrow> a \<noteq> b \<longrightarrow>
        a + n \<le> b \<or> b + k \<le> a)"

text \<open>C17 7.22.3: a successful allocation returns a pointer, aligned for every type, to space
  that is disjoint from any other object. The last law says the space is inside the address
  space.\<close>

locale allocator =
  fixes al :: "memory \<Rightarrow> nat \<Rightarrow> nat"
  assumes al_fresh: "mem_ok m \<Longrightarrow> al m n \<noteq> 0 \<Longrightarrow> al m n \<le> x \<Longrightarrow> x < al m n + n \<Longrightarrow>
      cells m x = None"
    and al_new: "mem_ok m \<Longrightarrow> al m n \<noteq> 0 \<Longrightarrow> chunks m a = Some k \<Longrightarrow>
      a \<noteq> al m n \<and> (a + k \<le> al m n \<or> al m n + n \<le> a)"
    and al_aligned: "16 dvd al m n"
    and al_range: "al m n \<noteq> 0 \<Longrightarrow> al m n < 2 ^ 64 \<and> al m n + n \<le> 2 ^ 64"
begin

lemma malloc_null: "c_malloc al jk m n = (0, m') \<Longrightarrow> m' = m"
  by (auto simp: c_malloc_def Let_def split: if_splits)

lemma malloc_fresh:
  assumes "mem_ok m" and "c_malloc al jk m n = (a, m')" and "a \<noteq> 0"
  shows "mem_ok_range m' a n" and "chunks m' = (chunks m)(a \<mapsto> n)"
    and "\<forall>x. a \<le> x \<and> x < a + n \<longrightarrow> cells m x = None"
    and "\<forall>x. \<not> (a \<le> x \<and> x < a + n) \<longrightarrow> cells m' x = cells m x"
    and "16 dvd a" and "a + n \<le> 2 ^ 64" and "chunks m a = None"
proof -
  have a: "al m n = a" and m': "m' = m\<lparr>cells := poke (cells m) a (map jk [a..<a + n]),
      chunks := (chunks m)(a \<mapsto> n), brk := max (brk m) (a + max n 1)\<rparr>"
    using assms(2,3) by (auto simp: c_malloc_def Let_def split: if_splits)
  show "mem_ok_range m' a n" and "chunks m' = (chunks m)(a \<mapsto> n)"
    and "\<forall>x. \<not> (a \<le> x \<and> x < a + n) \<longrightarrow> cells m' x = cells m x"
    by (auto simp: m' mem_ok_range_iff poke_apply)
  show "\<forall>x. a \<le> x \<and> x < a + n \<longrightarrow> cells m x = None"
    using al_fresh [OF assms(1), of n] assms(3) a by auto
  show "16 dvd a" and "a + n \<le> 2 ^ 64"
    using al_aligned [of m n] al_range [of m n] assms(3) a by auto
  show "chunks m a = None"
    using al_new [OF assms(1), of n a] assms(3) a by (cases "chunks m a") auto
qed

lemma malloc_below: "c_malloc al jk m n = (a, m') \<Longrightarrow> a < 2 ^ 64"
  using al_range [of m n] by (auto simp: c_malloc_def Let_def split: if_splits)

lemma malloc_ok:
  assumes ok: "mem_ok m" and run: "c_malloc al jk m n = (a, m')"
  shows "mem_ok m'"
proof (cases "a = 0")
  case True
  with run ok malloc_null show ?thesis by blast
next
  case False
  note fr = malloc_fresh [OF ok run False]
  have brk': "brk m' = max (brk m) (a + max n 1)"
    using run False by (auto simp: c_malloc_def Let_def split: if_splits)
  have keep: "mem_ok_range m' b k" if "chunks m b = Some k" for b k
    using ok that fr(3,4) unfolding mem_ok_def mem_ok_range_iff by metis
  have al: "al m n = a" using run False by (auto simp: c_malloc_def Let_def split: if_splits)
  have new: "b \<noteq> a \<and> (b + k \<le> a \<or> a + n \<le> b)" if "chunks m b = Some k" for b k
    using al_new [OF ok _ that, of n] False by (simp add: al)
  have "\<forall>x. cells m' x \<noteq> None \<longrightarrow> x < brk m'"
  proof (intro allI impI)
    fix x assume "cells m' x \<noteq> None"
    with ok fr(4) have "x < a + n \<or> x < brk m" unfolding mem_ok_def by metis
    then show "x < brk m'" by (auto simp: brk')
  qed
  moreover have "\<forall>b k. chunks m' b = Some k \<longrightarrow> b \<noteq> 0 \<and> b < brk m' \<and> mem_ok_range m' b k"
    using ok keep fr(1) False unfolding mem_ok_def fr(2) brk' by (auto simp: less_max_iff_disj)
  moreover have "\<forall>b k c l. chunks m' b = Some k \<longrightarrow> chunks m' c = Some l \<longrightarrow> b \<noteq> c \<longrightarrow>
      b + k \<le> c \<or> c + l \<le> b"
    using ok new unfolding mem_ok_def fr(2) by auto
  ultimately show ?thesis by (simp add: mem_ok_def)
qed

lemma malloc_keeps_reads:
  assumes "mem_ok m" and "c_malloc al jk m n = (a, m')" and "mem_read m b k = Some bs"
  shows "mem_read m' b k = Some bs"
proof (cases "a = 0")
  case True
  with assms malloc_null show ?thesis by blast
next
  case False
  note fr = malloc_fresh [OF assms(1,2) False]
  show ?thesis
    using assms(3) fr(3,4) unfolding mem_read_Some_iff by (metis option.distinct(1))
qed

end

lemma free_ok: "mem_ok m \<Longrightarrow> c_free m p = Some m' \<Longrightarrow> mem_ok m'"
  unfolding mem_ok_def
  by (fastforce simp: c_free_def mem_ok_range_iff split: if_splits)

lemma write_ok: "mem_ok m \<Longrightarrow> mem_write m a bs = Some m' \<Longrightarrow> mem_ok m'"
  by (simp add: mem_ok_def mem_write_keeps mem_ok_range_write [of m a bs])

subsection \<open>A concrete allocator\<close>

text \<open>Addresses in increasing order, 16-byte aligned, never reused.\<close>

definition bump_alloc :: "memory \<Rightarrow> nat \<Rightarrow> nat" where
  "bump_alloc m n =
     (let a = 16 * ((brk m + 31) div 16) in if a + max n 1 \<le> 2 ^ 64 then a else 0)"

lemma bump_above: "brk m < 16 * ((brk m + 31) div 16)"
  by presburger

lemma chunk_below_brk: "mem_ok m \<Longrightarrow> chunks m a = Some k \<Longrightarrow> a < brk m \<and> a + k \<le> brk m"
proof -
  assume ok: "mem_ok m" and c: "chunks m a = Some k"
  then have 1: "a < brk m" and r: "mem_ok_range m a k"
    and b: "\<forall>x. cells m x \<noteq> None \<longrightarrow> x < brk m"
    unfolding mem_ok_def by blast+
  show ?thesis
  proof (cases k)
    case 0
    with 1 show ?thesis by simp
  next
    case (Suc j)
    with r b have "a + j < brk m" by (simp add: mem_ok_range_iff)
    with 1 Suc show ?thesis by simp
  qed
qed

interpretation bump: allocator bump_alloc
proof unfold_locales
  fix m n x
  assume ok: "mem_ok m" and "bump_alloc m n \<noteq> 0" and "bump_alloc m n \<le> x"
  then have "brk m \<le> x"
    using bump_above [of m] by (auto simp: bump_alloc_def Let_def split: if_splits)
  with ok show "cells m x = None" unfolding mem_ok_def by (metis leD)
next
  fix m n a k
  assume ok: "mem_ok m" and "bump_alloc m n \<noteq> 0" and c: "chunks m a = Some k"
  then have "brk m < bump_alloc m n"
    using bump_above [of m] by (auto simp: bump_alloc_def Let_def split: if_splits)
  with chunk_below_brk [OF ok c]
  show "a \<noteq> bump_alloc m n \<and> (a + k \<le> bump_alloc m n \<or> bump_alloc m n + n \<le> a)"
    by linarith
qed (auto simp: bump_alloc_def Let_def)

definition empty_memory :: memory where
  "empty_memory = \<lparr>cells = Map.empty, chunks = Map.empty, brk = 0\<rparr>"

lemma mem_ok_empty: "mem_ok empty_memory"
  by (simp add: mem_ok_def empty_memory_def)

end
