(* ===== verification/Float32.thy ===== *)
theory Float32
  imports Prelude
begin

text \<open>
  C's \<open>float\<close> on the target machines: IEEE 754 binary32, round to nearest, ties to even, as the
  SSE instructions compute it. A float is its 32 bits. The magnitude of a finite float is a
  natural number of units of $2^{-149}$, the smallest positive float; every operation is computed
  exactly as a rational number of such units and rounded once by \<open>f32_round\<close>.

  NaN results follow the SSE rule: the first NaN operand, quieted, or else the default NaN.
\<close>

definition f32_sign :: "u32 \<Rightarrow> bool" where
  "f32_sign w = bit w 31"

definition f32_exp :: "u32 \<Rightarrow> nat" where
  "f32_exp w = (unat w div 2 ^ 23) mod 256"

definition f32_frac :: "u32 \<Rightarrow> nat" where
  "f32_frac w = unat w mod 2 ^ 23"

definition f32_is_nan :: "u32 \<Rightarrow> bool" where
  "f32_is_nan w \<longleftrightarrow> f32_exp w = 255 \<and> f32_frac w \<noteq> 0"

definition f32_is_inf :: "u32 \<Rightarrow> bool" where
  "f32_is_inf w \<longleftrightarrow> f32_exp w = 255 \<and> f32_frac w = 0"

definition f32_finite :: "u32 \<Rightarrow> bool" where
  "f32_finite w \<longleftrightarrow> f32_exp w \<noteq> 255"

definition f32_mag :: "u32 \<Rightarrow> nat" where
  "f32_mag w = (if f32_exp w = 0 then f32_frac w
                else (2 ^ 23 + f32_frac w) * 2 ^ (f32_exp w - 1))"

definition f32_int :: "u32 \<Rightarrow> int" where
  "f32_int w = (if f32_sign w then - int (f32_mag w) else int (f32_mag w))"

definition f32_pack :: "bool \<Rightarrow> nat \<Rightarrow> u32" where
  "f32_pack s bits = word_of_nat ((if s then 2 ^ 31 else 0) + bits)"

definition f32_default_nan :: u32 where "f32_default_nan = 0xFFC00000"

definition f32_quiet :: "u32 \<Rightarrow> u32" where "f32_quiet w = w OR 0x00400000"

fun bit_len :: "nat \<Rightarrow> nat" where
  "bit_len n = (if n = 0 then 0 else Suc (bit_len (n div 2)))"

declare bit_len.simps [simp del]

text \<open>Nearest integer to \<open>n / d\<close>, ties to even.\<close>

definition rne :: "nat \<Rightarrow> nat \<Rightarrow> nat" where
  "rne n d = (let q = n div d; r = n mod d in
     if 2 * r < d \<or> (2 * r = d \<and> even q) then q else Suc q)"

text \<open>The float nearest to \<open>n / d\<close> units of $2^{-149}$.\<close>

definition f32_round :: "bool \<Rightarrow> nat \<Rightarrow> nat \<Rightarrow> u32" where
  "f32_round s n d =
     (let sh = bit_len (n div d) - 24;
          bits = sh * 2 ^ 23 + rne n (d * 2 ^ sh)
      in if bits < 255 * 2 ^ 23 then f32_pack s bits else f32_pack s (255 * 2 ^ 23))"

definition f32_neg :: "u32 \<Rightarrow> u32" where "f32_neg w = w XOR 0x80000000"

definition f32_add :: "u32 \<Rightarrow> u32 \<Rightarrow> u32" where
  "f32_add a b =
     (if f32_is_nan a then f32_quiet a
      else if f32_is_nan b then f32_quiet b
      else if f32_is_inf a then
        (if f32_is_inf b \<and> f32_sign a \<noteq> f32_sign b then f32_default_nan else a)
      else if f32_is_inf b then b
      else let v = f32_int a + f32_int b in
        if v = 0 then f32_pack (f32_sign a \<and> f32_sign b) 0
        else f32_round (v < 0) (nat \<bar>v\<bar>) 1)"

definition f32_sub :: "u32 \<Rightarrow> u32 \<Rightarrow> u32" where
  "f32_sub a b =
     (if f32_is_nan a then f32_quiet a
      else if f32_is_nan b then f32_quiet b
      else f32_add a (f32_neg b))"

definition f32_mul :: "u32 \<Rightarrow> u32 \<Rightarrow> u32" where
  "f32_mul a b =
     (let s = (f32_sign a \<noteq> f32_sign b) in
      if f32_is_nan a then f32_quiet a
      else if f32_is_nan b then f32_quiet b
      else if f32_is_inf a \<or> f32_is_inf b then
        (if f32_mag a = 0 \<or> f32_mag b = 0 then f32_default_nan else f32_pack s (255 * 2 ^ 23))
      else f32_round s (f32_mag a * f32_mag b) (2 ^ 149))"

definition f32_div :: "u32 \<Rightarrow> u32 \<Rightarrow> u32" where
  "f32_div a b =
     (let s = (f32_sign a \<noteq> f32_sign b) in
      if f32_is_nan a then f32_quiet a
      else if f32_is_nan b then f32_quiet b
      else if f32_is_inf a then
        (if f32_is_inf b then f32_default_nan else f32_pack s (255 * 2 ^ 23))
      else if f32_is_inf b then f32_pack s 0
      else if f32_mag b = 0 then
        (if f32_mag a = 0 then f32_default_nan else f32_pack s (255 * 2 ^ 23))
      else f32_round s (f32_mag a * 2 ^ 149) (f32_mag b))"

text \<open>Comparisons are false when an operand is a NaN. The bit pattern of an infinity read as a
  magnitude is larger than every finite one, and the two zeros have the same value.\<close>

definition f32_less :: "u32 \<Rightarrow> u32 \<Rightarrow> bool" where
  "f32_less a b \<longleftrightarrow> \<not> f32_is_nan a \<and> \<not> f32_is_nan b \<and> f32_int a < f32_int b"

definition f32_le :: "u32 \<Rightarrow> u32 \<Rightarrow> bool" where
  "f32_le a b \<longleftrightarrow> \<not> f32_is_nan a \<and> \<not> f32_is_nan b \<and> f32_int a \<le> f32_int b"

definition f32_eq :: "u32 \<Rightarrow> u32 \<Rightarrow> bool" where
  "f32_eq a b \<longleftrightarrow> \<not> f32_is_nan a \<and> \<not> f32_is_nan b \<and> f32_int a = f32_int b"

text \<open>Conversions. An integer is rounded; a float is truncated, and a value that the integer type
  cannot hold is undefined (C17 6.3.1.4).\<close>

definition f32_of_int :: "int \<Rightarrow> u32" where
  "f32_of_int i = f32_round (i < 0) (nat \<bar>i\<bar> * 2 ^ 149) 1"

definition f32_trunc :: "u32 \<Rightarrow> int" where
  "f32_trunc w = (let t = int (f32_mag w div 2 ^ 149) in if f32_sign w then - t else t)"

definition i32_of_f32 :: "u32 \<Rightarrow> u32 option" where
  "i32_of_f32 w =
     (if f32_finite w \<and> - (2 ^ 31) \<le> f32_trunc w \<and> f32_trunc w < 2 ^ 31
      then Some (word_of_int (f32_trunc w)) else None)"

definition u32_of_f32 :: "u32 \<Rightarrow> u32 option" where
  "u32_of_f32 w =
     (if f32_finite w \<and> 0 \<le> f32_trunc w \<and> f32_trunc w < 2 ^ 32
      then Some (word_of_int (f32_trunc w)) else None)"

subsection \<open>Length in bits\<close>

lemma bit_len_0 [simp]: "bit_len 0 = 0"
  by (simp add: bit_len.simps)

lemma bit_len_pos: "0 < n \<Longrightarrow> bit_len n = Suc (bit_len (n div 2))"
  by (subst bit_len.simps) simp

lemma bit_len_bounds: "0 < n \<Longrightarrow> 2 ^ (bit_len n - 1) \<le> n \<and> n < 2 ^ bit_len n"
proof (induction n rule: bit_len.induct)
  case (1 n)
  show ?case
  proof (cases "n = 1")
    case True
    then show ?thesis by (simp add: bit_len_pos)
  next
    case False
    with "1.prems" have pos: "0 < n div 2" by linarith
    with "1" have IH: "2 ^ (bit_len (n div 2) - 1) \<le> n div 2 \<and> n div 2 < 2 ^ bit_len (n div 2)"
      by simp
    obtain k where k: "bit_len (n div 2) = Suc k"
      using bit_len_pos [OF pos] by blast
    with IH have "2 * 2 ^ k \<le> n" and "n < 2 * (2 * 2 ^ k)" by auto
    then show ?thesis using "1.prems" by (simp add: bit_len_pos k)
  qed
qed

lemma bit_len_unique: "2 ^ k \<le> n \<Longrightarrow> n < 2 ^ Suc k \<Longrightarrow> bit_len n = Suc k"
proof -
  assume a: "2 ^ k \<le> n" "n < 2 ^ Suc k"
  then have "0 < n" by (metis gr0I not_le zero_less_numeral zero_less_power)
  note b = bit_len_bounds [OF this]
  from a b have "(2::nat) ^ k < 2 ^ bit_len n" "(2::nat) ^ (bit_len n - 1) < 2 ^ Suc k"
    by linarith+
  then have "k < bit_len n" "bit_len n - 1 < Suc k"
    by (simp_all only: power_strict_increasing_iff one_less_numeral_iff semiring_norm)
  then show ?thesis by simp
qed

lemma bit_len_le: "n < 2 ^ k \<Longrightarrow> bit_len n \<le> k"
proof (cases "n = 0")
  case False
  assume "n < 2 ^ k"
  with False bit_len_bounds [of n] have "(2::nat) ^ (bit_len n - 1) < 2 ^ k" by linarith
  then have "bit_len n - 1 < k"
    by (simp only: power_strict_increasing_iff one_less_numeral_iff semiring_norm)
  then show ?thesis by simp
qed simp

subsection \<open>Rounding is exact on representable values\<close>

lemma rne_exact: "0 < d \<Longrightarrow> rne (q * d) d = q"
  by (simp add: rne_def)

lemma rne_1 [simp]: "rne n 1 = n" "rne n (Suc 0) = n"
  by (simp_all add: rne_def)

lemma rne_error: "0 < d \<Longrightarrow> 2 * \<bar>int (rne n d) * int d - int n\<bar> \<le> int d"
proof -
  assume d: "0 < d"
  have n: "int n = int (n div d) * int d + int (n mod d)"
    by (metis div_mult_mod_eq of_nat_add of_nat_mult)
  have "n mod d < d" using d by simp
  then show ?thesis
    unfolding rne_def Let_def using n by (auto simp: algebra_simps)
qed

lemma f32_sign_iff: "f32_sign w \<longleftrightarrow> 2 ^ 31 \<le> unat w"
proof -
  have "bit w 31 \<longleftrightarrow> bit (unat w) 31" by (simp add: bit_unsigned_iff)
  also have "\<dots> \<longleftrightarrow> odd (unat w div 2 ^ 31)" by (simp add: bit_iff_odd)
  also have "\<dots> \<longleftrightarrow> 2 ^ 31 \<le> unat w"
  proof -
    have "unat w div 2 ^ 31 < 2" using unat_u32_less [of w] by (simp add: less_mult_imp_div_less)
    then have "odd (unat w div 2 ^ 31) \<longleftrightarrow> unat w div 2 ^ 31 \<noteq> 0"
      by (metis One_nat_def even_zero less_2_cases odd_one)
    then show ?thesis by (simp add: div_eq_0_iff not_less)
  qed
  finally show ?thesis by (simp add: f32_sign_def)
qed

lemma f32_fields_pack:
  assumes "bits < 2 ^ 31"
  shows "f32_exp (f32_pack s bits) = bits div 2 ^ 23"
    and "f32_frac (f32_pack s bits) = bits mod 2 ^ 23"
    and "f32_sign (f32_pack s bits) = s"
proof -
  have u: "unat (f32_pack s bits) = (if s then 2 ^ 31 else 0) + bits"
    unfolding f32_pack_def by (rule unat_of_nat_id) (use assms in simp)
  have "bits div 2 ^ 23 < 256" using assms by simp
  moreover have "(2 ^ 31 + bits) div 2 ^ 23 = 256 + bits div 2 ^ 23" by simp
  ultimately show "f32_exp (f32_pack s bits) = bits div 2 ^ 23"
    unfolding f32_exp_def u by (cases s) simp_all
  have "(2 ^ 31 + bits) mod 2 ^ 23 = bits mod 2 ^ 23"
    using mod_mult_self3 [of 256 "2 ^ 23" bits] by simp
  then show "f32_frac (f32_pack s bits) = bits mod 2 ^ 23"
    unfolding f32_frac_def u by (cases s) simp_all
  show "f32_sign (f32_pack s bits) = s"
    unfolding f32_sign_iff u using assms by (cases s) simp_all
qed

lemma f32_pack_fields:
  "f32_pack (f32_sign w) (f32_exp w * 2 ^ 23 + f32_frac w) = w"
proof (rule unsigned_word_eqI)
  have e: "f32_exp w * 2 ^ 23 + f32_frac w = unat w mod 2 ^ 31"
    using mod_mult2_eq [of "unat w" "2 ^ 23" 256] by (simp add: f32_exp_def f32_frac_def)
  have "unat w mod 2 ^ 31 + (if 2 ^ 31 \<le> unat w then 2 ^ 31 else 0) = unat w"
  proof (cases "2 ^ 31 \<le> unat w")
    case True
    have "unat w - 2 ^ 31 < 2 ^ 31" using unat_u32_less [of w] True by (simp del: unat_u32_less)
    then have "unat w mod 2 ^ 31 = unat w - 2 ^ 31" using True by (simp add: le_mod_geq)
    with True show ?thesis by simp
  qed simp
  then show "unat (f32_pack (f32_sign w) (f32_exp w * 2 ^ 23 + f32_frac w)) = unat w"
    unfolding f32_pack_def f32_sign_iff e by (subst unat_of_nat_id) auto
qed

text \<open>The quotient that \<open>f32_round\<close> packs has 24 bits, or fewer for a subnormal.\<close>

lemma f32_round_quotient:
  assumes d: "0 < d" and sh: "sh = bit_len (n div d) - 24"
  shows "rne n (d * 2 ^ sh) \<le> 2 ^ 24" and "sh = 0 \<or> 2 ^ 23 \<le> rne n (d * 2 ^ sh)"
proof -
  define q where "q = n div d div 2 ^ sh"
  have q: "n div (d * 2 ^ sh) = q" by (simp add: q_def div_mult2_eq)
  have r: "q \<le> rne n (d * 2 ^ sh)" "rne n (d * 2 ^ sh) \<le> Suc q"
    by (auto simp: rne_def Let_def q)
  have "q < 2 ^ 24 \<and> (sh = 0 \<or> 2 ^ 23 \<le> q)"
  proof (cases "24 < bit_len (n div d)")
    case False
    then have "sh = 0" by (simp add: sh)
    moreover have "n div d < 2 ^ 24"
    proof (cases "n div d = 0")
      case False
      with bit_len_bounds [of "n div d"] have "n div d < 2 ^ bit_len (n div d)" by simp
      also have "\<dots> \<le> (2::nat) ^ 24"
        using \<open>\<not> 24 < bit_len (n div d)\<close> by (intro power_increasing) auto
      finally show ?thesis .
    qed simp
    ultimately show ?thesis by (simp add: q_def)
  next
    case True
    then have "0 < n div d" by (cases "n div d = 0") auto
    note b = bit_len_bounds [OF this]
    have e: "bit_len (n div d) = sh + 24" "bit_len (n div d) - 1 = sh + 23"
      using True by (auto simp: sh)
    have "n div d < 2 ^ sh * 2 ^ 24" "2 ^ sh * 2 ^ 23 \<le> n div d"
      using b unfolding e(2) unfolding e(1) by (simp_all only: power_add)
    then show ?thesis
      by (simp add: q_def less_mult_imp_div_less mult.commute less_eq_div_iff_mult_less_eq)
  qed
  with r show "rne n (d * 2 ^ sh) \<le> 2 ^ 24" and "sh = 0 \<or> 2 ^ 23 \<le> rne n (d * 2 ^ sh)"
    by auto
qed

lemma f32_mag_pack:
  assumes "q \<le> 2 ^ 24" and "sh = 0 \<or> 2 ^ 23 \<le> q" and b: "sh * 2 ^ 23 + q < 255 * 2 ^ 23"
  shows "f32_mag (f32_pack s (sh * 2 ^ 23 + q)) = q * 2 ^ sh"
proof -
  have lt: "sh * 2 ^ 23 + q < 2 ^ 31" using b by simp
  note f = f32_fields_pack [OF lt, of s]
  consider "q < 2 ^ 23" | "2 ^ 23 \<le> q" "q < 2 ^ 24" | "q = 2 ^ 24"
    using assms(1) by linarith
  then show ?thesis
  proof cases
    case 1
    with assms(2) have "sh = 0" by simp
    with 1 f show ?thesis by (simp add: f32_mag_def)
  next
    case 2
    then obtain r where "q = 2 ^ 23 + r" using le_Suc_ex by blast
    with 2 have r: "q = 2 ^ 23 + r" "r < 2 ^ 23" by simp_all
    then have "(sh * 2 ^ 23 + q) div 2 ^ 23 = Suc sh" "(sh * 2 ^ 23 + q) mod 2 ^ 23 = r"
      by simp_all
    with f r(1) show ?thesis by (simp only: f32_mag_def) simp
  next
    case 3
    then have "(sh * 2 ^ 23 + q) div 2 ^ 23 = sh + 2" "(sh * 2 ^ 23 + q) mod 2 ^ 23 = 0"
      by simp_all
    with f 3 show ?thesis by (simp only: f32_mag_def) simp
  qed
qed

lemma f32_round_mag:
  assumes d: "0 < d" and sh: "sh = bit_len (n div d) - 24"
    and b: "sh * 2 ^ 23 + rne n (d * 2 ^ sh) < 255 * 2 ^ 23"
  shows "f32_mag (f32_round s n d) = rne n (d * 2 ^ sh) * 2 ^ sh"
    and "f32_sign (f32_round s n d) = s" and "f32_finite (f32_round s n d)"
proof -
  have r: "f32_round s n d = f32_pack s (sh * 2 ^ 23 + rne n (d * 2 ^ sh))"
    using b by (simp add: f32_round_def Let_def sh)
  show "f32_mag (f32_round s n d) = rne n (d * 2 ^ sh) * 2 ^ sh"
    unfolding r using f32_mag_pack [OF f32_round_quotient [OF d sh] b] .
  have lt: "sh * 2 ^ 23 + rne n (d * 2 ^ sh) < 2 ^ 31" using b by simp
  show "f32_sign (f32_round s n d) = s"
    unfolding r by (rule f32_fields_pack(3) [OF lt])
  show "f32_finite (f32_round s n d)"
    unfolding r f32_finite_def f32_fields_pack(1) [OF lt]
    using less_mult_imp_div_less [OF b] by linarith
qed

lemma f32_mag_less: "f32_finite w \<Longrightarrow> f32_exp w < 255"
proof -
  assume "f32_finite w"
  moreover have "f32_exp w < 256" by (simp add: f32_exp_def)
  ultimately show ?thesis by (simp add: f32_finite_def)
qed

lemma f32_frac_less: "f32_frac w < 2 ^ 23"
  by (simp add: f32_frac_def)

text \<open>A finite float is a fixed point: rounding its exact value gives it back.\<close>

lemma f32_round_finite:
  assumes "f32_finite w"
  shows "f32_round (f32_sign w) (f32_mag w) 1 = w"
proof (cases "f32_exp w = 0")
  case True
  then have "bit_len (f32_mag w) \<le> 23"
    using f32_frac_less [of w] by (simp add: f32_mag_def bit_len_le del: power_numeral)
  then have sh: "bit_len (f32_mag w div 1) - 24 = 0" by simp
  have m: "f32_mag w = f32_exp w * 2 ^ 23 + f32_frac w"
    using True by (simp add: f32_mag_def)
  have "f32_round (f32_sign w) (f32_mag w) 1 = f32_pack (f32_sign w) (f32_mag w)"
    unfolding f32_round_def Let_def sh using f32_frac_less [of w] True by (simp add: m)
  then show ?thesis unfolding m using f32_pack_fields by metis
next
  case False
  then obtain e where e: "f32_exp w = Suc e" by (cases "f32_exp w") auto
  let ?q = "2 ^ 23 + f32_frac w"
  have q: "?q < 2 ^ 24" using f32_frac_less [of w] by simp
  have m: "f32_mag w = ?q * 2 ^ e" by (simp add: f32_mag_def e)
  have "2 ^ (23 + e) \<le> f32_mag w" "f32_mag w < 2 ^ (24 + e)"
    unfolding m power_add using q by (simp_all del: power_numeral)
  then have "bit_len (f32_mag w) = Suc (23 + e)"
    by (intro bit_len_unique) simp_all
  then have sh: "bit_len (f32_mag w div 1) - 24 = e" by simp
  have r: "rne (f32_mag w) (1 * 2 ^ e) = ?q"
    unfolding m using rne_exact [of "2 ^ e" ?q] by simp
  have p: "e * 2 ^ 23 + ?q = f32_exp w * 2 ^ 23 + f32_frac w" by (simp add: e)
  have "f32_exp w * 2 ^ 23 + f32_frac w < 255 * 2 ^ 23"
    using f32_mag_less [OF assms] f32_frac_less [of w] by simp
  then have "f32_round (f32_sign w) (f32_mag w) 1 =
      f32_pack (f32_sign w) (f32_exp w * 2 ^ 23 + f32_frac w)"
    unfolding f32_round_def Let_def sh r p by simp
  then show ?thesis using f32_pack_fields by metis
qed

text \<open>Otherwise the error is at most half a unit in the last place.\<close>

lemma f32_round_half_ulp:
  assumes d: "0 < d" and sh: "sh = bit_len (n div d) - 24"
    and b: "sh * 2 ^ 23 + rne n (d * 2 ^ sh) < 255 * 2 ^ 23"
  shows "2 * \<bar>int (f32_mag (f32_round s n d)) * int d - int n\<bar> \<le> int d * 2 ^ sh"
proof -
  have "2 * \<bar>int (rne n (d * 2 ^ sh)) * int (d * 2 ^ sh) - int n\<bar> \<le> int (d * 2 ^ sh)"
    by (rule rne_error) (use d in simp)
  then show ?thesis
    unfolding f32_round_mag(1) [OF d sh b] by (simp add: mult_ac)
qed

lemma bit_len_times_pow: "0 < n \<Longrightarrow> bit_len (n * 2 ^ k) = bit_len n + k"
proof (induction k)
  case (Suc k)
  have "bit_len (n * 2 ^ Suc k) = Suc (bit_len (n * 2 ^ Suc k div 2))"
    using Suc.prems by (intro bit_len_pos) simp
  also have "n * 2 ^ Suc k div 2 = n * 2 ^ k" by simp
  finally show ?case using Suc by simp
qed simp

text \<open>Integers of magnitude up to $2^{24}$ are exact floats, and converting back recovers them.\<close>

lemma f32_of_int_exact:
  assumes "\<bar>i\<bar> \<le> 2 ^ 24"
  shows "f32_mag (f32_of_int i) = nat \<bar>i\<bar> * 2 ^ 149"
    and "f32_sign (f32_of_int i) = (i < 0)" and "f32_finite (f32_of_int i)"
proof -
  define n where "n = nat \<bar>i\<bar> * 2 ^ 149"
  define sh where "sh = bit_len (n div 1) - 24"
  have le: "nat \<bar>i\<bar> \<le> 2 ^ 24" using assms by simp
  have "\<exists>q. n = q * 2 ^ sh \<and> sh \<le> 150"
  proof (cases "nat \<bar>i\<bar> < 2 ^ 24")
    case True
    have "bit_len n \<le> 24 + 149"
    proof (cases "i = 0")
      case False
      then have "bit_len n = bit_len (nat \<bar>i\<bar>) + 149" unfolding n_def
        by (intro bit_len_times_pow) simp
      with bit_len_le [OF True] show ?thesis by simp
    qed (simp add: n_def)
    then have "sh \<le> 149" by (simp add: sh_def)
    then have "(2::nat) ^ 149 = 2 ^ (149 - sh) * 2 ^ sh" by (simp flip: power_add)
    then have "n = nat \<bar>i\<bar> * 2 ^ (149 - sh) * 2 ^ sh" unfolding n_def by (simp only: mult.assoc)
    with \<open>sh \<le> 149\<close> show ?thesis by (intro exI conjI) (assumption, simp)
  next
    case False
    with le have i: "nat \<bar>i\<bar> = 2 ^ 24" by simp
    then have "n = 1 * 2 ^ (24 + 149)" unfolding n_def power_add by simp
    then have "bit_len n = Suc (24 + 149)"
      by (simp only: bit_len_times_pow) (simp add: bit_len_pos)
    then have "sh = 150" by (simp add: sh_def)
    moreover have "n = 2 ^ 23 * 2 ^ 150" unfolding n_def i by simp
    ultimately show ?thesis by auto
  qed
  then obtain q where q: "n = q * 2 ^ sh" "sh \<le> 150" by blast
  have r: "rne n (1 * 2 ^ sh) = q" unfolding q(1) using rne_exact [of "2 ^ sh" q] by simp
  have "q \<le> 2 ^ 24"
    using f32_round_quotient(1) [of 1 sh n] r sh_def by simp
  then have b: "sh * 2 ^ 23 + rne n (1 * 2 ^ sh) < 255 * 2 ^ 23"
    unfolding r using q(2) by simp
  have f: "f32_of_int i = f32_round (i < 0) n 1" by (simp add: f32_of_int_def n_def)
  note m = f32_round_mag [OF _ sh_def b, of "i < 0"]
  show "f32_mag (f32_of_int i) = nat \<bar>i\<bar> * 2 ^ 149"
    unfolding f m(1) [OF zero_less_one] r n_def [symmetric] by (simp add: q(1))
  show "f32_sign (f32_of_int i) = (i < 0)" "f32_finite (f32_of_int i)"
    unfolding f using m(2,3) by simp_all
qed

lemma f32_trunc_of_int: "\<bar>i\<bar> \<le> 2 ^ 24 \<Longrightarrow> f32_trunc (f32_of_int i) = i"
  using f32_of_int_exact(1,2) [of i] by (auto simp: f32_trunc_def)

lemma i32_of_f32_of_int:
  assumes "\<bar>i\<bar> \<le> 2 ^ 24"
  shows "i32_of_f32 (f32_of_int i) = Some (word_of_int i)"
proof -
  have "- (2 ^ 31) \<le> i" "i < 2 ^ 31" using assms by simp_all
  with f32_of_int_exact(3) [OF assms] show ?thesis
    by (simp only: i32_of_f32_def f32_trunc_of_int [OF assms]) simp
qed

end
