(* ===== verification/Tvm_Types.thy ===== *)
theory Tvm_Types
  imports Prelude C_Memory Float32
begin

text \<open>
  The data types of \<open>include/tvm/tvm.h\<close>: exceptions, instruction types, tagged stack objects,
  programs with their metadata and constant table, and the machine state \<open>tvm_t\<close>, with its
  initialisation and the loading of code from memory.

  Enumerations whose values are stored in a byte keep that byte (an instruction read from a file
  may hold any of the 256 values); \<open>optype_code\<close> and \<open>optype_of\<close> relate it to the enumerators.
  A fixed-size C array is a function from indices, with every access bounds-checked where it is
  made. \<open>word_t\<close> registers (stack pointers, instruction pointer) are natural numbers: each
  decrement in the code is guarded and each increment is bounded by an array capacity, so they
  never wrap (the invariant proved in \<open>Tvm_Invariants\<close>).
\<close>

subsection \<open>Enumerations\<close>

datatype exception_t =
    EXCEPT_OK | EXCEPT_STACK_UNDERFLOW
  | EXCEPT_STACK_OVERFLOW | EXCEPT_RETURN_STACK_UNDERFLOW
  | EXCEPT_RETURN_STACK_OVERFLOW | EXCEPT_INVALID_INSTRUCTION
  | EXCEPT_INVALID_INSTRUCTION_ACCESS | EXCEPT_INVALID_LOCAL_VAR_ACCESS
  | EXCEPT_INVALID_GLOBAL_VAR_ACCESS | EXCEPT_INVALID_CONSTANT_ACCESS
  | EXCEPT_INVALID_CONSTANT_ADDRESS_ACCESS | EXCEPT_INVALID_NATIVE_FUNCTION_ACCESS
  | EXCEPT_INVALID_STACK_ACCESS | EXCEPT_DIVISION_BY_ZERO
  | EXCEPT_INVALID_PRIMITIVE_SIZE | EXCEPT_INVALID_ARRAY_INDEX
  | EXCEPT_INVALID_BYTE_SIZE

fun exception_to_cstr :: "exception_t \<Rightarrow> string" where
  "exception_to_cstr EXCEPT_OK = ''EXCEPT_OK''"
| "exception_to_cstr EXCEPT_STACK_UNDERFLOW = ''EXCEPT_STACK_UNDERFLOW''"
| "exception_to_cstr EXCEPT_STACK_OVERFLOW = ''EXCEPT_STACK_OVERFLOW''"
| "exception_to_cstr EXCEPT_RETURN_STACK_UNDERFLOW = ''EXCEPT_RETURN_STACK_UNDERFLOW''"
| "exception_to_cstr EXCEPT_RETURN_STACK_OVERFLOW = ''EXCEPT_RETURN_STACK_OVERFLOW''"
| "exception_to_cstr EXCEPT_INVALID_INSTRUCTION = ''EXCEPT_INVALID_INSTRUCTION''"
| "exception_to_cstr EXCEPT_INVALID_INSTRUCTION_ACCESS = ''EXCEPT_INVALID_INSTRUCTION_ACCESS''"
| "exception_to_cstr EXCEPT_INVALID_LOCAL_VAR_ACCESS = ''EXCEPT_INVALID_LOCAL_VAR_ACCESS''"
| "exception_to_cstr EXCEPT_INVALID_GLOBAL_VAR_ACCESS = ''EXCEPT_INVALID_GLOBAL_VAR_ACCESS''"
| "exception_to_cstr EXCEPT_INVALID_CONSTANT_ACCESS = ''EXCEPT_INVALID_CONSTANT_ACCESS''"
| "exception_to_cstr EXCEPT_INVALID_CONSTANT_ADDRESS_ACCESS = ''EXCEPT_INVALID_CONSTANT_ADDRESS_ACCESS''"
| "exception_to_cstr EXCEPT_INVALID_NATIVE_FUNCTION_ACCESS = ''EXCEPT_INVALID_NATIVE_FUNCTION_ACCESS''"
| "exception_to_cstr EXCEPT_INVALID_STACK_ACCESS = ''EXCEPT_INVALID_STACK_ACCESS''"
| "exception_to_cstr EXCEPT_DIVISION_BY_ZERO = ''EXCEPT_DIVISION_BY_ZERO''"
| "exception_to_cstr EXCEPT_INVALID_PRIMITIVE_SIZE = ''EXCEPT_INVALID_PRIMITIVE_SIZE''"
| "exception_to_cstr EXCEPT_INVALID_ARRAY_INDEX = ''EXCEPT_INVALID_ARRAY_INDEX''"
| "exception_to_cstr EXCEPT_INVALID_BYTE_SIZE = ''EXCEPT_INVALID_BYTE_SIZE''"

datatype optype_t =
    OP_NOP | OP_PUSH | OP_POP | OP_ADD | OP_SUB | OP_MULT
  | OP_DIV | OP_MOD | OP_DUP | OP_CLN | OP_SWAP | OP_ADDF
  | OP_SUBF | OP_MULTF | OP_DIVF | OP_INC | OP_INCF | OP_DEC
  | OP_DECF | OP_JMP | OP_JZ | OP_JNZ | OP_CALL | OP_RET
  | OP_CI2F | OP_CI2U | OP_CF2I | OP_CF2U | OP_CU2I | OP_CU2F
  | OP_GT | OP_GTF | OP_LT | OP_LTF | OP_EQ | OP_EQF
  | OP_GE | OP_GEF | OP_LE | OP_LEF | OP_AND | OP_OR
  | OP_NOT | OP_BAND | OP_BOR | OP_BNOT | OP_LSHFT | OP_RSHFT
  | OP_LOADC | OP_ALOADC | OP_LOAD | OP_STORE | OP_GLOAD | OP_GSTORE
  | OP_HALLOC | OP_DEREF | OP_DEREFB | OP_HSET | OP_HSETOF | OP_PUTS
  | OP_PUTC | OP_NATIVE | OP_HALT

fun optype_code :: "optype_t \<Rightarrow> u8" where
  "optype_code OP_NOP = 0"
| "optype_code OP_PUSH = 1"
| "optype_code OP_POP = 2"
| "optype_code OP_ADD = 3"
| "optype_code OP_SUB = 4"
| "optype_code OP_MULT = 5"
| "optype_code OP_DIV = 6"
| "optype_code OP_MOD = 7"
| "optype_code OP_DUP = 8"
| "optype_code OP_CLN = 9"
| "optype_code OP_SWAP = 10"
| "optype_code OP_ADDF = 11"
| "optype_code OP_SUBF = 12"
| "optype_code OP_MULTF = 13"
| "optype_code OP_DIVF = 14"
| "optype_code OP_INC = 15"
| "optype_code OP_INCF = 16"
| "optype_code OP_DEC = 17"
| "optype_code OP_DECF = 18"
| "optype_code OP_JMP = 19"
| "optype_code OP_JZ = 20"
| "optype_code OP_JNZ = 21"
| "optype_code OP_CALL = 22"
| "optype_code OP_RET = 23"
| "optype_code OP_CI2F = 24"
| "optype_code OP_CI2U = 25"
| "optype_code OP_CF2I = 26"
| "optype_code OP_CF2U = 27"
| "optype_code OP_CU2I = 28"
| "optype_code OP_CU2F = 29"
| "optype_code OP_GT = 30"
| "optype_code OP_GTF = 31"
| "optype_code OP_LT = 32"
| "optype_code OP_LTF = 33"
| "optype_code OP_EQ = 34"
| "optype_code OP_EQF = 35"
| "optype_code OP_GE = 36"
| "optype_code OP_GEF = 37"
| "optype_code OP_LE = 38"
| "optype_code OP_LEF = 39"
| "optype_code OP_AND = 40"
| "optype_code OP_OR = 41"
| "optype_code OP_NOT = 42"
| "optype_code OP_BAND = 43"
| "optype_code OP_BOR = 44"
| "optype_code OP_BNOT = 45"
| "optype_code OP_LSHFT = 46"
| "optype_code OP_RSHFT = 47"
| "optype_code OP_LOADC = 48"
| "optype_code OP_ALOADC = 49"
| "optype_code OP_LOAD = 50"
| "optype_code OP_STORE = 51"
| "optype_code OP_GLOAD = 52"
| "optype_code OP_GSTORE = 53"
| "optype_code OP_HALLOC = 54"
| "optype_code OP_DEREF = 55"
| "optype_code OP_DEREFB = 56"
| "optype_code OP_HSET = 57"
| "optype_code OP_HSETOF = 58"
| "optype_code OP_PUTS = 59"
| "optype_code OP_PUTC = 60"
| "optype_code OP_NATIVE = 61"
| "optype_code OP_HALT = 62"

definition all_optypes :: "optype_t list" where
  "all_optypes =
    [OP_NOP, OP_PUSH, OP_POP, OP_ADD, OP_SUB, OP_MULT,
     OP_DIV, OP_MOD, OP_DUP, OP_CLN, OP_SWAP, OP_ADDF,
     OP_SUBF, OP_MULTF, OP_DIVF, OP_INC, OP_INCF, OP_DEC,
     OP_DECF, OP_JMP, OP_JZ, OP_JNZ, OP_CALL, OP_RET,
     OP_CI2F, OP_CI2U, OP_CF2I, OP_CF2U, OP_CU2I, OP_CU2F,
     OP_GT, OP_GTF, OP_LT, OP_LTF, OP_EQ, OP_EQF,
     OP_GE, OP_GEF, OP_LE, OP_LEF, OP_AND, OP_OR,
     OP_NOT, OP_BAND, OP_BOR, OP_BNOT, OP_LSHFT, OP_RSHFT,
     OP_LOADC, OP_ALOADC, OP_LOAD, OP_STORE, OP_GLOAD, OP_GSTORE,
     OP_HALLOC, OP_DEREF, OP_DEREFB, OP_HSET, OP_HSETOF, OP_PUTS,
     OP_PUTC, OP_NATIVE, OP_HALT]"

definition optype_of :: "u8 \<Rightarrow> optype_t option" where
  "optype_of b = (if unat b < length all_optypes then Some (all_optypes ! unat b) else None)"

datatype tvm_ctype =
    CTYPE_UINT8 | CTYPE_UINT16 | CTYPE_UINT32 | CTYPE_UINT64
  | CTYPE_INT8 | CTYPE_INT16 | CTYPE_INT32 | CTYPE_INT64
  | CTYPE_FLOAT32 | CTYPE_FLOAT64 | CTYPE_PTR | CTYPE_VOID

fun ctype_code :: "tvm_ctype \<Rightarrow> u8" where
  "ctype_code CTYPE_UINT8 = 0"
| "ctype_code CTYPE_UINT16 = 1"
| "ctype_code CTYPE_UINT32 = 2"
| "ctype_code CTYPE_UINT64 = 3"
| "ctype_code CTYPE_INT8 = 4"
| "ctype_code CTYPE_INT16 = 5"
| "ctype_code CTYPE_INT32 = 6"
| "ctype_code CTYPE_INT64 = 7"
| "ctype_code CTYPE_FLOAT32 = 8"
| "ctype_code CTYPE_FLOAT64 = 9"
| "ctype_code CTYPE_PTR = 10"
| "ctype_code CTYPE_VOID = 11"

definition all_ctypes :: "tvm_ctype list" where
  "all_ctypes =
    [CTYPE_UINT8, CTYPE_UINT16, CTYPE_UINT32, CTYPE_UINT64,
     CTYPE_INT8, CTYPE_INT16, CTYPE_INT32, CTYPE_INT64,
     CTYPE_FLOAT32, CTYPE_FLOAT64, CTYPE_PTR, CTYPE_VOID]"

definition ctype_of :: "u8 \<Rightarrow> tvm_ctype option" where
  "ctype_of b = (if unat b < length all_ctypes then Some (all_ctypes ! unat b) else None)"

datatype stack_obj_type_t =
    STACK_OBJ_NO_OPERAND | STACK_OBJ_TYPE_DATA_ADDRESS
  | STACK_OBJ_TYPE_VM_ADDRESS | STACK_OBJ_TYPE_NUMBER
  | STACK_OBJ_TYPE_CHARACTER

fun obj_type_code :: "stack_obj_type_t \<Rightarrow> u8" where
  "obj_type_code STACK_OBJ_NO_OPERAND = 0"
| "obj_type_code STACK_OBJ_TYPE_DATA_ADDRESS = 1"
| "obj_type_code STACK_OBJ_TYPE_VM_ADDRESS = 2"
| "obj_type_code STACK_OBJ_TYPE_NUMBER = 3"
| "obj_type_code STACK_OBJ_TYPE_CHARACTER = 4"

text \<open>The numbering is a bijection onto an initial segment of the bytes.\<close>

lemma optype_of_code [simp]: "optype_of (optype_code t) = Some t"
  by (cases t) (simp_all add: optype_of_def all_optypes_def)

lemma optype_code_inject [simp]: "optype_code s = optype_code t \<longleftrightarrow> s = t"
  by (metis optype_of_code option.inject)

lemma optype_code_less: "unat (optype_code t) < 63"
  by (cases t) simp_all

lemma ctype_of_code [simp]: "ctype_of (ctype_code t) = Some t"
  by (cases t) (simp_all add: ctype_of_def all_ctypes_def)

subsection \<open>Stack objects\<close>

text \<open>\<open>object_t\<close>: a tag byte and a union of 8 bytes. The union is its 64 bits; a member of 1 or
  4 bytes is the low part (little-endian), and writing it leaves the other bytes unchanged.\<close>

record object_t =
  obj_type :: u8
  ui64 :: u64

definition ui8 :: "object_t \<Rightarrow> u8" where "ui8 ob = ucast (ui64 ob)"

definition ui32 :: "object_t \<Rightarrow> u32" where "ui32 ob = ucast (ui64 ob)"

definition i32 :: "object_t \<Rightarrow> int" where "i32 ob = sint (ui32 ob)"

definition set_ui32 :: "u32 \<Rightarrow> object_t \<Rightarrow> object_t" where
  "set_ui32 w ob = ob\<lparr>ui64 := (ui64 ob AND 0xFFFFFFFF00000000) OR ucast w\<rparr>"

definition zero_object :: object_t where
  "zero_object = \<lparr>obj_type = obj_type_code STACK_OBJ_NO_OPERAND, ui64 = 0\<rparr>"

lemma ui32_set_ui32 [simp, field_simps_c]: "ui32 (set_ui32 w ob) = w"
proof (rule bit_word_eqI)
  fix n assume "n < LENGTH(32)"
  then have n: "n < 32" by simp
  have "\<not> bit (0xFFFFFFFF00000000 :: u64) n"
  proof -
    have "(0xFFFFFFFF00000000 :: u64) = push_bit 32 0xFFFFFFFF" by simp
    then show ?thesis using n by (simp only: bit_push_bit_iff) simp
  qed
  with n show "bit (ui32 (set_ui32 w ob)) n = bit w n"
    by (simp add: ui32_def set_ui32_def bit_simps)
qed

lemma set_ui32_high: "drop_bit 32 (ui64 (set_ui32 w ob)) = drop_bit 32 (ui64 ob)"
proof (rule bit_word_eqI)
  fix n assume "n < LENGTH(64)"
  have "bit (0xFFFFFFFF00000000 :: u64) (32 + n) \<longleftrightarrow> n < 32"
  proof -
    have "(0xFFFFFFFF00000000 :: u64) = push_bit 32 (mask 32)" by (simp add: mask_numeral)
    then show ?thesis by (simp only: bit_push_bit_iff bit_mask_iff) auto
  qed
  moreover have "\<not> bit w (32 + n)" using bit_imp_le_length [of w "32 + n"] by auto
  moreover have "bit (ui64 ob) (32 + n) \<Longrightarrow> n < 32"
    using bit_imp_le_length [of "ui64 ob" "32 + n"] by auto
  moreover have "ui64 (set_ui32 w ob) = (ui64 ob AND 0xFFFFFFFF00000000) OR ucast w"
    by (simp add: set_ui32_def)
  ultimately show "bit (drop_bit 32 (ui64 (set_ui32 w ob))) n = bit (drop_bit 32 (ui64 ob)) n"
    by (simp only: bit_drop_bit_eq comp_def bit_or_iff bit_and_iff bit_unsigned_iff) blast
qed

lemma obj_type_set_ui32 [simp, field_simps_c]: "obj_type (set_ui32 w ob) = obj_type ob"
  by (simp add: set_ui32_def)

lemma ui32_ui64_update [simp]: "ui32 (ob\<lparr>ui64 := w\<rparr>) = ucast w"
  by (simp add: ui32_def)

lemma ui32_obj_type_update [simp]: "ui32 (ob\<lparr>obj_type := t\<rparr>) = ui32 ob"
  by (simp add: ui32_def)

lemma ui32_zero_object [simp]: "ui32 zero_object = 0"
  by (simp add: ui32_def zero_object_def)

subsection \<open>Programs\<close>

record opcode_t =
  op_type :: u8
  operand :: object_t

definition zero_opcode :: opcode_t where
  "zero_opcode = \<lparr>op_type = 0, operand = zero_object\<rparr>"

record tvm_program_cfun_t =
  rtype :: u8
  atypes :: bytes
  acount :: u16
  symbol_name :: bytes

record tvm_program_metadata_module_t =
  cfuns :: "nat \<Rightarrow> tvm_program_cfun_t"
  mod_name :: bytes
  cfun_count :: nat

record tvm_program_metadata_t =
  date :: int
  hour :: int
  modules :: "nat \<Rightarrow> tvm_program_metadata_module_t"
  module_count :: nat

record tvm_const_table =
  referances :: "nat list"
  referance_count :: nat
  data :: bytes
  data_size :: nat

record tvm_program_t =
  metadata :: tvm_program_metadata_t
  const_table :: tvm_const_table
  code :: "nat \<Rightarrow> opcode_t"
  prog_size :: nat

definition TVM_STACK_CAPACITY :: nat where "TVM_STACK_CAPACITY = 1024"
definition TVM_PROGRAM_CAPACITY :: nat where "TVM_PROGRAM_CAPACITY = 1024"
definition TVM_METADATA_MAX_CFUN_CAPACITY :: nat where "TVM_METADATA_MAX_CFUN_CAPACITY = 512"
definition TVM_METADATA_MAX_MODULE_CAPACITY :: nat where "TVM_METADATA_MAX_MODULE_CAPACITY = 32"
definition RETURN_STACK_CAPACITY :: nat where "RETURN_STACK_CAPACITY = 1024"
definition TVM_MAX_LOCAL_VAR :: nat where "TVM_MAX_LOCAL_VAR = 64"
definition TVM_MAX_GLOBAL_VAR :: nat where "TVM_MAX_GLOBAL_VAR = 64"

lemmas capacities = TVM_STACK_CAPACITY_def TVM_PROGRAM_CAPACITY_def
  TVM_METADATA_MAX_CFUN_CAPACITY_def TVM_METADATA_MAX_MODULE_CAPACITY_def
  RETURN_STACK_CAPACITY_def TVM_MAX_LOCAL_VAR_def TVM_MAX_GLOBAL_VAR_def

definition zero_cfun :: tvm_program_cfun_t where
  "zero_cfun = \<lparr>rtype = 0, atypes = [], acount = 0, symbol_name = []\<rparr>"

definition zero_module :: tvm_program_metadata_module_t where
  "zero_module = \<lparr>cfuns = (\<lambda>_. zero_cfun), mod_name = [], cfun_count = 0\<rparr>"

definition zero_program :: tvm_program_t where
  "zero_program =
     \<lparr>metadata = \<lparr>date = 0, hour = 0, modules = (\<lambda>_. zero_module), module_count = 0\<rparr>,
      const_table = \<lparr>referances = [], referance_count = 0, data = [], data_size = 0\<rparr>,
      code = (\<lambda>_. zero_opcode),
      prog_size = 0\<rparr>"

end
