(* ===== verification/Lifo.thy ===== *)
theory Lifo
  imports Prelude
begin

text \<open>
  The interface of a last-in first-out structure, as the machine uses it for the chain of
  local-variable frames and for procedure activations (frames with return addresses). A provider
  gives an invariant, the abstract contents as a list (top first) and three operations: push, pop
  and an update of the top element, which keeps the element's key. The client lemmas are about any
  sequence of operations that never reaches below the element it started from: what lay below is
  still there afterwards, in the same order, and when the starting element itself is never removed
  it still has its key.
\<close>

datatype ('x, 'u) lifo_op = Push 'x | Pop | Top 'u

fun run_lifo :: "('x \<Rightarrow> 's \<Rightarrow> 's option) \<Rightarrow> ('s \<Rightarrow> 's option) \<Rightarrow> ('u \<Rightarrow> 's \<Rightarrow> 's option) \<Rightarrow>
    ('x, 'u) lifo_op list \<Rightarrow> 's \<Rightarrow> 's option" where
  "run_lifo push pop upd [] s = Some s"
| "run_lifo push pop upd (Push x # ops) s =
     Option.bind (push x s) (run_lifo push pop upd ops)"
| "run_lifo push pop upd (Pop # ops) s =
     Option.bind (pop s) (run_lifo push pop upd ops)"
| "run_lifo push pop upd (Top u # ops) s =
     Option.bind (upd u s) (run_lifo push pop upd ops)"

text \<open>The height above the starting point, \<open>None\<close> when the sequence reaches below it.\<close>

fun lifo_height :: "('x, 'u) lifo_op list \<Rightarrow> nat \<Rightarrow> nat option" where
  "lifo_height [] k = Some k"
| "lifo_height (Push x # ops) k = lifo_height ops (Suc k)"
| "lifo_height (Pop # ops) k = (if k = 0 then None else lifo_height ops (k - 1))"
| "lifo_height (Top u # ops) k = (if k = 0 then None else lifo_height ops k)"

text \<open>The same, when the starting element may be updated but not removed.\<close>

fun lifo_depth :: "('x, 'u) lifo_op list \<Rightarrow> nat \<Rightarrow> nat option" where
  "lifo_depth [] k = Some k"
| "lifo_depth (Push x # ops) k = lifo_depth ops (Suc k)"
| "lifo_depth (Pop # ops) k = (if k = 0 then None else lifo_depth ops (k - 1))"
| "lifo_depth (Top u # ops) k = lifo_depth ops k"

locale lifo =
  fixes inv :: "'s \<Rightarrow> bool"
    and contents :: "'s \<Rightarrow> 'a list"
    and push :: "'x \<Rightarrow> 's \<Rightarrow> 's option"
    and pop :: "'s \<Rightarrow> 's option"
    and upd :: "'u \<Rightarrow> 's \<Rightarrow> 's option"
    and key :: "'a \<Rightarrow> 'k"
  assumes push_law: "inv s \<Longrightarrow> push x s = Some t \<Longrightarrow> inv t \<and> (\<exists>a. contents t = a # contents s)"
    and pop_law: "inv s \<Longrightarrow> contents s = a # as \<Longrightarrow> pop s = Some t \<Longrightarrow> inv t \<and> contents t = as"
    and upd_law: "inv s \<Longrightarrow> contents s = a # as \<Longrightarrow> upd u s = Some t \<Longrightarrow>
      inv t \<and> (\<exists>b. contents t = b # as \<and> key b = key a)"
begin

lemma run_keeps_below:
  assumes "inv s" and "run_lifo push pop upd ops s = Some t"
    and "lifo_height ops k = Some l" and "k \<le> length (contents s)"
  shows "inv t \<and> l \<le> length (contents t) \<and> drop l (contents t) = drop k (contents s)"
  using assms
proof (induction ops arbitrary: s k)
  case Nil
  then show ?case by simp
next
  case (Cons op ops)
  show ?case
  proof (cases op)
    case (Push x)
    with Cons.prems obtain u where u: "push x s = Some u" "run_lifo push pop upd ops u = Some t"
      by auto
    with push_law Cons.prems(1) obtain a where "inv u" "contents u = a # contents s" by blast
    with Cons.IH [of u "Suc k"] Cons.prems Push u show ?thesis by simp
  next
    case Pop
    with Cons.prems obtain u where u: "pop s = Some u" "run_lifo push pop upd ops u = Some t"
      by auto
    from Cons.prems Pop have k: "0 < k" by (auto split: if_splits)
    with Cons.prems obtain a as where as: "contents s = a # as" by (cases "contents s") auto
    with pop_law Cons.prems(1) u have "inv u" "contents u = as" by blast+
    with Cons.IH [of u "k - 1"] Cons.prems Pop u k as show ?thesis by (cases k) simp_all
  next
    case (Top v)
    with Cons.prems obtain u where u: "upd v s = Some u" "run_lifo push pop upd ops u = Some t"
      by auto
    from Cons.prems Top have k: "0 < k" by (auto split: if_splits)
    with Cons.prems obtain a as where as: "contents s = a # as" by (cases "contents s") auto
    with upd_law Cons.prems(1) u obtain b where "inv u" "contents u = b # as" by blast
    with Cons.IH [of u k] Cons.prems Top u k as show ?thesis by (cases k) simp_all
  qed
qed

lemma run_keeps_owner:
  assumes "inv s" and "run_lifo push pop upd ops s = Some t"
    and "lifo_depth ops k = Some l" and "k < length (contents s)"
  shows "inv t \<and> l < length (contents t) \<and> drop (Suc l) (contents t) = drop (Suc k) (contents s) \<and>
    key (contents t ! l) = key (contents s ! k)"
  using assms
proof (induction ops arbitrary: s k)
  case Nil
  then show ?case by simp
next
  case (Cons op ops)
  show ?case
  proof (cases op)
    case (Push x)
    with Cons.prems obtain u where u: "push x s = Some u" "run_lifo push pop upd ops u = Some t"
      by auto
    with push_law Cons.prems(1) obtain a where "inv u" "contents u = a # contents s" by blast
    with Cons.IH [of u "Suc k"] Cons.prems Push u show ?thesis by simp
  next
    case Pop
    with Cons.prems obtain u where u: "pop s = Some u" "run_lifo push pop upd ops u = Some t"
      by auto
    from Cons.prems Pop obtain j where k: "k = Suc j" by (cases k) auto
    with Cons.prems obtain a as where as: "contents s = a # as" by (cases "contents s") auto
    with pop_law Cons.prems(1) u have "inv u" "contents u = as" by blast+
    with Cons.IH [of u j] Cons.prems Pop u k as show ?thesis by simp
  next
    case (Top v)
    with Cons.prems obtain u where u: "upd v s = Some u" "run_lifo push pop upd ops u = Some t"
      by auto
    from Cons.prems obtain a as where as: "contents s = a # as" by (cases "contents s") auto
    with upd_law Cons.prems(1) u obtain b where "inv u" "contents u = b # as" "key b = key a" by blast
    with Cons.IH [of u k] Cons.prems Top u as show ?thesis by (cases k) simp_all
  qed
qed

text \<open>A balanced sequence leaves the contents as they were.\<close>

lemma run_balanced:
  assumes "inv s" and "run_lifo push pop upd ops s = Some t" and "lifo_height ops 0 = Some 0"
  shows "inv t" and "contents t = contents s"
  using run_keeps_below [OF assms(1,2,3)] by auto

end

end
