(* ===== verification/Tvm_Frames.thy ===== *)
theory Tvm_Frames
  imports Tvm_Types Lifo
begin

text \<open>
  The doubly linked list of local-variable frames (\<open>tvm_frame_t\<close> and the functions
  \<open>tvm_frame_init\<close>, \<open>tvm_frame_next\<close>, \<open>tvm_frame_prev\<close>, \<open>tvm_frame_free\<close> of
  \<open>include/tvm/tvm.h\<close>), over an explicit store of allocated frames. \<open>malloc\<close> hands out the next
  unused address; the link fields of a fresh frame are not initialised by the code
  (\<open>None\<close> here), and following one is undefined. The abstraction is the list of the variable
  arrays from the current frame to the outermost one.
\<close>

type_synonym vars = "nat \<Rightarrow> object_t"

record tvm_frame_t =
  fr_next :: "nat option"
  fr_prev :: "nat option"
  local_vars :: vars

record frame_store =
  fr_cells :: "nat \<rightharpoonup> tvm_frame_t"
  fr_fresh :: nat

definition zero_vars :: vars where
  "zero_vars = (\<lambda>_. zero_object)"

definition tvm_frame_init :: "frame_store \<Rightarrow> nat \<times> frame_store" where
  "tvm_frame_init fs =
     (fr_fresh fs,
      fs\<lparr>fr_cells := (fr_cells fs)(fr_fresh fs \<mapsto>
           \<lparr>fr_next = None, fr_prev = None, local_vars = zero_vars\<rparr>),
         fr_fresh := Suc (fr_fresh fs)\<rparr>)"

definition tvm_gframe_init :: vars where
  "tvm_gframe_init = zero_vars"

definition fr_upd :: "nat \<Rightarrow> (tvm_frame_t \<Rightarrow> tvm_frame_t) \<Rightarrow> frame_store \<Rightarrow> frame_store option" where
  "fr_upd a f fs = do {
     n \<leftarrow> fr_cells fs a;
     Some (fs\<lparr>fr_cells := (fr_cells fs)(a \<mapsto> f n)\<rparr>) }"

definition tvm_frame_next :: "frame_store \<Rightarrow> nat \<Rightarrow> (nat \<times> frame_store) option" where
  "tvm_frame_next fs node = (let (a, fs1) = tvm_frame_init fs in do {
     fs2 \<leftarrow> fr_upd node (\<lambda>n. n\<lparr>fr_next := Some a\<rparr>) fs1;
     fs3 \<leftarrow> fr_upd a (\<lambda>n. n\<lparr>fr_prev := Some node\<rparr>) fs2;
     Some (a, fs3) })"

definition tvm_frame_free :: "frame_store \<Rightarrow> nat \<Rightarrow> frame_store option" where
  "tvm_frame_free fs a = do {
     _ \<leftarrow> fr_cells fs a;
     Some (fs\<lparr>fr_cells := (fr_cells fs)(a := None)\<rparr>) }"

definition tvm_frame_prev :: "frame_store \<Rightarrow> nat \<Rightarrow> (nat \<times> frame_store) option" where
  "tvm_frame_prev fs node = do {
     n \<leftarrow> fr_cells fs node;
     p \<leftarrow> fr_prev n;
     pn \<leftarrow> fr_cells fs p;
     nx \<leftarrow> fr_next pn;
     fs1 \<leftarrow> tvm_frame_free fs nx;
     Some (p, fs1) }"

text \<open>Reading and writing a variable of a frame (\<open>vm->frame->local_vars[i]\<close>).\<close>

definition frame_get :: "frame_store \<Rightarrow> nat \<Rightarrow> nat \<Rightarrow> object_t option" where
  "frame_get fs a i = do { n \<leftarrow> fr_cells fs a; Some (local_vars n i) }"

definition frame_set :: "frame_store \<Rightarrow> nat \<Rightarrow> nat \<Rightarrow> object_t \<Rightarrow> frame_store option" where
  "frame_set fs a i v = fr_upd a (\<lambda>n. n\<lparr>local_vars := (local_vars n)(i := v)\<rparr>) fs"

subsection \<open>Well-formed chains\<close>

fun linked :: "frame_store \<Rightarrow> nat list \<Rightarrow> bool" where
  "linked fs [] = True"
| "linked fs [a] = (fr_cells fs a \<noteq> None)"
| "linked fs (a # b # as) =
     ((case fr_cells fs a of None \<Rightarrow> False | Some n \<Rightarrow> fr_prev n = Some b) \<and>
      (case fr_cells fs b of None \<Rightarrow> False | Some n \<Rightarrow> fr_next n = Some a) \<and>
      linked fs (b # as))"

definition chain_of :: "frame_store \<Rightarrow> nat \<Rightarrow> nat \<Rightarrow> nat list \<Rightarrow> bool" where
  "chain_of fs a d as \<longleftrightarrow> length as = Suc d \<and> hd as = a \<and> linked fs as \<and> distinct as \<and>
     (\<forall>x \<in> set as. x < fr_fresh fs)"

text \<open>\<open>frames_ok fs a d\<close>: from frame \<open>a\<close> there are \<open>d\<close> callers' frames below.\<close>

definition frames_ok :: "frame_store \<Rightarrow> nat \<Rightarrow> nat \<Rightarrow> bool" where
  "frames_ok fs a d \<longleftrightarrow> (\<exists>as. chain_of fs a d as)"

fun frame_walk :: "frame_store \<Rightarrow> nat \<Rightarrow> nat \<Rightarrow> vars list" where
  "frame_walk fs a 0 = (case fr_cells fs a of None \<Rightarrow> [] | Some n \<Rightarrow> [local_vars n])"
| "frame_walk fs a (Suc d) =
     (case fr_cells fs a of None \<Rightarrow> []
      | Some n \<Rightarrow> local_vars n #
          (case fr_prev n of None \<Rightarrow> [] | Some b \<Rightarrow> frame_walk fs b d))"

lemma linked_cells: "linked fs as \<Longrightarrow> x \<in> set as \<Longrightarrow> fr_cells fs x \<noteq> None"
  by (induction fs as rule: linked.induct) (auto split: option.splits)

lemma walk_linked:
  "linked fs as \<Longrightarrow> length as = Suc d \<Longrightarrow> hd as = a \<Longrightarrow>
     frame_walk fs a d = map (\<lambda>x. local_vars (the (fr_cells fs x))) as"
proof (induction fs as arbitrary: a d rule: linked.induct)
  case (3 fs a b as)
  then show ?case by (cases d) (auto split: option.splits)
qed (auto split: option.splits)

lemma linked_frame:
  "linked fs as \<Longrightarrow>
   (\<And>x. x \<in> set as \<Longrightarrow> map_option (\<lambda>n. (fr_next n, fr_prev n)) (fr_cells gs x) =
                          map_option (\<lambda>n. (fr_next n, fr_prev n)) (fr_cells fs x)) \<Longrightarrow>
   linked gs as"
proof (induction fs as rule: linked.induct)
  case (2 fs a)
  from "2.prems"(2) [of a] "2.prems"(1) show ?case by auto
next
  case (3 fs a b as)
  note a = "3.prems"(2) [of a] and b = "3.prems"(2) [of b]
  have l: "linked fs (b # as)" using "3.prems"(1) by simp
  have "linked gs (b # as)" by (rule "3.IH" [OF l]) (simp add: "3.prems"(2))
  then show ?case using a b "3.prems"(1) by (auto split: option.splits)
qed simp

lemma frames_ok_cell: "frames_ok fs a d \<Longrightarrow> fr_cells fs a \<noteq> None"
  unfolding frames_ok_def chain_of_def by (metis hd_in_set length_0_conv linked_cells nat.distinct(1))

lemma length_frame_walk: "frames_ok fs a d \<Longrightarrow> length (frame_walk fs a d) = Suc d"
  unfolding frames_ok_def chain_of_def by (auto simp: walk_linked)

subsection \<open>Entering and leaving a frame\<close>

lemma chain_of_next:
  assumes c: "chain_of fs a d as"
  obtains b fs' where "tvm_frame_next fs a = Some (b, fs')" and "chain_of fs' b (Suc d) (b # as)"
    and "frame_walk fs' b (Suc d) = zero_vars # frame_walk fs a d"
proof -
  obtain as' where as: "as = a # as'"
    using c unfolding chain_of_def by (cases as) auto
  let ?b = "fr_fresh fs"
  obtain n where n: "fr_cells fs a = Some n"
    using c linked_cells [of fs as a] by (auto simp: chain_of_def as)
  have ab: "a \<noteq> ?b" "?b \<notin> set as" using c by (auto simp: chain_of_def as)
  define fs' where "fs' = fs\<lparr>fr_cells := (fr_cells fs)(a \<mapsto> n\<lparr>fr_next := Some ?b\<rparr>,
      ?b \<mapsto> \<lparr>fr_next = None, fr_prev = Some a, local_vars = zero_vars\<rparr>), fr_fresh := Suc ?b\<rparr>"
  have run: "tvm_frame_next fs a = Some (?b, fs')"
    using n ab(1) by (simp add: tvm_frame_next_def tvm_frame_init_def fr_upd_def fs'_def fun_upd_twist)
  have "linked fs' as"
  proof (cases as')
    case Nil
    then show ?thesis using ab(1) by (simp add: as fs'_def)
  next
    case (Cons c cs)
    with c have "linked fs (c # cs)" "a \<notin> set (c # cs)" by (auto simp: chain_of_def as)
    then have "linked fs' (c # cs)"
      using ab Cons as by (auto simp: fs'_def intro: linked_frame [of fs])
    with c Cons n ab \<open>a \<notin> set (c # cs)\<close> show ?thesis
      by (auto simp: as chain_of_def fs'_def split: option.splits)
  qed
  then have l: "linked fs' (?b # as)" using n ab by (simp add: as fs'_def)
  then have ch: "chain_of fs' ?b (Suc d) (?b # as)"
    using c ab(2) by (auto simp: chain_of_def fs'_def intro: less_SucI)
  have "map (\<lambda>x. local_vars (the (fr_cells fs' x))) as = map (\<lambda>x. local_vars (the (fr_cells fs x))) as"
    using n ab by (auto simp: fs'_def)
  moreover have "local_vars (the (fr_cells fs' ?b)) = zero_vars" by (simp add: fs'_def)
  ultimately have "frame_walk fs' ?b (Suc d) = zero_vars # frame_walk fs a d"
    using c ch l walk_linked [of fs as d a] walk_linked [of fs' "?b # as" "Suc d" ?b]
    by (simp add: chain_of_def del: frame_walk.simps linked.simps)
  with run ch show ?thesis by (rule that)
qed

lemma chain_of_prev:
  assumes c: "chain_of fs a (Suc d) as"
  obtains b fs' where "tvm_frame_prev fs a = Some (b, fs')" and "chain_of fs' b d (tl as)"
    and "frame_walk fs' b d = tl (frame_walk fs a (Suc d))"
proof -
  obtain b as' where as: "as = a # b # as'"
    using c unfolding chain_of_def by (cases as; cases "tl as") auto
  obtain n p where n: "fr_cells fs a = Some n" "fr_prev n = Some b"
    and p: "fr_cells fs b = Some p" "fr_next p = Some a" and l: "linked fs (b # as')"
    using c by (auto simp: chain_of_def as split: option.splits)
  define fs' where "fs' = fs\<lparr>fr_cells := (fr_cells fs)(a := None)\<rparr>"
  have run: "tvm_frame_prev fs a = Some (b, fs')"
    using n p by (simp add: tvm_frame_prev_def tvm_frame_free_def fs'_def)
  have out: "a \<notin> set (b # as')" using c by (simp add: chain_of_def as)
  have l': "linked fs' (b # as')"
    by (rule linked_frame [OF l]) (use out in \<open>auto simp: fs'_def\<close>)
  have ch: "chain_of fs' b d (tl as)"
    using c l' by (auto simp: chain_of_def as fs'_def)
  have "map (\<lambda>x. local_vars (the (fr_cells fs' x))) (b # as') =
        map (\<lambda>x. local_vars (the (fr_cells fs x))) (b # as')"
    using out by (auto simp: fs'_def)
  then have "frame_walk fs' b d = tl (frame_walk fs a (Suc d))"
    using c l l' walk_linked [of fs as "Suc d" a] walk_linked [of fs' "b # as'" d b]
    by (simp add: chain_of_def as del: frame_walk.simps linked.simps)
  with run ch show ?thesis by (rule that)
qed

lemma chain_of_set:
  assumes c: "chain_of fs a d as"
  obtains fs' where "frame_set fs a i v = Some fs'" and "chain_of fs' a d as"
    and "frame_walk fs' a d = (hd (frame_walk fs a d))(i := v) # tl (frame_walk fs a d)"
proof -
  obtain as' where as: "as = a # as'"
    using c unfolding chain_of_def by (cases as) auto
  obtain n where n: "fr_cells fs a = Some n"
    using c linked_cells [of fs as a] by (auto simp: chain_of_def as)
  define fs' where "fs' = fs\<lparr>fr_cells := (fr_cells fs)(a \<mapsto> n\<lparr>local_vars := (local_vars n)(i := v)\<rparr>)\<rparr>"
  have run: "frame_set fs a i v = Some fs'"
    using n by (simp add: frame_set_def fr_upd_def fs'_def)
  have l: "linked fs as" and out: "a \<notin> set as'" using c by (auto simp: chain_of_def as)
  have l': "linked fs' as"
    by (rule linked_frame [OF l]) (use n in \<open>auto simp: fs'_def\<close>)
  have ch: "chain_of fs' a d as" using c l' by (auto simp: chain_of_def fs'_def)
  have "map (\<lambda>x. local_vars (the (fr_cells fs' x))) as' = map (\<lambda>x. local_vars (the (fr_cells fs x))) as'"
    using out by (auto simp: fs'_def)
  moreover have "local_vars (the (fr_cells fs' a)) = (local_vars (the (fr_cells fs a)))(i := v)"
    by (simp add: fs'_def n)
  ultimately have "frame_walk fs' a d = (hd (frame_walk fs a d))(i := v) # tl (frame_walk fs a d)"
    using c l l' walk_linked [of fs as d a] walk_linked [of fs' as d a]
    by (simp add: chain_of_def as del: frame_walk.simps linked.simps)
  with run ch show ?thesis by (rule that)
qed

lemma frames_ok_next:
  assumes "frames_ok fs a d"
  shows "\<exists>b fs'. tvm_frame_next fs a = Some (b, fs') \<and> frames_ok fs' b (Suc d) \<and>
    frame_walk fs' b (Suc d) = zero_vars # frame_walk fs a d"
proof -
  from assms obtain as where "chain_of fs a d as" unfolding frames_ok_def by blast
  then show ?thesis by (rule chain_of_next) (unfold frames_ok_def, blast)
qed

lemma frames_ok_prev:
  assumes "frames_ok fs a (Suc d)"
  shows "\<exists>b fs'. tvm_frame_prev fs a = Some (b, fs') \<and> frames_ok fs' b d \<and>
    frame_walk fs' b d = tl (frame_walk fs a (Suc d))"
proof -
  from assms obtain as where "chain_of fs a (Suc d) as" unfolding frames_ok_def by blast
  then show ?thesis by (rule chain_of_prev) (unfold frames_ok_def, blast)
qed

lemma frames_ok_set:
  assumes "frames_ok fs a d"
  shows "\<exists>fs'. frame_set fs a i v = Some fs' \<and> frames_ok fs' a d \<and>
    frame_walk fs' a d = (hd (frame_walk fs a d))(i := v) # tl (frame_walk fs a d)"
proof -
  from assms obtain as where "chain_of fs a d as" unfolding frames_ok_def by blast
  then show ?thesis by (rule chain_of_set) (unfold frames_ok_def, blast)
qed

lemma frame_get_walk:
  "frames_ok fs a d \<Longrightarrow> frame_get fs a i = Some (hd (frame_walk fs a d) i)"
  using frames_ok_cell [of fs a d] by (cases d) (auto simp: frame_get_def)

subsection \<open>The chain as a last-in first-out structure\<close>

type_synonym frames = "frame_store \<times> nat \<times> nat"

fun frames_inv :: "frames \<Rightarrow> bool" where
  "frames_inv (fs, a, d) = frames_ok fs a d"

fun frames_contents :: "frames \<Rightarrow> vars list" where
  "frames_contents (fs, a, d) = frame_walk fs a d"

fun frames_enter :: "unit \<Rightarrow> frames \<Rightarrow> frames option" where
  "frames_enter u (fs, a, d) = do { (b, fs') \<leftarrow> tvm_frame_next fs a; Some (fs', b, Suc d) }"

fun frames_leave :: "frames \<Rightarrow> frames option" where
  "frames_leave (fs, a, 0) = None"
| "frames_leave (fs, a, Suc d) = do { (b, fs') \<leftarrow> tvm_frame_prev fs a; Some (fs', b, d) }"

fun frames_put :: "nat \<times> object_t \<Rightarrow> frames \<Rightarrow> frames option" where
  "frames_put (i, v) (fs, a, d) = do { fs' \<leftarrow> frame_set fs a i v; Some (fs', a, d) }"

interpretation frame_lifo: lifo frames_inv frames_contents frames_enter frames_leave frames_put "\<lambda>_. ()"
proof unfold_locales
  fix s x t assume i: "frames_inv s" and r: "frames_enter x s = Some t"
  obtain fs b d where s: "s = (fs, b, d)" by (cases s)
  from frames_ok_next [of fs b d] i r
  show "frames_inv t \<and> (\<exists>a. frames_contents t = a # frames_contents s)"
    unfolding s by (auto simp del: frame_walk.simps)
next
  fix s a as t
  assume i: "frames_inv s" and c: "frames_contents s = a # as" and r: "frames_leave s = Some t"
  obtain fs b d where s: "s = (fs, b, d)" by (cases s)
  with r obtain e where d: "d = Suc e" by (cases d) auto
  from frames_ok_prev [of fs b e] i c r show "frames_inv t \<and> frames_contents t = as"
    unfolding s d by (auto simp del: frame_walk.simps)
next
  fix s a as u t
  assume i: "frames_inv s" and c: "frames_contents s = a # as" and r: "frames_put u s = Some t"
  obtain fs b d where s: "s = (fs, b, d)" by (cases s)
  obtain k v where u: "u = (k, v)" by (cases u)
  from frames_ok_set [of fs b d k v] i c r
  show "frames_inv t \<and> (\<exists>b. frames_contents t = b # as \<and> () = ())"
    unfolding s u by (auto simp del: frame_walk.simps)
qed

end
