(* ===== verification/Tgc.thy ===== *)
theory Tgc
  imports Tvm_Types
begin

text \<open>
  The heap of the virtual machine, \<open>include/tvm/tgc.h\<close>: a growing array \<open>__heap\<close> of
  \<open>gc_block\<close> structures (a dynamic array of the vendored \<open>stb_ds.h\<close>), each owning a chunk of
  memory obtained from \<open>malloc\<close>. Blocks live in the byte-addressed memory, at the addresses the
  virtual machine hands out to programs: a \<open>gc_block\<close> is 40 bytes, with the pointer to its data
  first, and a program reads it through that address.

  The array is one allocated chunk: a header of 32 bytes (length, capacity, hash table pointer,
  temporary), then the elements. Length and capacity are kept as fields of the state. Growing the
  array reallocates the chunk, so blocks may move; the data chunks do not.
\<close>

record gc_block =
  gb_value :: nat
  gb_pointer_count :: nat
  gb_size :: nat
  gb_pointers :: nat
  gb_marked :: nat

record gc_heap =
  h_ptr :: nat           \<comment> \<open>\<open>__heap\<close>; 0 is \<open>NULL\<close>\<close>
  h_len :: nat           \<comment> \<open>\<open>arrlen(__heap)\<close>\<close>
  h_cap :: nat           \<comment> \<open>\<open>arrcap(__heap)\<close>\<close>
  h_count :: nat         \<comment> \<open>\<open>__heap_block_count\<close>\<close>

definition empty_heap :: gc_heap where
  "empty_heap = \<lparr>h_ptr = 0, h_len = 0, h_cap = 0, h_count = 0\<rparr>"

definition gc_block_size :: nat where "gc_block_size = 40"
definition stb_header_size :: nat where "stb_header_size = 32"

text \<open>The object representation of a block.\<close>

definition block_bytes :: "gc_block \<Rightarrow> bytes" where
  "block_bytes b = le_bytes 8 (gb_value b) @ le_bytes 8 (gb_pointer_count b) @
     le_bytes 8 (gb_size b) @ le_bytes 8 (gb_pointers b) @ le_bytes 8 (gb_marked b)"

definition block_of_bytes :: "bytes \<Rightarrow> gc_block" where
  "block_of_bytes bs =
     \<lparr>gb_value = le_val (take 8 bs), gb_pointer_count = le_val (take 8 (drop 8 bs)),
      gb_size = le_val (take 8 (drop 16 bs)), gb_pointers = le_val (take 8 (drop 24 bs)),
      gb_marked = le_val (take 8 (drop 32 bs))\<rparr>"

definition block_ok :: "gc_block \<Rightarrow> bool" where
  "block_ok b \<longleftrightarrow> gb_value b < 2 ^ 64 \<and> gb_pointer_count b < 2 ^ 64 \<and> gb_size b < 2 ^ 64 \<and>
     gb_pointers b < 2 ^ 64 \<and> gb_marked b < 2 ^ 64"

lemma length_block_bytes [simp]: "length (block_bytes b) = gc_block_size"
  by (simp add: block_bytes_def gc_block_size_def)

lemma block_of_bytes_block_bytes: "block_ok b \<Longrightarrow> block_of_bytes (block_bytes b) = b"
  by (simp add: block_ok_def block_of_bytes_def block_bytes_def le_val_le_bytes_id)

definition block_read :: "memory \<Rightarrow> nat \<Rightarrow> gc_block option" where
  "block_read m a = map_option block_of_bytes (mem_read m a gc_block_size)"

definition block_write :: "memory \<Rightarrow> nat \<Rightarrow> gc_block \<Rightarrow> memory option" where
  "block_write m a b = mem_write m a (block_bytes b)"

text \<open>\<open>&__heap[i]\<close>.\<close>

definition block_addr :: "gc_heap \<Rightarrow> nat \<Rightarrow> nat" where
  "block_addr h i = h_ptr h + gc_block_size * i"

subsection \<open>The dynamic array\<close>

definition arr_new_cap :: "nat \<Rightarrow> nat \<Rightarrow> nat \<Rightarrow> nat" where
  "arr_new_cap len cap addlen =
     (let min_cap = len + addlen in
      if min_cap \<le> cap then cap
      else if min_cap < 2 * cap then 2 * cap
      else if min_cap < 4 then 4
      else min_cap)"

definition arrgrow :: "policy \<Rightarrow> junk \<Rightarrow> memory \<Rightarrow> gc_heap \<Rightarrow> nat \<Rightarrow> (memory \<times> gc_heap) option" where
  "arrgrow al jk m h addlen =
     (let cap = arr_new_cap (h_len h) (h_cap h) addlen;
          old = (if h_ptr h = 0 then 0 else h_ptr h - stb_header_size)
      in if cap = h_cap h then Some (m, h)
         else do {
           (b, m') \<leftarrow> c_realloc al jk m old (gc_block_size * cap + stb_header_size);
           if b = 0 then None
           else Some (m', h\<lparr>h_ptr := b + stb_header_size, h_cap := cap\<rparr>) })"

definition arrmaybegrow :: "policy \<Rightarrow> junk \<Rightarrow> memory \<Rightarrow> gc_heap \<Rightarrow> nat \<Rightarrow> (memory \<times> gc_heap) option" where
  "arrmaybegrow al jk m h n =
     (if h_ptr h = 0 \<or> h_cap h < h_len h + n then arrgrow al jk m h n else Some (m, h))"

definition arrput :: "policy \<Rightarrow> junk \<Rightarrow> memory \<Rightarrow> gc_heap \<Rightarrow> gc_block \<Rightarrow> (memory \<times> gc_heap) option" where
  "arrput al jk m h b = do {
     (m1, h1) \<leftarrow> arrmaybegrow al jk m h 1;
     m2 \<leftarrow> block_write m1 (block_addr h1 (h_len h1)) b;
     Some (m2, h1\<lparr>h_len := h_len h1 + 1\<rparr>) }"

definition arraddnptr :: "policy \<Rightarrow> junk \<Rightarrow> memory \<Rightarrow> gc_heap \<Rightarrow> nat \<Rightarrow> (memory \<times> gc_heap) option" where
  "arraddnptr al jk m h n = do {
     (m1, h1) \<leftarrow> arrmaybegrow al jk m h n;
     Some (m1, h1\<lparr>h_len := h_len h1 + n\<rparr>) }"

definition arrdel :: "memory \<Rightarrow> gc_heap \<Rightarrow> nat \<Rightarrow> (memory \<times> gc_heap) option" where
  "arrdel m h i =
     (if i < h_len h then do {
        bs \<leftarrow> mem_read m (block_addr h (i + 1)) (gc_block_size * (h_len h - 1 - i));
        m' \<leftarrow> mem_write m (block_addr h i) bs;
        Some (m', h\<lparr>h_len := h_len h - 1\<rparr>) }
      else None)"

subsection \<open>Creating a block\<close>

definition tgc_create_block ::
  "policy \<Rightarrow> junk \<Rightarrow> memory \<Rightarrow> gc_heap \<Rightarrow> nat \<Rightarrow> nat \<Rightarrow> (nat \<times> memory \<times> gc_heap) option" where
  "tgc_create_block al jk m h sz pointer_count =
     (let (v, m0) = c_malloc al jk m sz;
          block = \<lparr>gb_value = v, gb_pointer_count = pointer_count, gb_size = sz,
                   gb_pointers = 0, gb_marked = 0\<rparr>
      in do {
        (m1, h1) \<leftarrow> arrput al jk m0 h block;
        (m2, h2) \<leftarrow> (if pointer_count \<noteq> 0 then arraddnptr al jk m1 h1 pointer_count
                          else Some (m1, h1));
        let addr = block_addr h2 (h_count h2);
        Some (addr, m2, h2\<lparr>h_count := h_count h2 + (pointer_count + 1)\<rparr>) })"

subsection \<open>Marking and sweeping\<close>

text \<open>\<open>tgc_mark\<close> marks a block; its \<open>pointers\<close> array is never filled by the code, so there is
  nothing to recurse into when it is \<open>NULL\<close> (\<open>arrlenu(NULL)\<close> is 0). A non-null pointers array
  is not created anywhere; following one is outside the model (\<open>None\<close>).\<close>

definition tgc_mark :: "memory \<Rightarrow> nat \<Rightarrow> memory option" where
  "tgc_mark m root =
     (if root = 0 then Some m
      else do {
        b \<leftarrow> block_read m root;
        if gb_marked b \<noteq> 0 then Some m
        else do {
          m' \<leftarrow> block_write m root (b\<lparr>gb_marked := 1\<rparr>);
          if gb_pointers b = 0 then Some m' else None } })"

text \<open>\<open>tgc_sweep\<close>: one iteration at index \<open>i\<close>, then the loop up to the current length. The third component
  of the results is what is printed.\<close>

definition tgc_sweep_at :: "memory \<Rightarrow> gc_heap \<Rightarrow> nat \<Rightarrow> (memory \<times> gc_heap \<times> bytes) option" where
  "tgc_sweep_at m h i = do {
     b \<leftarrow> block_read m (block_addr h i);
     if gb_marked b \<noteq> 0 then do {
       m' \<leftarrow> block_write m (block_addr h i) (b\<lparr>gb_marked := 0\<rparr>);
       Some (m', h, bytes_of ''marked!'' @ [10]) }
     else do {
       (m1, h1) \<leftarrow> arrdel m h i;
       let h2 = h1\<lparr>h_count := h_count h1 - 1\<rparr>;
       nb \<leftarrow> block_read m1 (block_addr h2 i);
       m2 \<leftarrow> (if gb_value nb \<noteq> 0 then c_free m1 (gb_value nb) else Some m1);
       Some (m2, h2, bytes_of ''unmarked deleted'' @ [10]) } }"

lemma tgc_sweep_at_len: "tgc_sweep_at m h i = Some (m', h', t) \<Longrightarrow> h_len h' \<le> h_len h"
  by (auto simp: tgc_sweep_at_def arrdel_def Let_def split: if_splits)

function tgc_sweep_from :: "memory \<Rightarrow> gc_heap \<Rightarrow> nat \<Rightarrow> (memory \<times> gc_heap \<times> bytes) option" where
  "tgc_sweep_from m h i =
     (if i < h_len h
      then (case tgc_sweep_at m h i of
              None \<Rightarrow> None
            | Some (m', h', t) \<Rightarrow> map_option (\<lambda>(m1, h1, t1). (m1, h1, t @ t1)) (tgc_sweep_from m' h' (i + 1)))
      else Some (m, h, []))"
  by pat_completeness auto
termination
proof (relation "measure (\<lambda>(m, h, i). h_len h - i)", goal_cases)
  case (2 m h i y m' z h' t)
  then show ?case using tgc_sweep_at_len [of m h i m' h' t] by auto
qed simp

declare tgc_sweep_from.simps [simp del]

definition tgc_sweep :: "memory \<Rightarrow> gc_heap \<Rightarrow> (memory \<times> gc_heap \<times> bytes) option" where
  "tgc_sweep m h = (if h_ptr h = 0 then Some (m, h, []) else tgc_sweep_from m h 0)"

definition tgc_destroy :: "memory \<Rightarrow> gc_heap \<Rightarrow> (memory \<times> gc_heap) option" where
  "tgc_destroy m h =
     (if h_ptr h = 0 then Some (m, h)
      else do {
        m' \<leftarrow> c_free m (h_ptr h - stb_header_size);
        Some (m', h\<lparr>h_ptr := 0, h_len := 0, h_cap := 0\<rparr>) })"

subsection \<open>Reallocation keeps the contents\<close>

context allocator
begin

lemma realloc_grow:
  assumes ok: "mem_ok m" and p: "p \<noteq> 0" "chunks m p = Some old" and le: "old \<le> n"
    and run: "c_realloc al jk m p n = Some (q, m')" and q: "q \<noteq> 0"
  shows "mem_ok m'" and "chunks m' = (chunks m)(p := None, q \<mapsto> n)" and "mem_ok_range m' q n"
    and "\<forall>i < old. cells m' (q + i) = cells m (p + i)"
    and "\<forall>x. cells m x \<noteq> None \<longrightarrow> \<not> (p \<le> x \<and> x < p + old) \<longrightarrow>
           cells m' x = cells m x \<and> \<not> (q \<le> x \<and> x < q + n)"
proof -
  obtain bs m1 m2 where bs: "mem_read m p old = Some bs" and m1: "c_free m p = Some m1"
    and m2: "c_malloc al jk m1 n = (q, m2)" and m': "mem_write m2 q bs = Some m'"
  proof -
    obtain bs m1 where b: "mem_read m p old = Some bs" "c_free m p = Some m1"
      and r: "(case c_malloc al jk m1 n of (q, m2) \<Rightarrow>
          if q = 0 then Some (0, m) else do { m3 \<leftarrow> mem_write m2 q bs; Some (q, m3) }) = Some (q, m')"
      using run p le by (auto simp: c_realloc_def min_absorb1 Let_def)
    obtain q2 m2 where m2: "c_malloc al jk m1 n = (q2, m2)" by (cases "c_malloc al jk m1 n")
    from r q have "q2 = q" "mem_write m2 q bs = Some m'" by (auto simp: m2 split: if_splits)
    with b m2 show ?thesis by (auto intro: that)
  qed
  have len: "length bs = old" using bs by (simp add: mem_read_Some_iff)
  have ok1: "mem_ok m1" by (rule free_ok [OF ok m1])
  note fr = malloc_fresh [OF ok1 m2 q]
  have c1: "cells m1 x = (if p \<le> x \<and> x < p + old then None else cells m x)" for x
    using m1 p by (auto simp: c_free_def)
  have ch1: "chunks m1 = (chunks m)(p := None)" using m1 p by (auto simp: c_free_def)
  have c': "cells m' x = (if q \<le> x \<and> x < q + old then Some (bs ! (x - q)) else cells m2 x)" for x
    using m' by (auto simp: mem_write_Some_iff poke_apply len)
  show "mem_ok m'" using write_ok [OF malloc_ok [OF ok1 m2] m'] .
  show "chunks m' = (chunks m)(p := None, q \<mapsto> n)"
    using mem_write_keeps(1) [OF m'] by (simp add: fr(2) ch1)
  show "mem_ok_range m' q n" using fr(1) by (simp add: mem_ok_range_write [OF m'])
  show "\<forall>i < old. cells m' (q + i) = cells m (p + i)"
    using bs by (auto simp: c' mem_read_Some_iff)
  show "\<forall>x. cells m x \<noteq> None \<longrightarrow> \<not> (p \<le> x \<and> x < p + old) \<longrightarrow>
           cells m' x = cells m x \<and> \<not> (q \<le> x \<and> x < q + n)"
  proof (intro allI impI)
    fix x assume x: "cells m x \<noteq> None" "\<not> (p \<le> x \<and> x < p + old)"
    then have "cells m1 x = cells m x" by (simp only: c1 if_False)
    with fr(3) x(1) have out: "\<not> (q \<le> x \<and> x < q + n)" by metis
    with fr(4) le show "cells m' x = cells m x \<and> \<not> (q \<le> x \<and> x < q + n)"
      using \<open>cells m1 x = cells m x\<close> by (auto simp: c')
  qed
qed

end

subsection \<open>The heap invariant\<close>

definition arr_ok :: "memory \<Rightarrow> gc_heap \<Rightarrow> bool" where
  "arr_ok m h \<longleftrightarrow> h_len h \<le> h_cap h \<and>
     (if h_ptr h = 0 then h_cap h = 0
      else stb_header_size < h_ptr h \<and>
        chunks m (h_ptr h - stb_header_size) = Some (gc_block_size * h_cap h + stb_header_size))"

definition heap_ok :: "memory \<Rightarrow> gc_heap \<Rightarrow> bool" where
  "heap_ok m h \<longleftrightarrow> arr_ok m h \<and> h_count h = h_len h"

lemma heap_ok_empty: "heap_ok m empty_heap"
  by (simp add: heap_ok_def arr_ok_def empty_heap_def)

text \<open>The address is inside the chunk of the array.\<close>

definition in_array :: "gc_heap \<Rightarrow> nat \<Rightarrow> bool" where
  "in_array h x \<longleftrightarrow> h_ptr h \<noteq> 0 \<and> h_ptr h - stb_header_size \<le> x \<and> x < h_ptr h + gc_block_size * h_cap h"

lemma arr_new_cap_ge: "len + n \<le> arr_new_cap len cap n \<and> cap \<le> arr_new_cap len cap n"
  by (auto simp: arr_new_cap_def Let_def)

text \<open>What growing guarantees: room for \<open>n\<close> more elements, the elements at the same indices, and
  every other mapped byte unchanged and outside the new array.\<close>

definition array_moved :: "memory \<Rightarrow> gc_heap \<Rightarrow> memory \<Rightarrow> gc_heap \<Rightarrow> bool" where
  "array_moved m h m' h' \<longleftrightarrow>
     h_len h \<le> h_len h' \<and>
     (\<forall>i < gc_block_size * h_len h. cells m' (h_ptr h' + i) = cells m (h_ptr h + i)) \<and>
     (\<forall>x. cells m x \<noteq> None \<longrightarrow> \<not> in_array h x \<longrightarrow> cells m' x = cells m x \<and> \<not> in_array h' x)"

lemma array_moved_refl: "array_moved m h m h"
  by (simp add: array_moved_def)

lemma array_moved_block:
  assumes "array_moved m h m' h'" and "i < h_len h"
  shows "block_read m' (block_addr h' i) = block_read m (block_addr h i)"
proof -
  have *: "h_len h * gc_block_size \<ge> (i + 1) * gc_block_size"
    using assms(2) by (intro mult_right_mono) simp_all
  have "map (cells m') [block_addr h' i..<block_addr h' i + gc_block_size] =
        map (cells m) [block_addr h i..<block_addr h i + gc_block_size]"
  proof (rule nth_equalityI)
    fix k assume "k < length (map (cells m') [block_addr h' i..<block_addr h' i + gc_block_size])"
    then have k: "k < gc_block_size" by simp
    with * have "gc_block_size * i + k < gc_block_size * h_len h" by (simp add: algebra_simps)
    with assms(1) have "cells m' (h_ptr h' + (gc_block_size * i + k)) = cells m (h_ptr h + (gc_block_size * i + k))"
      by (simp add: array_moved_def)
    then show "map (cells m') [block_addr h' i..<block_addr h' i + gc_block_size] ! k =
        map (cells m) [block_addr h i..<block_addr h i + gc_block_size] ! k"
      using k by (simp add: block_addr_def add.assoc)
  qed simp
  then show ?thesis by (simp only: block_read_def mem_read_def)
qed

context allocator
begin

lemma arrmaybegrow_ok:
  assumes ok: "mem_ok m" "arr_ok m h" and run: "arrmaybegrow al jk m h n = Some (m', h')"
    and n: "0 < n"
  shows "mem_ok m'" and "arr_ok m' h'" and "array_moved m h m' h'"
    and "h_len h' = h_len h" and "h_count h' = h_count h" and "h_len h + n \<le> h_cap h'" and "h_ptr h' \<noteq> 0"
proof -
  have "mem_ok m' \<and> arr_ok m' h' \<and> array_moved m h m' h' \<and> h_len h' = h_len h \<and> h_count h' = h_count h \<and>
      h_len h + n \<le> h_cap h' \<and> h_ptr h' \<noteq> 0"
  proof (cases "h_ptr h = 0 \<or> h_cap h < h_len h + n")
    case False
    with run ok show ?thesis by (auto simp: arrmaybegrow_def array_moved_refl)
  next
    case True
    define cap where "cap = arr_new_cap (h_len h) (h_cap h) n"
    have capge: "h_len h + n \<le> cap" "h_cap h \<le> cap"
      using arr_new_cap_ge unfolding cap_def by blast+
    have "cap \<noteq> h_cap h" using True capge ok(2) n by (auto simp: arr_ok_def)
    then obtain b where re: "c_realloc al jk m (if h_ptr h = 0 then 0 else h_ptr h - stb_header_size)
          (gc_block_size * cap + stb_header_size) = Some (b, m')"
      and b: "b \<noteq> 0" and h': "h' = h\<lparr>h_ptr := b + stb_header_size, h_cap := cap\<rparr>"
      using run True by (auto simp: arrmaybegrow_def arrgrow_def Let_def cap_def split: if_splits)
    show ?thesis
    proof (cases "h_ptr h = 0")
      case True
      then have m: "c_malloc al jk m (gc_block_size * cap + stb_header_size) = (b, m')"
        using re by (simp add: c_realloc_def)
      note fr = malloc_fresh [OF ok(1) m b]
      have "h_len h = 0" using ok(2) True by (simp add: arr_ok_def)
      moreover have "cells m' x = cells m x \<and> \<not> in_array h' x" if "cells m x \<noteq> None" for x
        using that fr(3,4) unfolding in_array_def h' by (auto simp: add.commute add.left_commute)
      ultimately show ?thesis
        using malloc_ok [OF ok(1) m] fr(2) ok(2) capge b True
        by (auto simp: h' arr_ok_def array_moved_def stb_header_size_def)
    next
      case False
      define p where "p = h_ptr h - stb_header_size"
      have p: "p \<noteq> 0" "chunks m p = Some (gc_block_size * h_cap h + stb_header_size)"
        "h_ptr h = p + stb_header_size"
        using ok(2) False by (auto simp: arr_ok_def p_def)
      have le: "gc_block_size * h_cap h + stb_header_size \<le> gc_block_size * cap + stb_header_size"
        using capge by simp
      have re': "c_realloc al jk m p (gc_block_size * cap + stb_header_size) = Some (b, m')"
        using re False by (simp add: p_def)
      note g = realloc_grow [OF ok(1) p(1,2) le re' b]
      have lc: "gc_block_size * h_len h \<le> gc_block_size * h_cap h"
        using ok(2) by (simp add: arr_ok_def)
      have mv: "\<forall>i < gc_block_size * h_len h. cells m' (h_ptr h' + i) = cells m (h_ptr h + i)"
      proof (intro allI impI)
        fix i assume "i < gc_block_size * h_len h"
        then have "stb_header_size + i < gc_block_size * h_cap h + stb_header_size"
          using lc by linarith
        with g(4) have "cells m' (b + (stb_header_size + i)) = cells m (p + (stb_header_size + i))"
          by blast
        then show "cells m' (h_ptr h' + i) = cells m (h_ptr h + i)"
          by (simp add: h' p(3) add.assoc)
      qed
      have out: "\<forall>x. cells m x \<noteq> None \<longrightarrow> \<not> in_array h x \<longrightarrow> cells m' x = cells m x \<and> \<not> in_array h' x"
        using g(5) p(1) unfolding in_array_def h' by (auto simp: p(3) add.assoc add.commute add.left_commute)
      show ?thesis
        using g(1,2) mv out ok(2) capge b
        by (auto simp: h' arr_ok_def array_moved_def stb_header_size_def)
    qed
  qed
  then show "mem_ok m'" and "arr_ok m' h'" and "array_moved m h m' h'"
    and "h_len h' = h_len h" and "h_count h' = h_count h" and "h_len h + n \<le> h_cap h'" and "h_ptr h' \<noteq> 0" by blast+
qed

text \<open>\<open>arrput\<close> and \<open>arraddnptr\<close>: elements already there and memory outside the array are kept.\<close>

lemma block_write_moved:
  assumes ok: "arr_ok m h" and len: "h_len h < h_cap h"
    and w: "block_write m (block_addr h (h_len h)) b = Some m'"
  shows "array_moved m h m' h"
proof -
  have c: "cells m' x = (if block_addr h (h_len h) \<le> x \<and> x < block_addr h (h_len h) + gc_block_size
      then Some (block_bytes b ! (x - block_addr h (h_len h))) else cells m x)" for x
    using w by (auto simp: block_write_def mem_write_Some_iff poke_apply)
  have ptr: "h_ptr h \<noteq> 0" using ok len by (auto simp: arr_ok_def split: if_splits)
  have "gc_block_size * h_len h + gc_block_size \<le> gc_block_size * h_cap h"
    using mult_le_mono2 [of "Suc (h_len h)" "h_cap h" gc_block_size] len by (simp add: add.commute)
  then have "in_array h x" if "block_addr h (h_len h) \<le> x" "x < block_addr h (h_len h) + gc_block_size" for x
    using that ptr unfolding in_array_def block_addr_def by linarith
  then show ?thesis
    by (auto simp: array_moved_def c) (auto simp: block_addr_def)
qed

lemma array_moved_trans:
  assumes "array_moved m h m1 h1" and "array_moved m1 h1 m2 h2"
  shows "array_moved m h m2 h2"
proof -
  have le: "gc_block_size * h_len h \<le> gc_block_size * h_len h1"
    using assms(1) by (simp add: array_moved_def)
  show ?thesis
    using assms le unfolding array_moved_def
    by (metis (no_types, lifting) le_trans order_less_le_trans)
qed

lemma arr_ok_len: "arr_ok m h \<Longrightarrow> n \<le> h_cap h \<Longrightarrow> arr_ok m (h\<lparr>h_len := n\<rparr>)"
  by (simp add: arr_ok_def)

lemma array_moved_len: "array_moved m h m' h' \<Longrightarrow> h_len h' \<le> n \<Longrightarrow> array_moved m h m' (h'\<lparr>h_len := n\<rparr>)"
  by (auto simp: array_moved_def in_array_def)

lemma arrput_ok:
  assumes ok: "mem_ok m" "arr_ok m h" and run: "arrput al jk m h b = Some (m', h')"
    and b: "block_ok b"
  shows "mem_ok m'" and "arr_ok m' h'" and "array_moved m h m' h'"
    and "h_len h' = h_len h + 1" and "h_count h' = h_count h"
    and "block_read m' (block_addr h' (h_len h)) = Some b"
proof -
  obtain m1 h1 where g: "arrmaybegrow al jk m h 1 = Some (m1, h1)"
    and w: "block_write m1 (block_addr h1 (h_len h1)) b = Some m'"
    and h': "h' = h1\<lparr>h_len := h_len h1 + 1\<rparr>"
    using run by (auto simp: arrput_def)
  note gr = arrmaybegrow_ok [OF ok g zero_less_one]
  have len: "h_len h1 < h_cap h1" using gr(4,6) by simp
  have w': "mem_write m1 (block_addr h1 (h_len h1)) (block_bytes b) = Some m'"
    using w by (simp add: block_write_def)
  have mv: "array_moved m1 h1 m' h1" by (rule block_write_moved [OF gr(2) len w])
  show "mem_ok m'" by (rule write_ok [OF gr(1) w'])
  have "arr_ok m' h1" using gr(2) mem_write_keeps(1) [OF w'] by (simp add: arr_ok_def)
  then show "arr_ok m' h'" unfolding h' by (rule arr_ok_len) (use len in simp)
  show "array_moved m h m' h'"
    unfolding h' by (rule array_moved_len [OF array_moved_trans [OF gr(3) mv]]) simp
  show "h_len h' = h_len h + 1" "h_count h' = h_count h" by (simp_all add: h' gr)
  show "block_read m' (block_addr h' (h_len h)) = Some b"
    using mem_read_write_same [OF w']
    by (simp add: h' gr(4) block_addr_def block_read_def block_of_bytes_block_bytes [OF b])
qed

lemma arraddnptr_ok:
  assumes ok: "mem_ok m" "arr_ok m h" and run: "arraddnptr al jk m h n = Some (m', h')" and n: "0 < n"
  shows "mem_ok m'" and "arr_ok m' h'" and "array_moved m h m' h'"
    and "h_len h' = h_len h + n" and "h_count h' = h_count h"
proof -
  obtain h1 where g: "arrmaybegrow al jk m h n = Some (m', h1)" and h': "h' = h1\<lparr>h_len := h_len h1 + n\<rparr>"
    using run by (auto simp: arraddnptr_def)
  note gr = arrmaybegrow_ok [OF ok g n]
  show "mem_ok m'" by (rule gr(1))
  show "arr_ok m' h'" unfolding h' by (rule arr_ok_len [OF gr(2)]) (use gr(4,6) in simp)
  show "array_moved m h m' h'" unfolding h' by (rule array_moved_len [OF gr(3)]) simp
  show "h_len h' = h_len h + n" "h_count h' = h_count h" by (simp_all add: h' gr)
qed

text \<open>A data chunk does not overlap the array.\<close>

lemma arr_chunk_mapped:
  assumes "mem_ok m" and "arr_ok m h" and "in_array h x"
  shows "cells m x \<noteq> None"
proof -
  have c: "chunks m (h_ptr h - stb_header_size) = Some (gc_block_size * h_cap h + stb_header_size)"
    "stb_header_size < h_ptr h"
    using assms(2,3) by (auto simp: arr_ok_def in_array_def)
  then have "mem_ok_range m (h_ptr h - stb_header_size) (gc_block_size * h_cap h + stb_header_size)"
    using assms(1) by (simp add: mem_ok_def)
  then show ?thesis
    using assms(3) c(2) unfolding mem_ok_range_iff in_array_def by auto
qed

lemma malloc_arr_ok:
  assumes "mem_ok m" and "arr_ok m h" and "c_malloc al jk m n = (a, m')"
  shows "arr_ok m' h"
proof (cases "a = 0")
  case True
  with assms malloc_null show ?thesis by blast
next
  case False
  note fr = malloc_fresh [OF assms(1,3) False]
  show ?thesis using assms(2) fr(2,7) by (auto simp: arr_ok_def)
qed

text \<open>
  The specification of \<open>tgc_create_block\<close>: the returned address is that of a block with the
  requested size, whose data chunk (when \<open>malloc\<close> did not fail) is mapped, was not mapped
  before, and does not overlap the array; earlier blocks keep their contents at their (possibly
  new) address, and all other memory is unchanged.
\<close>

lemma create_block_ok:
  assumes ok: "mem_ok m" "heap_ok m h" and sz: "sz < 2 ^ 64" "pc < 2 ^ 64"
    and run: "tgc_create_block al jk m h sz pc = Some (a, m', h')"
  shows "mem_ok m'" and "heap_ok m' h'" and "array_moved m h m' h'"
    and "a = block_addr h' (h_len h)" and "h_len h' = h_len h + pc + 1"
    and "\<exists>v. block_read m' a = Some \<lparr>gb_value = v, gb_pointer_count = pc, gb_size = sz,
             gb_pointers = 0, gb_marked = 0\<rparr> \<and>
           (v \<noteq> 0 \<longrightarrow> mem_ok_range m' v sz \<and>
              (\<forall>x. v \<le> x \<and> x < v + sz \<longrightarrow> cells m x = None \<and> \<not> in_array h' x))"
proof -
  obtain v m0 where v: "c_malloc al jk m sz = (v, m0)" by (cases "c_malloc al jk m sz")
  let ?b = "\<lparr>gb_value = v, gb_pointer_count = pc, gb_size = sz, gb_pointers = 0, gb_marked = 0\<rparr>"
  obtain m1 h1 h2 where p: "arrput al jk m0 h ?b = Some (m1, h1)"
    and g: "(if pc \<noteq> 0 then arraddnptr al jk m1 h1 pc else Some (m1, h1)) = Some (m', h2)"
    and a: "a = block_addr h2 (h_count h2)" and h': "h' = h2\<lparr>h_count := h_count h2 + (pc + 1)\<rparr>"
    using run v by (auto simp: tgc_create_block_def Let_def)
  have aok: "arr_ok m h" and cnt: "h_count h = h_len h" using ok(2) by (auto simp: heap_ok_def)
  have ok0: "mem_ok m0" "arr_ok m0 h"
    using malloc_ok [OF ok(1) v] malloc_arr_ok [OF ok(1) aok v] by blast+
  have "v < 2 ^ 64" by (rule malloc_below [OF v])
  then have bok: "block_ok ?b" using sz by (simp add: block_ok_def)
  note pu = arrput_ok [OF ok0 p bok]
  have "mem_ok m' \<and> arr_ok m' h2 \<and> array_moved m1 h1 m' h2 \<and> h_len h2 = h_len h1 + pc \<and>
      h_count h2 = h_count h1"
  proof (cases "pc = 0")
    case True
    with g pu show ?thesis by (simp add: array_moved_refl)
  next
    case False
    with g have "arraddnptr al jk m1 h1 pc = Some (m', h2)" by simp
    from arraddnptr_ok [OF pu(1,2) this] False show ?thesis by simp
  qed
  then have ok2: "mem_ok m'" "arr_ok m' h2" and mv2: "array_moved m1 h1 m' h2"
    and len2: "h_len h2 = h_len h1 + pc" and cnt2: "h_count h2 = h_count h1" by blast+
  have len: "h_len h' = h_len h + pc + 1" by (simp add: h' len2 pu(4))
  have arr': "in_array h' x = in_array h2 x" "block_addr h' i = block_addr h2 i" for x i
    by (simp_all add: h' in_array_def block_addr_def)
  have mv02: "array_moved m0 h m' h2" by (rule array_moved_trans [OF pu(3) mv2])
  show "mem_ok m'" by (rule ok2(1))
  show "heap_ok m' h'" using ok2(2) by (simp add: heap_ok_def arr_ok_def h' len2 cnt2 pu cnt)
  show la: "a = block_addr h' (h_len h)" by (simp add: a arr' cnt2 pu(5) cnt)
  show "h_len h' = h_len h + pc + 1" by (rule len)
  have m0: "\<forall>x. cells m x \<noteq> None \<longrightarrow> cells m0 x = cells m x"
    using malloc_fresh(3,4) [OF ok(1) v] malloc_null [of jk m sz m0] v by (cases "v = 0") metis+
  show "array_moved m h m' h'"
  proof -
    have "cells m0 (h_ptr h + i) = cells m (h_ptr h + i)" if "i < gc_block_size * h_len h" for i
    proof -
      have "gc_block_size * h_len h \<le> gc_block_size * h_cap h" using aok by (simp add: arr_ok_def)
      then have "i < gc_block_size * h_cap h" using that by linarith
      then have "in_array h (h_ptr h + i)"
        using aok by (auto simp: in_array_def arr_ok_def split: if_splits)
      with arr_chunk_mapped [OF ok(1) aok] m0 show ?thesis by blast
    qed
    with mv02 m0 show ?thesis
      unfolding array_moved_def arr' by (simp add: h')
  qed
  have rb: "block_read m' a = Some ?b"
    using array_moved_block [OF mv2, of "h_len h"] pu(4,6) by (simp add: la arr')
  moreover have "mem_ok_range m' v sz \<and> (\<forall>x. v \<le> x \<and> x < v + sz \<longrightarrow> cells m x = None \<and> \<not> in_array h' x)"
    if nz: "v \<noteq> 0"
  proof -
    note fr = malloc_fresh [OF ok(1) v nz]
    have out: "\<not> in_array h x" if "v \<le> x" "x < v + sz" for x
      using arr_chunk_mapped [OF ok(1) aok] fr(3) that by blast
    have "cells m' x \<noteq> None \<and> \<not> in_array h' x" if "v \<le> x" "x < v + sz" for x
      using that out [OF that] fr(1) mv02 unfolding array_moved_def arr' mem_ok_range_iff by metis
    with fr(3) show ?thesis by (auto simp: mem_ok_range_iff)
  qed
  ultimately show "\<exists>v. block_read m' a = Some \<lparr>gb_value = v, gb_pointer_count = pc, gb_size = sz,
             gb_pointers = 0, gb_marked = 0\<rparr> \<and>
           (v \<noteq> 0 \<longrightarrow> mem_ok_range m' v sz \<and>
              (\<forall>x. v \<le> x \<and> x < v + sz \<longrightarrow> cells m x = None \<and> \<not> in_array h' x))"
    by blast
qed

end

end
