(* ===== verification/Tgc_Total.thy ===== *)
theory Tgc_Total
  imports Tgc
begin

text \<open>
  Allocation returns while there is memory: with the allocator \<open>bump_alloc\<close>, \<open>tgc_create_block\<close> is
  defined as long as the address space has room for the block's data and for the array, which at
  most doubles twice.
\<close>

lemma bump_nonzero: "brk m + n + 48 \<le> 2 ^ 64 \<Longrightarrow> bump_alloc m n \<noteq> 0"
  using bump_above [of m] by (auto simp: bump_alloc_def Let_def)

lemma bump_malloc_brk: "c_malloc bump_alloc jk m n = (a, m') \<Longrightarrow> brk m' \<le> brk m + n + 48"
proof -
  have "16 * ((brk m + 31) div 16) \<le> brk m + 31" by simp
  then show "c_malloc bump_alloc jk m n = (a, m') \<Longrightarrow> brk m' \<le> brk m + n + 48"
    by (auto simp: c_malloc_def bump_alloc_def Let_def split: if_splits)
qed

lemma bump_malloc_nonzero:
  "c_malloc bump_alloc jk m n = (a, m') \<Longrightarrow> brk m + n + 48 \<le> 2 ^ 64 \<Longrightarrow> a \<noteq> 0"
  using bump_nonzero [of m n] by (auto simp: c_malloc_def Let_def split: if_splits)

lemma chunk_range: "mem_ok m \<Longrightarrow> chunks m p = Some n \<Longrightarrow> p \<noteq> 0 \<and> mem_ok_range m p n"
  by (simp add: mem_ok_def)

lemma bump_realloc_total:
  assumes ok: "mem_ok m" and p: "p = 0 \<or> (\<exists>old. chunks m p = Some old \<and> old \<le> n)"
    and room: "brk m + n + 48 \<le> 2 ^ 64"
  shows "\<exists>q m'. c_realloc bump_alloc jk m p n = Some (q, m') \<and> q \<noteq> 0 \<and> brk m' \<le> brk m + n + 48"
proof (cases "p = 0")
  case True
  obtain q m' where "c_malloc bump_alloc jk m n = (q, m')" by (cases "c_malloc bump_alloc jk m n")
  with True room bump_malloc_brk bump_malloc_nonzero show ?thesis
    by (auto simp: c_realloc_def)
next
  case False
  with p obtain old where old: "chunks m p = Some old" "old \<le> n" by blast
  obtain bs where bs: "mem_read m p old = Some bs"
    using mem_read_defined chunk_range [OF ok old(1)] by blast
  obtain m1 where m1: "c_free m p = Some m1" "brk m1 = brk m"
    using False old(1) by (simp add: c_free_def)
  have ok1: "mem_ok m1" by (rule free_ok [OF ok m1(1)])
  obtain q m2 where q: "c_malloc bump_alloc jk m1 n = (q, m2)" by (cases "c_malloc bump_alloc jk m1 n")
  have qz: "q \<noteq> 0" using bump_malloc_nonzero [OF q] room m1(2) by simp
  have "mem_ok_range m2 q (length bs)"
    using mem_ok_range_mono [OF bump.malloc_fresh(1) [OF ok1 q qz], of q old] old(2) bs
    by (simp add: mem_read_Some_iff)
  then obtain m3 where m3: "mem_write m2 q bs = Some m3" by (auto simp: mem_write_def)
  have "brk m3 \<le> brk m + n + 48"
    using bump_malloc_brk [OF q] mem_write_keeps(2) [OF m3] m1(2) by simp
  with False old bs m1 q qz m3 show ?thesis
    by (auto simp: c_realloc_def Let_def min_absorb1)
qed

lemma arr_new_cap_le: "arr_new_cap len cap n \<le> 2 * cap + len + n + 4"
  by (auto simp: arr_new_cap_def Let_def)

lemma arr_new_cap_le': "len \<le> cap \<Longrightarrow> arr_new_cap len cap n \<le> 2 * cap + n + 4"
  by (auto simp: arr_new_cap_def Let_def)

lemma bump_arrmaybegrow_total:
  assumes ok: "mem_ok m" "arr_ok m h" and n: "0 < n"
    and room: "brk m + 40 * (2 * h_cap h + n + 4) + 80 \<le> 2 ^ 64"
  shows "\<exists>m' h'. arrmaybegrow bump_alloc jk m h n = Some (m', h') \<and>
    brk m' \<le> brk m + 40 * (2 * h_cap h + n + 4) + 80 \<and> h_cap h' \<le> 2 * h_cap h + n + 4"
proof (cases "h_ptr h = 0 \<or> h_cap h < h_len h + n")
  case False
  then show ?thesis by (auto simp: arrmaybegrow_def)
next
  case True
  define cap where "cap = arr_new_cap (h_len h) (h_cap h) n"
  have le: "cap \<le> 2 * h_cap h + n + 4"
    unfolding cap_def using arr_new_cap_le' ok(2) by (simp add: arr_ok_def)
  have ge: "h_cap h \<le> cap" "h_len h + n \<le> cap" using arr_new_cap_ge unfolding cap_def by blast+
  define p where "p = (if h_ptr h = 0 then 0 else h_ptr h - stb_header_size)"
  have p: "p = 0 \<or> (\<exists>old. chunks m p = Some old \<and> old \<le> gc_block_size * cap + stb_header_size)"
    using ok(2) ge(1) by (auto simp: arr_ok_def p_def split: if_splits)
  have rm: "brk m + (gc_block_size * cap + stb_header_size) + 48 \<le> 2 ^ 64"
    using room le by (simp add: gc_block_size_def stb_header_size_def)
  from bump_realloc_total [OF ok(1) p rm, of jk] obtain q m' where
    q: "c_realloc bump_alloc jk m p (gc_block_size * cap + stb_header_size) = Some (q, m')" "q \<noteq> 0"
    "brk m' \<le> brk m + (gc_block_size * cap + stb_header_size) + 48" by blast
  have "cap \<noteq> h_cap h" using True ge ok(2) n by (auto simp: arr_ok_def)
  with True q show ?thesis
    using le by (auto simp: arrmaybegrow_def arrgrow_def Let_def cap_def [symmetric] p_def [symmetric]
      gc_block_size_def stb_header_size_def)
qed

lemma bump_arrput_total:
  assumes ok: "mem_ok m" "arr_ok m h" and room: "brk m + 40 * (2 * h_cap h + 5) + 80 \<le> 2 ^ 64"
  shows "\<exists>m' h'. arrput bump_alloc jk m h b = Some (m', h') \<and>
    brk m' \<le> brk m + 40 * (2 * h_cap h + 5) + 80 \<and> h_cap h' \<le> 2 * h_cap h + 5"
proof -
  from bump_arrmaybegrow_total [OF ok zero_less_one, of jk] room obtain m1 h1 where
    g: "arrmaybegrow bump_alloc jk m h 1 = Some (m1, h1)" "brk m1 \<le> brk m + 40 * (2 * h_cap h + 5) + 80"
    "h_cap h1 \<le> 2 * h_cap h + 5" by (auto simp: add.commute)
  note gr = bump.arrmaybegrow_ok [OF ok g(1) zero_less_one]
  have c: "chunks m1 (h_ptr h1 - stb_header_size) = Some (gc_block_size * h_cap h1 + stb_header_size)"
    "stb_header_size < h_ptr h1"
    using gr(2,7) by (auto simp: arr_ok_def)
  have len: "gc_block_size * h_len h1 + gc_block_size \<le> gc_block_size * h_cap h1"
    using mult_le_mono2 [of "Suc (h_len h1)" "h_cap h1" gc_block_size] gr(4,6) by (simp add: add.commute)
  have "mem_ok_range m1 (block_addr h1 (h_len h1)) gc_block_size"
    by (rule mem_ok_range_mono [of m1 "h_ptr h1 - stb_header_size" "gc_block_size * h_cap h1 + stb_header_size"])
      (use chunk_range [OF gr(1) c(1)] c(2) len in \<open>auto simp: block_addr_def\<close>)
  then obtain m2 where w: "block_write m1 (block_addr h1 (h_len h1)) b = Some m2"
    by (auto simp: block_write_def mem_write_def)
  then have "brk m2 = brk m1" using mem_write_keeps(2) by (auto simp: block_write_def)
  with g w show ?thesis by (auto simp: arrput_def)
qed

lemma bump_create_block_total:
  assumes ok: "mem_ok m" "heap_ok m h" and sz: "sz < 2 ^ 64" "pc < 2 ^ 64"
    and room: "brk m + sz + 240 * h_cap h + 40 * pc + 1200 \<le> 2 ^ 64"
  shows "\<exists>a m' h'. tgc_create_block bump_alloc jk m h sz pc = Some (a, m', h')"
proof -
  obtain v m0 where v: "c_malloc bump_alloc jk m sz = (v, m0)" by (cases "c_malloc bump_alloc jk m sz")
  let ?b = "\<lparr>gb_value = v, gb_pointer_count = pc, gb_size = sz, gb_pointers = 0, gb_marked = 0\<rparr>"
  have aok: "arr_ok m h" using ok(2) by (simp add: heap_ok_def)
  have ok0: "mem_ok m0" "arr_ok m0 h"
    using bump.malloc_ok [OF ok(1) v] bump.malloc_arr_ok [OF ok(1) aok v] by blast+
  have b0: "brk m0 \<le> brk m + sz + 48" by (rule bump_malloc_brk [OF v])
  then have "brk m0 + 40 * (2 * h_cap h + 5) + 80 \<le> 2 ^ 64" using room by simp
  from bump_arrput_total [OF ok0 this, of jk ?b] obtain m1 h1 where
    p: "arrput bump_alloc jk m0 h ?b = Some (m1, h1)" "brk m1 \<le> brk m0 + 40 * (2 * h_cap h + 5) + 80"
      "h_cap h1 \<le> 2 * h_cap h + 5" by blast
  have "block_ok ?b" using sz bump.malloc_below [OF v] by (simp add: block_ok_def)
  note pu = bump.arrput_ok [OF ok0 p(1) this]
  have "\<exists>m2 h2. (if pc \<noteq> 0 then arraddnptr bump_alloc jk m1 h1 pc else Some (m1, h1)) = Some (m2, h2)"
  proof (cases "pc = 0")
    case False
    have "brk m1 + 40 * (2 * h_cap h1 + pc + 4) + 80 \<le> 2 ^ 64" using room b0 p(2,3) by simp
    from bump_arrmaybegrow_total [OF pu(1,2) _ this, of jk] False show ?thesis
      by (auto simp: arraddnptr_def)
  qed simp
  with v p(1) show ?thesis by (auto simp: tgc_create_block_def Let_def)
qed

end
