(* ===== verification/Arena.thy ===== *)
theory Arena
  imports C_Memory
begin

text \<open>
  The arena allocator, \<open>include/common/arena.h\<close>: a chain of buffers obtained from \<open>malloc\<close>, each
  filled from its start. The chain is the list of its \<open>arena_struct\<close>s, the current one first (the
  code's \<open>prev\<close> links lead to the older ones, its \<open>next\<close> links back); a null pointer to an arena
  is the empty list. The structures themselves are not placed in memory, the buffers are.
\<close>

record arena_struct =
  ar_size :: nat
  ar_capacity :: nat
  ar_memory :: nat

type_synonym arena_t = "arena_struct list"

definition arena_init :: "policy \<Rightarrow> junk \<Rightarrow> memory \<Rightarrow> nat \<Rightarrow> arena_t \<times> memory" where
  "arena_init al jk m n = (let (p, m') = c_malloc al jk m n in
     ([\<lparr>ar_size = 0, ar_capacity = n, ar_memory = p\<rparr>], m'))"

text \<open>\<open>arena_grow\<close>: a new current buffer with the capacity of the old one.\<close>

definition arena_grow :: "policy \<Rightarrow> junk \<Rightarrow> memory \<Rightarrow> arena_t \<Rightarrow> (arena_t \<times> memory) option" where
  "arena_grow al jk m ar = (case ar of
     [] \<Rightarrow> None
   | a # _ \<Rightarrow> (let (b, m') = arena_init al jk m (ar_capacity a) in Some (b @ ar, m')))"

text \<open>The result is the pointer, 0 for \<open>NULL\<close>. The new buffer is not checked against the size.\<close>

definition arena_alloc ::
  "policy \<Rightarrow> junk \<Rightarrow> memory \<Rightarrow> arena_t \<Rightarrow> nat \<Rightarrow> (nat \<times> arena_t \<times> memory) option" where
  "arena_alloc al jk m ar n =
     (if n = 0 then Some (0, ar, m)
      else case ar of
        [] \<Rightarrow> Some (0, ar, m)
      | a # _ \<Rightarrow> do {
          (ar1, m1) \<leftarrow> (if ar_capacity a < ar_size a + n then arena_grow al jk m ar else Some (ar, m));
          case ar1 of
            [] \<Rightarrow> None
          | b # rest \<Rightarrow> Some (ar_memory b + ar_size b, b\<lparr>ar_size := ar_size b + n\<rparr> # rest, m1) })"

definition arena_reset :: "arena_t \<Rightarrow> arena_t option" where
  "arena_reset ar = (case ar of [] \<Rightarrow> None | a # rest \<Rightarrow> Some (a\<lparr>ar_size := 0\<rparr> # rest))"

text \<open>\<open>arena_realloc\<close>, which nothing calls, is given the arena by value: when \<open>arena_alloc\<close> appends a
  buffer the caller still holds the buffer before it. The number is that of the buffers in the chain
  ahead of the one the caller holds. A pointer that is not null is not resized, the result is \<open>NULL\<close>.\<close>

definition arena_realloc ::
  "policy \<Rightarrow> junk \<Rightarrow> memory \<Rightarrow> arena_t \<Rightarrow> nat \<Rightarrow> nat \<Rightarrow> (nat \<times> arena_t \<times> nat \<times> memory) option" where
  "arena_realloc al jk m ar p n =
     (if p = 0 then do {
        (q, ar1, m1) \<leftarrow> arena_alloc al jk m ar n;
        Some (q, ar1, length ar1 - length ar, m1) }
      else Some (0, ar, 0, m))"

text \<open>\<open>arena_destroy\<close> walks to the oldest buffer and frees from there.\<close>

fun free_all :: "memory \<Rightarrow> nat list \<Rightarrow> memory option" where
  "free_all m [] = Some m"
| "free_all m (p # ps) = Option.bind (c_free m p) (\<lambda>m'. free_all m' ps)"

definition arena_destroy :: "memory \<Rightarrow> arena_t \<Rightarrow> memory option" where
  "arena_destroy m ar = free_all m (rev (map ar_memory ar))"

subsection \<open>Well-formed arenas\<close>

text \<open>Every buffer is an allocated chunk of its capacity, filled no further than that, and no two
  buffers are the same chunk.\<close>

definition arena_ok :: "memory \<Rightarrow> arena_t \<Rightarrow> bool" where
  "arena_ok m ar \<longleftrightarrow> ar \<noteq> [] \<and> distinct (map ar_memory ar) \<and>
     (\<forall>a \<in> set ar. ar_size a \<le> ar_capacity a \<and> ar_memory a \<noteq> 0 \<and>
        chunks m (ar_memory a) = Some (ar_capacity a))"

text \<open>The bytes handed out so far.\<close>

definition handed_out :: "arena_t \<Rightarrow> nat set" where
  "handed_out ar = (\<Union>a \<in> set ar. {ar_memory a..<ar_memory a + ar_size a})"

lemma arena_ok_mapped:
  assumes "mem_ok m" and "arena_ok m ar" and "a \<in> set ar"
  shows "mem_ok_range m (ar_memory a) (ar_capacity a)"
  using assms by (auto simp: arena_ok_def mem_ok_def)

lemma arena_ok_disjoint:
  assumes "mem_ok m" and "arena_ok m ar" and "a \<in> set ar" and "b \<in> set ar"
    and "ar_memory a \<noteq> ar_memory b"
  shows "ar_memory a + ar_capacity a \<le> ar_memory b \<or> ar_memory b + ar_capacity b \<le> ar_memory a"
  using assms unfolding arena_ok_def mem_ok_def by blast

context allocator
begin

lemma arena_init_ok:
  assumes "mem_ok m" and "arena_init al jk m n = (ar, m')" and "\<forall>a \<in> set ar. ar_memory a \<noteq> 0"
  shows "mem_ok m'" and "arena_ok m' ar" and "handed_out ar = {}"
proof -
  obtain p where p: "c_malloc al jk m n = (p, m')" and ar: "ar = [\<lparr>ar_size = 0, ar_capacity = n, ar_memory = p\<rparr>]"
    using assms(2) by (auto simp: arena_init_def split: prod.splits)
  show "mem_ok m'" by (rule malloc_ok [OF assms(1) p])
  show "arena_ok m' ar" using malloc_fresh(2) [OF assms(1) p] assms(3) by (simp add: arena_ok_def ar)
  show "handed_out ar = {}" by (simp add: handed_out_def ar)
qed

text \<open>The specification of \<open>arena_alloc\<close> for a request that fits into a buffer: the result is a
  range of allocated memory of the requested size that overlaps nothing handed out before, the
  arena stays well formed, and no byte of the memory changes.\<close>

lemma arena_alloc_ok:
  assumes ok: "mem_ok m" "arena_ok m ar" and n: "0 < n" "n \<le> ar_capacity (hd ar)"
    and run: "arena_alloc al jk m ar n = Some (p, ar', m')" and nn: "\<forall>a \<in> set ar'. ar_memory a \<noteq> 0"
  shows "mem_ok m'" and "arena_ok m' ar'" and "mem_ok_range m' p n"
    and "{p..<p + n} \<inter> handed_out ar = {}" and "handed_out ar' = handed_out ar \<union> {p..<p + n}"
    and "ar_capacity (hd ar') = ar_capacity (hd ar)"
    and "\<forall>x. cells m x \<noteq> None \<longrightarrow> cells m' x = cells m x"
proof -
  obtain a rest where ar: "ar = a # rest" using ok(2) by (cases ar) (auto simp: arena_ok_def)
  have "mem_ok m' \<and> arena_ok m' ar' \<and> mem_ok_range m' p n \<and> {p..<p + n} \<inter> handed_out ar = {} \<and>
      handed_out ar' = handed_out ar \<union> {p..<p + n} \<and> ar_capacity (hd ar') = ar_capacity (hd ar) \<and>
      (\<forall>x. cells m x \<noteq> None \<longrightarrow> cells m' x = cells m x)"
  proof (cases "ar_capacity a < ar_size a + n")
    case False
    with run n ar have r: "p = ar_memory a + ar_size a" "ar' = a\<lparr>ar_size := ar_size a + n\<rparr> # rest" "m' = m"
      by (auto simp: arena_alloc_def)
    have mp: "mem_ok_range m (ar_memory a) (ar_capacity a)"
      by (rule arena_ok_mapped [OF ok]) (simp add: ar)
    have "{p..<p + n} \<inter> {ar_memory b..<ar_memory b + ar_size b} = {}" if "b \<in> set rest" for b
    proof -
      have "ar_memory a \<noteq> ar_memory b" using ok(2) that by (auto simp: arena_ok_def ar)
      with arena_ok_disjoint [OF ok, of a b] that
      have "ar_memory a + ar_capacity a \<le> ar_memory b \<or> ar_memory b + ar_capacity b \<le> ar_memory a"
        by (simp add: ar)
      moreover have "ar_size b \<le> ar_capacity b" using ok(2) that by (simp add: arena_ok_def ar)
      ultimately show ?thesis using False by (auto simp: r(1))
    qed
    then have "{p..<p + n} \<inter> handed_out rest = {}" unfolding handed_out_def by blast
    moreover have "{p..<p + n} \<inter> {ar_memory a..<ar_memory a + ar_size a} = {}" by (auto simp: r(1))
    ultimately have "{p..<p + n} \<inter> handed_out ar = {}"
      unfolding handed_out_def ar by (simp add: Int_Un_distrib)
    moreover have "mem_ok_range m p n"
      by (rule mem_ok_range_mono [OF mp]) (use False r(1) in simp_all)
    ultimately show ?thesis
      using ok False by (auto simp: r ar arena_ok_def handed_out_def)
  next
    case True
    obtain q where q: "c_malloc al jk m (ar_capacity a) = (q, m')" and
      r: "p = q" "ar' = \<lparr>ar_size = n, ar_capacity = ar_capacity a, ar_memory = q\<rparr> # ar"
      using run n ar True by (auto simp: arena_alloc_def arena_grow_def arena_init_def split: prod.splits)
    have qz: "q \<noteq> 0" using nn by (simp add: r)
    note fr = malloc_fresh [OF ok(1) q qz]
    have "{q..<q + n} \<inter> handed_out ar = {}"
    proof -
      have "cells m x \<noteq> None" if "x \<in> handed_out ar" for x
      proof -
        from that obtain b where b: "b \<in> set ar" "ar_memory b \<le> x" "x < ar_memory b + ar_size b"
          by (auto simp: handed_out_def)
        with ok(2) have "ar_size b \<le> ar_capacity b" by (simp add: arena_ok_def)
        with b arena_ok_mapped [OF ok b(1)] show ?thesis unfolding mem_ok_range_iff by (meson le_trans less_le_trans add_le_cancel_left)
      qed
      with fr(3) n ar show ?thesis by fastforce
    qed
    moreover have "arena_ok m' ar'"
      using ok(2) fr(2,7) qz n by (auto simp: arena_ok_def r ar)
    moreover have "mem_ok_range m' q n"
      by (rule mem_ok_range_mono [OF fr(1)]) (use n ar in simp_all)
    moreover have "\<forall>x. cells m x \<noteq> None \<longrightarrow> cells m' x = cells m x"
      using fr(3,4) by metis
    moreover have "handed_out ar' = handed_out ar \<union> {q..<q + n}" by (auto simp: handed_out_def r)
    ultimately show ?thesis using malloc_ok [OF ok(1) q] by (simp add: r ar)
  qed
  then show "mem_ok m'" and "arena_ok m' ar'" and "mem_ok_range m' p n"
    and "{p..<p + n} \<inter> handed_out ar = {}" and "handed_out ar' = handed_out ar \<union> {p..<p + n}"
    and "ar_capacity (hd ar') = ar_capacity (hd ar)"
    and "\<forall>x. cells m x \<noteq> None \<longrightarrow> cells m' x = cells m x" by blast+
qed

end

text \<open>A request larger than the capacity is granted all the same: the range that is handed out ends
  beyond the new buffer.\<close>

lemma arena_alloc_too_large:
  assumes "ar = a # rest" and "ar_capacity a < n" and "arena_alloc al jk m ar n = Some (p, ar', m')"
  shows "\<exists>b. ar' = b # ar \<and> p = ar_memory b \<and> ar_capacity b = ar_capacity a \<and> ar_size b = n"
  using assms by (auto simp: arena_alloc_def arena_grow_def arena_init_def split: prod.splits)

text \<open>Destroying a well-formed arena frees every buffer, and only those.\<close>

lemma free_all_ok:
  assumes "mem_ok m" and "distinct ps" and "\<forall>p \<in> set ps. p \<noteq> 0 \<and> chunks m p \<noteq> None"
  shows "\<exists>m'. free_all m ps = Some m' \<and> mem_ok m' \<and>
    chunks m' = (\<lambda>x. if x \<in> set ps then None else chunks m x)"
  using assms
proof (induction ps arbitrary: m)
  case (Cons p ps)
  then obtain n where n: "p \<noteq> 0" "chunks m p = Some n" by auto
  then obtain m1 where m1: "c_free m p = Some m1" "chunks m1 = (chunks m)(p := None)"
    by (simp add: c_free_def)
  have "\<forall>q \<in> set ps. q \<noteq> 0 \<and> chunks m1 q \<noteq> None" using Cons.prems(2,3) m1(2) by auto
  with Cons.IH [OF free_ok [OF Cons.prems(1) m1(1)]] Cons.prems(2) obtain m2 where
    m2: "free_all m1 ps = Some m2" "mem_ok m2" "chunks m2 = (\<lambda>x. if x \<in> set ps then None else chunks m1 x)"
    by auto
  with m1 show ?case by (auto simp: fun_eq_iff)
qed simp

lemma arena_destroy_ok:
  assumes "mem_ok m" and "arena_ok m ar"
  shows "\<exists>m'. arena_destroy m ar = Some m' \<and> mem_ok m' \<and>
    chunks m' = (\<lambda>x. if x \<in> ar_memory ` set ar then None else chunks m x)"
  using free_all_ok [of m "rev (map ar_memory ar)"] assms
  by (auto simp: arena_destroy_def arena_ok_def)

subsection \<open>Properties\<close>

definition demo_arena :: "arena_t \<times> memory" where
  "demo_arena = arena_init bump_alloc (\<lambda>_. 0) empty_memory 8"

lemma demo_arena_eq: "fst demo_arena = [\<lparr>ar_size = 0, ar_capacity = 8, ar_memory = 16\<rparr>]"
  by (simp add: demo_arena_def arena_init_def c_malloc_def bump_alloc_def empty_memory_def)

lemma demo_arena_ok: "mem_ok (snd demo_arena)" "arena_ok (snd demo_arena) (fst demo_arena)"
proof -
  have "\<forall>a \<in> set (fst demo_arena). ar_memory a \<noteq> 0"
    by (simp add: demo_arena_def arena_init_def c_malloc_def bump_alloc_def empty_memory_def)
  with bump.arena_init_ok [OF mem_ok_empty, of "\<lambda>_. 0" 8 "fst demo_arena" "snd demo_arena"]
  show "mem_ok (snd demo_arena)" "arena_ok (snd demo_arena) (fst demo_arena)"
    by (simp_all add: demo_arena_def)
qed

text \<open>C28. A request of an arena that fits into a buffer is answered with allocated memory that
  overlaps nothing handed out before; the arena stays well formed and no byte changes.\<close>

theorem arena_alloc_fresh:
  assumes "allocator al" and "mem_ok m" and "arena_ok m ar" and "0 < n" and "n \<le> ar_capacity (hd ar)"
    and "arena_alloc al jk m ar n = Some (p, ar', m')" and "\<forall>a \<in> set ar'. ar_memory a \<noteq> 0"
  shows "mem_ok_range m' p n \<and> {p..<p + n} \<inter> handed_out ar = {} \<and>
    handed_out ar' = handed_out ar \<union> {p..<p + n} \<and> arena_ok m' ar' \<and> mem_ok m' \<and>
    (\<forall>x. cells m x \<noteq> None \<longrightarrow> cells m' x = cells m x)"
  using allocator.arena_alloc_ok [OF assms] by blast

theorem arena_alloc_fresh_witness:
  "\<exists>p ar' m'. arena_alloc bump_alloc (\<lambda>_. 0) (snd demo_arena) (fst demo_arena) 5 = Some (p, ar', m') \<and>
     mem_ok_range m' p 5"
proof -
  have r: "arena_alloc bump_alloc (\<lambda>_. 0) (snd demo_arena) (fst demo_arena) 5 =
      Some (16, [\<lparr>ar_size = 5, ar_capacity = 8, ar_memory = 16\<rparr>], snd demo_arena)"
    by (simp add: arena_alloc_def demo_arena_eq)
  have "mem_ok_range (snd demo_arena) 16 5"
    using arena_alloc_fresh [OF bump.allocator_axioms demo_arena_ok _ _ r]
    by (simp add: demo_arena_eq)
  with r show ?thesis by blast
qed

text \<open>A request larger than the capacity is not refused: the arena grows by a buffer of the old
  capacity and hands out a range that ends beyond it.\<close>

theorem arena_alloc_overruns:
  assumes "ar = a # rest" and "ar_capacity a < n" and "arena_alloc al jk m ar n = Some (p, ar', m')"
  shows "\<exists>b. hd ar' = b \<and> p = ar_memory b \<and> ar_memory b + ar_capacity b < p + n"
  using arena_alloc_too_large [OF assms] assms(2) by auto

theorem arena_alloc_overruns_witness:
  "\<exists>p ar' m'. arena_alloc bump_alloc (\<lambda>_. 0) (snd demo_arena) (fst demo_arena) 9 = Some (p, ar', m') \<and>
     ar_memory (hd ar') + ar_capacity (hd ar') < p + 9"
proof -
  obtain p ar' m' where
    r: "arena_alloc bump_alloc (\<lambda>_. 0) (snd demo_arena) (fst demo_arena) 9 = Some (p, ar', m')"
    by (cases "c_malloc bump_alloc (\<lambda>_. 0) (snd demo_arena) 8")
      (auto simp: arena_alloc_def demo_arena_eq arena_init_def arena_grow_def)
  from arena_alloc_overruns [OF demo_arena_eq _ r] r show ?thesis by auto
qed

end
