(* ===== verification/Tci.thy ===== *)
theory Tci
  imports Tvm_Types
begin

text \<open>
  Calls to native C functions, \<open>src/tci.c\<close>: loading of a shared library, preparation of the call
  interfaces of a program's native functions, and the call itself. The dynamic linker and
  libffi are not part of the sources: they are the fields of \<open>ffi_env\<close>, and the called C function is
  whatever \<open>ffi_call\<close> does with the memory of the process. A null handle or function pointer is
  the address 0.

  A function that ends the process with \<open>exit(n)\<close> has the result \<open>Inl n\<close>.
\<close>

datatype ffi_type =
    FFI_TYPE_UCHAR | FFI_TYPE_UINT16 | FFI_TYPE_UINT32 | FFI_TYPE_UINT64
  | FFI_TYPE_SCHAR | FFI_TYPE_SINT16 | FFI_TYPE_SINT32 | FFI_TYPE_SINT64
  | FFI_TYPE_FLOAT | FFI_TYPE_DOUBLE | FFI_TYPE_POINTER | FFI_TYPE_VOID

record ffi_cif =
  cif_ret :: ffi_type
  cif_args :: "ffi_type list"

record ffi_env =
  dlopen_c :: "bytes \<Rightarrow> nat"
  dlsym_c :: "nat \<Rightarrow> bytes \<Rightarrow> nat"
  dlclose_c :: "nat \<Rightarrow> bool"
  ffi_prep_c :: "ffi_cif \<Rightarrow> bool"
  ffi_call_c :: "ffi_cif \<Rightarrow> nat \<Rightarrow> u64 list \<Rightarrow> memory \<Rightarrow> (u64 \<times> memory \<times> bytes) option"

record tci_native_func_t =
  cif :: "ffi_cif option"   \<comment> \<open>\<open>None\<close> while it is still zeroed\<close>
  is_ok :: bool

record tci_module_t =
  handle :: nat
  tci_name :: bytes
  native_funcs :: "tci_native_func_t list"
  native_func_count :: nat

record tci_t =
  tci_modules :: "nat \<Rightarrow> tci_module_t"
  tci_module_count :: nat

definition TCI_MODULE_CAPACITY :: nat where "TCI_MODULE_CAPACITY = 32"

definition zero_tci_module :: tci_module_t where
  "zero_tci_module = \<lparr>handle = 0, tci_name = [], native_funcs = [], native_func_count = 0\<rparr>"

definition tci_init :: tci_t where
  "tci_init = \<lparr>tci_modules = (\<lambda>_. zero_tci_module), tci_module_count = 0\<rparr>"

subsection \<open>Messages\<close>

definition CLR :: "string \<Rightarrow> bytes" where
  "CLR c = 27 # bytes_of (''['' @ c @ ''m'')"

definition CLR_GREEN :: bytes where "CLR_GREEN = CLR ''0;32''"
definition CLR_BLUE :: bytes where "CLR_BLUE = CLR ''0;34''"
definition CLR_WHITE :: bytes where "CLR_WHITE = CLR ''0;37''"
definition CLR_END :: bytes where "CLR_END = CLR ''0''"

subsection \<open>Loading a library\<close>

definition tci_load_module ::
  "ffi_env \<Rightarrow> tci_t \<Rightarrow> bytes \<Rightarrow> (int + tci_t \<times> bytes) option" where
  "tci_load_module ffi tci name =
     (let lib = dlopen_c ffi name; k = tci_module_count tci in
      if lib = 0 then Some (Inl 1)
      else if TCI_MODULE_CAPACITY \<le> k then None
      else Some (Inr
        (tci\<lparr>tci_modules := (tci_modules tci)
               (k := (tci_modules tci k)\<lparr>handle := lib, tci_name := name\<rparr>),
             tci_module_count := k + 1\<rparr>,
         CLR_WHITE @ bytes_of ''Runtime library loaded '' @ CLR_GREEN @ bytes_of ''successfully. ''
           @ CLR_END @ name @ [10])))"

text \<open>\<open>tci_unload_all\<close>: \<open>dlclose\<close> of every handle in order; a failure ends the process.\<close>

fun tci_unload_from :: "ffi_env \<Rightarrow> tci_t \<Rightarrow> nat \<Rightarrow> nat \<Rightarrow> int + unit" where
  "tci_unload_from ffi tci i 0 = Inr ()"
| "tci_unload_from ffi tci i (Suc k) =
     (if dlclose_c ffi (handle (tci_modules tci i)) then tci_unload_from ffi tci (Suc i) k
      else Inl 1)"

definition tci_unload_all :: "ffi_env \<Rightarrow> tci_t \<Rightarrow> int + unit" where
  "tci_unload_all ffi tci = tci_unload_from ffi tci 0 (tci_module_count tci)"

text \<open>The module of the last load; there is none before the first load (undefined).\<close>

definition last_module :: "tci_t \<Rightarrow> nat option" where
  "last_module tci = (if tci_module_count tci = 0 then None else Some (tci_module_count tci - 1))"

text \<open>The result is the function pointer; a missing symbol unloads everything and gives \<open>NULL\<close>.\<close>

definition tci_get_cfunction :: "ffi_env \<Rightarrow> tci_t \<Rightarrow> bytes \<Rightarrow> (int + nat) option" where
  "tci_get_cfunction ffi tci name = do {
     k \<leftarrow> last_module tci;
     let f = dlsym_c ffi (handle (tci_modules tci k)) name;
     if f = 0 then (case tci_unload_all ffi tci of Inl n \<Rightarrow> Some (Inl n) | Inr _ \<Rightarrow> Some (Inr 0))
     else Some (Inr f) }"

subsection \<open>Call interfaces\<close>

text \<open>A byte that is no \<open>tvm_ctype\<close> leaves the result uninitialised (undefined).\<close>

definition tci_ctype_to_ffi_type :: "u8 \<Rightarrow> ffi_type option" where
  "tci_ctype_to_ffi_type b =
     (case ctype_of b of
        Some CTYPE_UINT8 \<Rightarrow> Some FFI_TYPE_UCHAR
      | Some CTYPE_UINT16 \<Rightarrow> Some FFI_TYPE_UINT16
      | Some CTYPE_UINT32 \<Rightarrow> Some FFI_TYPE_UINT32
      | Some CTYPE_UINT64 \<Rightarrow> Some FFI_TYPE_UINT64
      | Some CTYPE_INT8 \<Rightarrow> Some FFI_TYPE_SCHAR
      | Some CTYPE_INT16 \<Rightarrow> Some FFI_TYPE_SINT16
      | Some CTYPE_INT32 \<Rightarrow> Some FFI_TYPE_SINT32
      | Some CTYPE_INT64 \<Rightarrow> Some FFI_TYPE_SINT64
      | Some CTYPE_FLOAT32 \<Rightarrow> Some FFI_TYPE_FLOAT
      | Some CTYPE_FLOAT64 \<Rightarrow> Some FFI_TYPE_DOUBLE
      | Some CTYPE_PTR \<Rightarrow> Some FFI_TYPE_POINTER
      | Some CTYPE_VOID \<Rightarrow> Some FFI_TYPE_VOID
      | None \<Rightarrow> None)"

definition tci_prepare_last_module :: "tci_t \<Rightarrow> nat \<Rightarrow> tci_t option" where
  "tci_prepare_last_module tci n = do {
     k \<leftarrow> last_module tci;
     Some (tci\<lparr>tci_modules := (tci_modules tci)
       (k := (tci_modules tci k)\<lparr>native_funcs := replicate n \<lparr>cif = None, is_ok = False\<rparr>,
             native_func_count := n\<rparr>)\<rparr>) }"

definition tci_prepare_function :: "ffi_env \<Rightarrow> u8 \<Rightarrow> bytes \<Rightarrow> u16 \<Rightarrow> tci_native_func_t option" where
  "tci_prepare_function ffi rt ats n = do {
     ret \<leftarrow> tci_ctype_to_ffi_type rt;
     guard_c (unat n \<le> length ats);
     args \<leftarrow> those (map tci_ctype_to_ffi_type (take (unat n) ats));
     let c = \<lparr>cif_ret = ret, cif_args = args\<rparr>;
     Some \<lparr>cif = Some c, is_ok = ffi_prep_c ffi c\<rparr> }"

text \<open>The loop over the native functions of module 0 of the program.\<close>

definition tci_prepare_cfun :: "ffi_env \<Rightarrow> tvm_program_cfun_t \<Rightarrow> tci_native_func_t option" where
  "tci_prepare_cfun ffi f = tci_prepare_function ffi (rtype f) (atypes f) (acount f)"

definition tci_metaprogram_to_ffi :: "ffi_env \<Rightarrow> tci_t \<Rightarrow> tvm_program_t \<Rightarrow> tci_t option" where
  "tci_metaprogram_to_ffi ffi tci prog = do {
     let md = modules (metadata prog) 0;
     tci1 \<leftarrow> tci_prepare_last_module tci (cfun_count md);
     k \<leftarrow> last_module tci1;
     guard_c (cfun_count md \<le> TVM_METADATA_MAX_CFUN_CAPACITY);
     fs \<leftarrow> those (map (\<lambda>i. tci_prepare_cfun ffi (cfuns md i)) [0..<cfun_count md]);
     Some (tci1\<lparr>tci_modules := (tci_modules tci1)
       (k := (tci_modules tci1 k)\<lparr>native_funcs := fs\<rparr>)\<rparr>) }"

subsection \<open>The call\<close>

text \<open>\<open>tci_native_call\<close>: the result is the value written through \<open>rvalue\<close> (\<open>None\<close> when the call
  interface is not prepared and nothing is called), the memory, and the output. An index outside
  the prepared functions and a call through \<open>NULL\<close> are undefined.\<close>

definition tci_native_call ::
  "ffi_env \<Rightarrow> tci_t \<Rightarrow> tvm_program_t \<Rightarrow> u32 \<Rightarrow> u64 list \<Rightarrow> memory \<Rightarrow>
     (int + (u64 option \<times> memory \<times> bytes)) option" where
  "tci_native_call ffi tci prog fid avalues m = do {
     let name = symbol_name (cfuns (modules (metadata prog) 0) (unat fid));
     let msg = bytes_of ''id: '' @ fmt_d (sint fid) @ [10] @ CLR_BLUE @ name @ [10] @ CLR_END;
     k \<leftarrow> last_module tci;
     let fs = native_funcs (tci_modules tci k);
     guard_c (unat fid < length fs);
     let f = fs ! unat fid;
     if is_ok f then do {
       r \<leftarrow> tci_get_cfunction ffi tci name;
       case r of
         Inl n \<Rightarrow> Some (Inl n)
       | Inr fp \<Rightarrow> do {
           guard_c (fp \<noteq> 0);
           c \<leftarrow> cif f;
           (ret, m', out') \<leftarrow> ffi_call_c ffi c fp avalues m;
           Some (Inr (Some ret, m', msg @ out')) } }
     else Some (Inr (None, m, msg)) }"

subsection \<open>Properties\<close>

lemma ffi_type_of_ctype:
  "tci_ctype_to_ffi_type (ctype_code t) \<noteq> None"
  by (cases t) (simp_all add: tci_ctype_to_ffi_type_def del: ctype_code.simps)

lemma ffi_type_inject:
  "tci_ctype_to_ffi_type a = Some t \<Longrightarrow> tci_ctype_to_ffi_type b = Some t \<Longrightarrow> ctype_of a = ctype_of b"
  by (cases t) (auto simp: tci_ctype_to_ffi_type_def split: option.splits tvm_ctype.splits)

lemma prepare_function_total:
  assumes "unat n \<le> length ats" and "\<forall>b \<in> set (r # take (unat n) ats). ctype_of b \<noteq> None"
  shows "\<exists>f. tci_prepare_function ffi r ats n = Some f \<and>
     (\<exists>c. cif f = Some c \<and> is_ok f = ffi_prep_c ffi c \<and> length (cif_args c) = unat n)"
proof -
  have d: "tci_ctype_to_ffi_type b \<noteq> None" if "ctype_of b \<noteq> None" for b
    using that by (auto simp: tci_ctype_to_ffi_type_def split: option.splits tvm_ctype.splits)
  then obtain ret where ret: "tci_ctype_to_ffi_type r = Some ret" using assms(2) by auto
  have "map tci_ctype_to_ffi_type (take (unat n) ats) =
      map Some (map (\<lambda>b. the (tci_ctype_to_ffi_type b)) (take (unat n) ats))"
    using assms(2) d by auto
  then have "those (map tci_ctype_to_ffi_type (take (unat n) ats)) =
      Some (map (\<lambda>b. the (tci_ctype_to_ffi_type b)) (take (unat n) ats))"
    by (simp only: those_map_Some_iff)
  with ret assms(1) show ?thesis by (simp add: tci_prepare_function_def Let_def min_absorb2)
qed

end
