(* ===== verification/Tvm_Exec.thy ===== *)
theory Tvm_Exec
  imports Tgc Tci Tvm_Frames
begin

text \<open>
  The virtual machine: its state \<open>tvm_t\<close> and \<open>tvm_exec_opcode\<close> of \<open>include/tvm/tvm.h\<close>, one
  definition per instruction, with the guards in the order the code tests them.

  An instruction returns an exception and the new state, \<open>EXCEPT_OK\<close> when it succeeded. \<open>None\<close>
  means that it does not return: undefined behaviour of C, or a native call that ends the process.
  Signed 32-bit addition, subtraction and multiplication wrap, as the compiled code does.
\<close>

text \<open>The machine proper (\<open>tvm_t\<close>), and the process around it: the stores that its pointers
  point into, the heap of \<open>tgc.h\<close>, the address of the constant data, what was printed, and the
  static counter of \<open>tvm_run\<close>.\<close>

record tvm_t =
  stack :: "nat \<Rightarrow> object_t"
  sp :: nat
  return_stack :: "nat \<Rightarrow> nat"
  rsp :: nat
  frame :: nat
  gframe :: vars
  program :: tvm_program_t
  ip :: nat
  halted :: bool

record machine = tvm_t +
  frames :: frame_store
  heap :: gc_heap
  mem :: memory
  data_ptr :: nat
  out :: bytes
  tgc_counter :: nat

text \<open>What the machine is run with: the C allocator, and the native interface.\<close>

record vm_env =
  policy_of :: policy
  junk_of :: junk
  ffi :: ffi_env
  tci :: tci_t

type_synonym step_result = "(exception_t \<times> machine) option"

definition tvm_init :: "memory \<Rightarrow> machine" where
  "tvm_init m = (let (fr, fs) = tvm_frame_init \<lparr>fr_cells = Map.empty, fr_fresh = 1\<rparr> in
     \<lparr>stack = (\<lambda>_. zero_object), sp = 0, return_stack = (\<lambda>_. 0), rsp = 0,
      frame = fr, gframe = tvm_gframe_init, program = zero_program, ip = 0, halted = False,
      frames = fs, heap = empty_heap, mem = m, data_ptr = 0, out = [], tgc_counter = 0\<rparr>)"

definition tvm_load_program_from_memory :: "opcode_t list \<Rightarrow> nat \<Rightarrow> machine \<Rightarrow> machine option" where
  "tvm_load_program_from_memory ops n vm =
     (if n \<le> length ops \<and> n \<le> TVM_PROGRAM_CAPACITY
      then Some (vm\<lparr>program := (program vm)\<lparr>prog_size := n,
             code := (\<lambda>i. if i < n then ops ! i else code (program vm) i)\<rparr>\<rparr>)
      else None)"

subsection \<open>Steps of the instructions\<close>

definition exc :: "exception_t \<Rightarrow> machine \<Rightarrow> step_result" where
  "exc e vm = Some (e, vm)"

definition ok :: "machine \<Rightarrow> step_result" where
  "ok vm = Some (EXCEPT_OK, vm)"

text \<open>\<open>vm->stack[vm->sp - k]\<close>, and the assignment to it.\<close>

definition top_obj :: "nat \<Rightarrow> machine \<Rightarrow> object_t" where
  "top_obj k vm = stack vm (sp vm - k)"

definition set_top :: "nat \<Rightarrow> object_t \<Rightarrow> machine \<Rightarrow> machine" where
  "set_top k ob vm = vm\<lparr>stack := (stack vm)(sp vm - k := ob)\<rparr>"

text \<open>\<open>vm->ip++\<close>, and \<open>vm->stack[vm->sp++] = ob\<close>.\<close>

definition next_ip :: "machine \<Rightarrow> machine" where
  "next_ip vm = vm\<lparr>ip := ip vm + 1\<rparr>"

definition push_obj :: "object_t \<Rightarrow> machine \<Rightarrow> machine" where
  "push_obj ob vm = vm\<lparr>stack := (stack vm)(sp vm := ob), sp := sp vm + 1\<rparr>"

text \<open>A binary operation on 32-bit members: the second object from the top is updated, keeping
  its tag and its upper bytes, and the top is dropped. Most of them also refuse a full stack.\<close>

definition bin_op ::
  "bool \<Rightarrow> (u32 \<Rightarrow> u32 \<Rightarrow> u32 option) \<Rightarrow> machine \<Rightarrow> step_result" where
  "bin_op full f vm =
     (if sp vm < 2 then exc EXCEPT_STACK_UNDERFLOW vm
      else if full \<and> TVM_STACK_CAPACITY \<le> sp vm then exc EXCEPT_STACK_OVERFLOW vm
      else do {
        r \<leftarrow> f (ui32 (top_obj 2 vm)) (ui32 (top_obj 1 vm));
        ok (next_ip ((set_top 2 (set_ui32 r (top_obj 2 vm)) vm)\<lparr>sp := sp vm - 1\<rparr>)) })"

definition un_op :: "(u32 \<Rightarrow> u32 option) \<Rightarrow> machine \<Rightarrow> step_result" where
  "un_op f vm =
     (if sp vm < 1 then exc EXCEPT_STACK_UNDERFLOW vm
      else do {
        r \<leftarrow> f (ui32 (top_obj 1 vm));
        ok (next_ip (set_top 1 (set_ui32 r (top_obj 1 vm)) vm)) })"

subsection \<open>Stack manipulation\<close>

definition op_nop :: "machine \<Rightarrow> step_result" where
  "op_nop vm = ok (next_ip vm)"

definition op_push :: "object_t \<Rightarrow> machine \<Rightarrow> step_result" where
  "op_push opnd vm =
     (if TVM_STACK_CAPACITY \<le> sp vm then exc EXCEPT_STACK_OVERFLOW vm
      else ok (next_ip (push_obj opnd vm)))"

definition op_pop :: "machine \<Rightarrow> step_result" where
  "op_pop vm =
     (if sp vm \<le> 0 then exc EXCEPT_STACK_UNDERFLOW vm
      else ok (next_ip (vm\<lparr>sp := sp vm - 1\<rparr>)))"

text \<open>\<open>OP_DUP\<close> assigns the 32-bit member of the slot above the top; the tag and the upper bytes
  of that slot stay what they were.\<close>

definition op_dup :: "machine \<Rightarrow> step_result" where
  "op_dup vm =
     (if sp vm < 1 then exc EXCEPT_STACK_UNDERFLOW vm
      else if TVM_STACK_CAPACITY \<le> sp vm then exc EXCEPT_STACK_OVERFLOW vm
      else ok (next_ip (push_obj (set_ui32 (ui32 (top_obj 1 vm)) (top_obj 0 vm)) vm)))"

text \<open>\<open>(uint32_t)vm->sp\<close> in the guards of the next two.\<close>

definition op_cln :: "object_t \<Rightarrow> machine \<Rightarrow> step_result" where
  "op_cln opnd vm =
     (if sp vm mod 2 ^ 32 \<le> unat (ui32 opnd) then exc EXCEPT_INVALID_STACK_ACCESS vm
      else if sp vm < 1 then exc EXCEPT_STACK_UNDERFLOW vm
      else if TVM_STACK_CAPACITY \<le> sp vm then exc EXCEPT_STACK_OVERFLOW vm
      else ok (next_ip (push_obj (top_obj (unat (ui32 opnd) + 1) vm) vm)))"

definition op_swap :: "object_t \<Rightarrow> machine \<Rightarrow> step_result" where
  "op_swap opnd vm =
     (let k = unat (ui32 opnd) + 1 in
      if sp vm mod 2 ^ 32 \<le> unat (ui32 opnd) then exc EXCEPT_INVALID_STACK_ACCESS vm
      else if sp vm < 2 then exc EXCEPT_STACK_UNDERFLOW vm
      else ok (next_ip (set_top k (top_obj 1 vm) (set_top 1 (top_obj k vm) vm))))"

subsection \<open>Integer arithmetic\<close>

definition op_add :: "machine \<Rightarrow> step_result" where
  "op_add = bin_op True (\<lambda>a b. Some (a + b))"

definition op_sub :: "machine \<Rightarrow> step_result" where
  "op_sub = bin_op True (\<lambda>a b. Some (a - b))"

definition op_mult :: "machine \<Rightarrow> step_result" where
  "op_mult = bin_op True (\<lambda>a b. Some (a * b))"

text \<open>The quotient of the least integer by -1 does not fit: the division traps.\<close>

definition div_i32 :: "u32 \<Rightarrow> u32 \<Rightarrow> u32 option" where
  "div_i32 a b =
     (if sint b = 0 \<or> (sint a = - (2 ^ 31) \<and> sint b = - 1) then None
      else Some (word_of_int (c_div (sint a) (sint b))))"

definition mod_i32 :: "u32 \<Rightarrow> u32 \<Rightarrow> u32 option" where
  "mod_i32 a b =
     (if sint b = 0 \<or> (sint a = - (2 ^ 31) \<and> sint b = - 1) then None
      else Some (word_of_int (c_mod (sint a) (sint b))))"

definition div_op :: "(u32 \<Rightarrow> u32 \<Rightarrow> u32 option) \<Rightarrow> machine \<Rightarrow> step_result" where
  "div_op f vm =
     (if sp vm < 2 then exc EXCEPT_STACK_UNDERFLOW vm
      else if TVM_STACK_CAPACITY \<le> sp vm then exc EXCEPT_STACK_OVERFLOW vm
      else if ui32 (top_obj 1 vm) = 0 then exc EXCEPT_DIVISION_BY_ZERO vm
      else bin_op True f vm)"

definition op_div :: "machine \<Rightarrow> step_result" where
  "op_div = div_op div_i32"

definition op_mod :: "machine \<Rightarrow> step_result" where
  "op_mod = div_op mod_i32"

definition op_inc :: "machine \<Rightarrow> step_result" where
  "op_inc = un_op (\<lambda>a. Some (a + 1))"

definition op_dec :: "machine \<Rightarrow> step_result" where
  "op_dec = un_op (\<lambda>a. Some (a - 1))"

subsection \<open>Floating point arithmetic\<close>

definition f32_one :: u32 where "f32_one = 0x3F800000"

definition op_addf :: "machine \<Rightarrow> step_result" where
  "op_addf = bin_op True (\<lambda>a b. Some (f32_add a b))"

definition op_subf :: "machine \<Rightarrow> step_result" where
  "op_subf = bin_op True (\<lambda>a b. Some (f32_sub a b))"

definition op_multf :: "machine \<Rightarrow> step_result" where
  "op_multf = bin_op True (\<lambda>a b. Some (f32_mul a b))"

definition op_divf :: "machine \<Rightarrow> step_result" where
  "op_divf = bin_op True (\<lambda>a b. Some (f32_div a b))"

definition op_incf :: "machine \<Rightarrow> step_result" where
  "op_incf = un_op (\<lambda>a. Some (f32_add a f32_one))"

definition op_decf :: "machine \<Rightarrow> step_result" where
  "op_decf = un_op (\<lambda>a. Some (f32_sub a f32_one))"

subsection \<open>Control flow\<close>

definition op_jmp :: "object_t \<Rightarrow> machine \<Rightarrow> step_result" where
  "op_jmp opnd vm =
     (if prog_size (program vm) \<le> unat (ui32 opnd) then exc EXCEPT_INVALID_INSTRUCTION_ACCESS vm
      else ok (vm\<lparr>ip := unat (ui32 opnd)\<rparr>))"

definition jump_if :: "(u32 \<Rightarrow> bool) \<Rightarrow> object_t \<Rightarrow> machine \<Rightarrow> step_result" where
  "jump_if test opnd vm =
     (if sp vm < 1 then exc EXCEPT_STACK_UNDERFLOW vm
      else if prog_size (program vm) \<le> unat (ui32 opnd)
        then exc EXCEPT_INVALID_INSTRUCTION_ACCESS vm
      else let vm1 = vm\<lparr>sp := sp vm - 1\<rparr> in
        if test (ui32 (top_obj 1 vm)) then ok (vm1\<lparr>ip := unat (ui32 opnd)\<rparr>)
        else ok (next_ip vm1))"

definition op_jz :: "object_t \<Rightarrow> machine \<Rightarrow> step_result" where
  "op_jz = jump_if (\<lambda>v. v = 0)"

definition op_jnz :: "object_t \<Rightarrow> machine \<Rightarrow> step_result" where
  "op_jnz = jump_if (\<lambda>v. v \<noteq> 0)"

definition op_call :: "object_t \<Rightarrow> machine \<Rightarrow> step_result" where
  "op_call opnd vm =
     (if RETURN_STACK_CAPACITY \<le> rsp vm then exc EXCEPT_RETURN_STACK_OVERFLOW vm
      else if prog_size (program vm) \<le> unat (ui32 opnd)
        then exc EXCEPT_INVALID_INSTRUCTION_ACCESS vm
      else do {
        (fr, fs) \<leftarrow> tvm_frame_next (frames vm) (frame vm);
        ok (vm\<lparr>return_stack := (return_stack vm)(rsp vm := ip vm + 1), rsp := rsp vm + 1,
               ip := unat (ui32 opnd), frame := fr, frames := fs\<rparr>) })"

definition op_ret :: "machine \<Rightarrow> step_result" where
  "op_ret vm =
     (if rsp vm < 1 then exc EXCEPT_RETURN_STACK_UNDERFLOW vm
      else do {
        (fr, fs) \<leftarrow> tvm_frame_prev (frames vm) (frame vm);
        ok (vm\<lparr>rsp := rsp vm - 1, ip := return_stack vm (rsp vm - 1),
               frame := fr, frames := fs\<rparr>) })"

definition op_halt :: "machine \<Rightarrow> step_result" where
  "op_halt vm = ok (next_ip (vm\<lparr>halted := True\<rparr>))"

subsection \<open>Conversions\<close>

definition op_ci2f :: "machine \<Rightarrow> step_result" where
  "op_ci2f = un_op (\<lambda>a. Some (f32_of_int (sint a)))"

definition op_ci2u :: "machine \<Rightarrow> step_result" where
  "op_ci2u = un_op (\<lambda>a. Some (word_of_int (sint a)))"

definition op_cf2i :: "machine \<Rightarrow> step_result" where
  "op_cf2i = un_op i32_of_f32"

definition op_cf2u :: "machine \<Rightarrow> step_result" where
  "op_cf2u = un_op u32_of_f32"

definition op_cu2i :: "machine \<Rightarrow> step_result" where
  "op_cu2i = un_op (\<lambda>a. Some (word_of_int (uint a)))"

definition op_cu2f :: "machine \<Rightarrow> step_result" where
  "op_cu2f = un_op (\<lambda>a. Some (f32_of_int (uint a)))"

subsection \<open>Comparisons and logic\<close>

definition op_gt :: "machine \<Rightarrow> step_result" where
  "op_gt = bin_op True (\<lambda>a b. Some (c_bool (sint a > sint b)))"

definition op_gtf :: "machine \<Rightarrow> step_result" where
  "op_gtf = bin_op True (\<lambda>a b. Some (c_bool (f32_less b a)))"

definition op_lt :: "machine \<Rightarrow> step_result" where
  "op_lt = bin_op True (\<lambda>a b. Some (c_bool (sint a < sint b)))"

text \<open>\<open>OP_LTF\<close> compares with \<open><=\<close> in the source.\<close>

definition op_ltf :: "machine \<Rightarrow> step_result" where
  "op_ltf = bin_op True (\<lambda>a b. Some (c_bool (f32_le a b)))"

definition op_eq :: "machine \<Rightarrow> step_result" where
  "op_eq = bin_op True (\<lambda>a b. Some (c_bool (sint a = sint b)))"

definition op_eqf :: "machine \<Rightarrow> step_result" where
  "op_eqf = bin_op True (\<lambda>a b. Some (c_bool (f32_eq a b)))"

definition op_ge :: "machine \<Rightarrow> step_result" where
  "op_ge = bin_op True (\<lambda>a b. Some (c_bool (sint a \<ge> sint b)))"

definition op_gef :: "machine \<Rightarrow> step_result" where
  "op_gef = bin_op True (\<lambda>a b. Some (c_bool (f32_le b a)))"

definition op_le :: "machine \<Rightarrow> step_result" where
  "op_le = bin_op True (\<lambda>a b. Some (c_bool (sint a \<le> sint b)))"

definition op_lef :: "machine \<Rightarrow> step_result" where
  "op_lef = bin_op True (\<lambda>a b. Some (c_bool (f32_le a b)))"

definition op_and :: "machine \<Rightarrow> step_result" where
  "op_and = bin_op True (\<lambda>a b. Some (c_bool (sint a \<noteq> 0 \<and> sint b \<noteq> 0)))"

definition op_or :: "machine \<Rightarrow> step_result" where
  "op_or = bin_op True (\<lambda>a b. Some (c_bool (sint a \<noteq> 0 \<or> sint b \<noteq> 0)))"

definition op_not :: "machine \<Rightarrow> step_result" where
  "op_not = un_op (\<lambda>a. Some (c_bool (sint a = 0)))"

definition op_band :: "machine \<Rightarrow> step_result" where
  "op_band = bin_op False (\<lambda>a b. Some (a AND b))"

definition op_bor :: "machine \<Rightarrow> step_result" where
  "op_bor = bin_op False (\<lambda>a b. Some (a OR b))"

definition op_bnot :: "machine \<Rightarrow> step_result" where
  "op_bnot = un_op (\<lambda>a. Some (NOT a))"

text \<open>A shift by a negative number or by 32 or more is undefined.\<close>

definition lshft_i32 :: "u32 \<Rightarrow> u32 \<Rightarrow> u32 option" where
  "lshft_i32 a b = (if 0 \<le> sint b \<and> sint b < 32 then Some (push_bit (unat b) a) else None)"

definition rshft_i32 :: "u32 \<Rightarrow> u32 \<Rightarrow> u32 option" where
  "rshft_i32 a b = (if 0 \<le> sint b \<and> sint b < 32 then Some (signed_drop_bit (unat b) a) else None)"

definition op_lshft :: "machine \<Rightarrow> step_result" where
  "op_lshft = bin_op False lshft_i32"

definition op_rshft :: "machine \<Rightarrow> step_result" where
  "op_rshft = bin_op False rshft_i32"

subsection \<open>Constants and variables\<close>

text \<open>\<open>&vm->program.const_table.data[...referances[i]]\<close>.\<close>

definition const_addr :: "machine \<Rightarrow> nat \<Rightarrow> nat option" where
  "const_addr vm i =
     (let refs = referances (const_table (program vm)) in
      if i < length refs then Some (data_ptr vm + refs ! i) else None)"

definition op_loadc :: "object_t \<Rightarrow> machine \<Rightarrow> step_result" where
  "op_loadc opnd vm =
     (if TVM_STACK_CAPACITY \<le> sp vm then exc EXCEPT_STACK_OVERFLOW vm
      else if referance_count (const_table (program vm)) \<le> unat (ui32 opnd)
        then exc EXCEPT_INVALID_CONSTANT_ACCESS vm
      else do {
        a \<leftarrow> const_addr vm (unat (ui32 opnd));
        bs \<leftarrow> mem_read (mem vm) a 4;
        ok (next_ip (push_obj (set_ui32 (word_of_nat (le_val bs)) (top_obj 0 vm)) vm)) })"

definition op_aloadc :: "object_t \<Rightarrow> machine \<Rightarrow> step_result" where
  "op_aloadc opnd vm =
     (if TVM_STACK_CAPACITY \<le> sp vm then exc EXCEPT_STACK_OVERFLOW vm
      else if referance_count (const_table (program vm)) \<le> unat (ui32 opnd)
        then exc EXCEPT_INVALID_CONSTANT_ADDRESS_ACCESS vm
      else do {
        a \<leftarrow> const_addr vm (unat (ui32 opnd));
        ok (next_ip (push_obj ((top_obj 0 vm)\<lparr>ui64 := word_of_nat a\<rparr>) vm)) })"

definition op_load :: "object_t \<Rightarrow> machine \<Rightarrow> step_result" where
  "op_load opnd vm =
     (if TVM_STACK_CAPACITY \<le> sp vm then exc EXCEPT_STACK_OVERFLOW vm
      else if TVM_MAX_LOCAL_VAR \<le> unat (ui32 opnd) then exc EXCEPT_INVALID_LOCAL_VAR_ACCESS vm
      else do {
        v \<leftarrow> frame_get (frames vm) (frame vm) (unat (ui32 opnd));
        ok (next_ip (push_obj v vm)) })"

definition op_store :: "object_t \<Rightarrow> machine \<Rightarrow> step_result" where
  "op_store opnd vm =
     (if sp vm \<le> 0 then exc EXCEPT_STACK_UNDERFLOW vm
      else if TVM_MAX_LOCAL_VAR \<le> unat (ui32 opnd) then exc EXCEPT_INVALID_LOCAL_VAR_ACCESS vm
      else do {
        fs \<leftarrow> frame_set (frames vm) (frame vm) (unat (ui32 opnd)) (top_obj 1 vm);
        ok (next_ip (vm\<lparr>frames := fs, sp := sp vm - 1\<rparr>)) })"

definition op_gload :: "object_t \<Rightarrow> machine \<Rightarrow> step_result" where
  "op_gload opnd vm =
     (if TVM_STACK_CAPACITY \<le> sp vm then exc EXCEPT_STACK_OVERFLOW vm
      else if TVM_MAX_LOCAL_VAR \<le> unat (ui32 opnd) then exc EXCEPT_INVALID_GLOBAL_VAR_ACCESS vm
      else ok (next_ip (push_obj (gframe vm (unat (ui32 opnd))) vm)))"

definition op_gstore :: "object_t \<Rightarrow> machine \<Rightarrow> step_result" where
  "op_gstore opnd vm =
     (if sp vm \<le> 0 then exc EXCEPT_STACK_UNDERFLOW vm
      else if TVM_MAX_LOCAL_VAR \<le> unat (ui32 opnd) then exc EXCEPT_INVALID_GLOBAL_VAR_ACCESS vm
      else ok (next_ip (vm\<lparr>gframe := (gframe vm)(unat (ui32 opnd) := top_obj 1 vm),
                           sp := sp vm - 1\<rparr>)))"

subsection \<open>The heap\<close>

definition op_halloc :: "vm_env \<Rightarrow> machine \<Rightarrow> step_result" where
  "op_halloc env vm =
     (if sp vm < 2 then exc EXCEPT_STACK_UNDERFLOW vm
      else do {
        (a, m, h) \<leftarrow> tgc_create_block (policy_of env) (junk_of env) (mem vm) (heap vm)
          (unat (ui32 (top_obj 2 vm))) (unat (ui32 (top_obj 1 vm)));
        ok (next_ip ((set_top 2 \<lparr>obj_type = obj_type_code STACK_OBJ_TYPE_DATA_ADDRESS,
                                ui64 = word_of_nat a\<rparr> vm)
              \<lparr>mem := m, heap := h, sp := sp vm - 1\<rparr>)) })"

text \<open>A 64-bit word at an address.\<close>

definition read_u64 :: "memory \<Rightarrow> nat \<Rightarrow> u64 option" where
  "read_u64 m a = map_option (\<lambda>bs. word_of_nat (le_val bs)) (mem_read m a 8)"

definition op_deref :: "machine \<Rightarrow> step_result" where
  "op_deref vm =
     (if sp vm \<le> 0 then exc EXCEPT_STACK_UNDERFLOW vm
      else do {
        v \<leftarrow> read_u64 (mem vm) (unat (ui64 (top_obj 1 vm)));
        ok (next_ip (set_top 1 ((top_obj 1 vm)\<lparr>ui64 := v\<rparr>) vm)) })"

text \<open>The object of a given size that \<open>OP_DEREFB\<close> reads: a \<open>char\<close> and an \<open>int32_t\<close> are
  sign-extended, a pointer is taken as it is.\<close>

definition derefb_read :: "memory \<Rightarrow> nat \<Rightarrow> int \<Rightarrow> u64 option" where
  "derefb_read m a n =
     (if n = 1 then map_option (\<lambda>bs. scast (word_of_nat (le_val bs) :: u8)) (mem_read m a 1)
      else if n = 4 then map_option (\<lambda>bs. scast (word_of_nat (le_val bs) :: u32)) (mem_read m a 4)
      else read_u64 m a)"

definition op_derefb :: "object_t \<Rightarrow> machine \<Rightarrow> step_result" where
  "op_derefb opnd vm =
     (if sp vm \<le> 0 then exc EXCEPT_STACK_UNDERFLOW vm
      else if i32 opnd < 1 \<or> 8 < unat (ui32 opnd) then exc EXCEPT_INVALID_BYTE_SIZE vm
      else if i32 opnd = 1 \<or> i32 opnd = 4 \<or> i32 opnd = 8 then do {
        v \<leftarrow> derefb_read (mem vm) (unat (ui64 (top_obj 1 vm))) (i32 opnd);
        ok (next_ip (set_top 1 ((top_obj 1 vm)\<lparr>ui64 := v\<rparr>) vm)) }
      else exc EXCEPT_INVALID_BYTE_SIZE vm)"

text \<open>The bytes that \<open>OP_HSET\<close> and \<open>OP_HSETOF\<close> store for a primitive of the given size.\<close>

definition prim_bytes :: "u32 \<Rightarrow> object_t \<Rightarrow> bytes option" where
  "prim_bytes bsize ob =
     (if bsize = 4 then Some (le_bytes 4 (unat (ui32 ob)))
      else if bsize = 1 then Some (le_bytes 1 (unat (ui8 ob)))
      else if bsize = 8 then Some (le_bytes 8 (unat (ui64 ob)))
      else None)"

text \<open>The common part of both: the block at the address third from the top is read, the offset is
  compared with its size, and the fourth object is stored at \<open>addr->value + offset\<close>.\<close>

definition heap_set :: "u32 \<Rightarrow> u32 \<Rightarrow> machine \<Rightarrow> step_result" where
  "heap_set offset byte_size vm =
     (let addr = unat (ui64 (top_obj 3 vm)) in do {
        sz \<leftarrow> read_u64 (mem vm) (addr + 16);
        if unat sz \<le> unat offset then exc EXCEPT_INVALID_ARRAY_INDEX vm
        else (case prim_bytes byte_size (top_obj 4 vm) of
            None \<Rightarrow> exc EXCEPT_INVALID_PRIMITIVE_SIZE vm
          | Some bs \<Rightarrow> do {
              v \<leftarrow> read_u64 (mem vm) addr;
              m \<leftarrow> mem_write (mem vm) (unat v + unat offset) bs;
              ok (next_ip (vm\<lparr>mem := m, sp := sp vm - 4\<rparr>)) }) })"

definition op_hset :: "machine \<Rightarrow> step_result" where
  "op_hset vm =
     (if sp vm < 4 then exc EXCEPT_STACK_UNDERFLOW vm
      else let byte_size = ui32 (top_obj 1 vm); index = ui32 (top_obj 2 vm)
           in heap_set (index * byte_size) byte_size vm)"

definition op_hsetof :: "machine \<Rightarrow> step_result" where
  "op_hsetof vm =
     (if sp vm < 4 then exc EXCEPT_STACK_UNDERFLOW vm
      else let type_size = ui32 (top_obj 1 vm); offset = ui32 (top_obj 2 vm)
           in heap_set offset type_size vm)"

subsection \<open>Output and native calls\<close>

definition op_puts :: "machine \<Rightarrow> step_result" where
  "op_puts vm =
     (if sp vm < 1 then exc EXCEPT_STACK_UNDERFLOW vm
      else do {
        s \<leftarrow> mem_cstr (mem vm) (unat (ui64 (top_obj 1 vm)));
        ok (next_ip (vm\<lparr>out := out vm @ s, sp := sp vm - 1\<rparr>)) })"

definition op_putc :: "machine \<Rightarrow> step_result" where
  "op_putc vm =
     (if sp vm < 1 then exc EXCEPT_STACK_UNDERFLOW vm
      else ok (next_ip (vm\<lparr>out := out vm @ [ui8 (top_obj 1 vm)], sp := sp vm - 1\<rparr>)))"

text \<open>The entry of the native function is copied before its index is checked, and the argument
  array has 64 places; both are outside their arrays for some programs. A void function is called
  without a place for a result; otherwise the lower 32 bits of the result (0 when nothing was
  called) are stored in the slot that is the new top, which keeps its tag.\<close>

definition op_native :: "vm_env \<Rightarrow> object_t \<Rightarrow> machine \<Rightarrow> step_result" where
  "op_native env opnd vm = do {
     let i = unat (ui32 opnd);
     guard_c (i < TVM_METADATA_MAX_CFUN_CAPACITY);
     let md = modules (metadata (program vm)) 0;
     let f = cfuns md i;
     let n = unat (acount f);
     if sp vm < n then exc EXCEPT_STACK_UNDERFLOW vm
     else if TVM_STACK_CAPACITY \<le> sp vm then exc EXCEPT_STACK_OVERFLOW vm
     else if cfun_count md \<le> i then exc EXCEPT_INVALID_NATIVE_FUNCTION_ACCESS vm
     else do {
       guard_c (n \<le> 64);
       let vargs = map (\<lambda>k. ui64 (top_obj (n - k) vm)) [0..<n];
       let vm1 = vm\<lparr>sp := sp vm - n\<rparr>;
       r \<leftarrow> tci_native_call (ffi env) (tci env) (program vm) (ui32 opnd) vargs (mem vm);
       case r of
         Inl _ \<Rightarrow> None
       | Inr (ret, m, msg) \<Rightarrow>
           let vm2 = vm1\<lparr>mem := m, out := out vm @ msg\<rparr> in
           if rtype f = ctype_code CTYPE_VOID then ok (next_ip vm2)
           else let w = (case ret of None \<Rightarrow> 0 | Some x \<Rightarrow> ucast x)
                in ok (next_ip (push_obj (set_ui32 w (top_obj 0 vm2)) vm2)) } }"

subsection \<open>The dispatcher\<close>

primrec exec_op :: "optype_t \<Rightarrow> vm_env \<Rightarrow> object_t \<Rightarrow> machine \<Rightarrow> step_result" where
  "exec_op OP_NOP env opnd vm = op_nop vm"
| "exec_op OP_PUSH env opnd vm = op_push opnd vm"
| "exec_op OP_POP env opnd vm = op_pop vm"
| "exec_op OP_ADD env opnd vm = op_add vm"
| "exec_op OP_SUB env opnd vm = op_sub vm"
| "exec_op OP_MULT env opnd vm = op_mult vm"
| "exec_op OP_DIV env opnd vm = op_div vm"
| "exec_op OP_MOD env opnd vm = op_mod vm"
| "exec_op OP_DUP env opnd vm = op_dup vm"
| "exec_op OP_CLN env opnd vm = op_cln opnd vm"
| "exec_op OP_SWAP env opnd vm = op_swap opnd vm"
| "exec_op OP_ADDF env opnd vm = op_addf vm"
| "exec_op OP_SUBF env opnd vm = op_subf vm"
| "exec_op OP_MULTF env opnd vm = op_multf vm"
| "exec_op OP_DIVF env opnd vm = op_divf vm"
| "exec_op OP_INC env opnd vm = op_inc vm"
| "exec_op OP_INCF env opnd vm = op_incf vm"
| "exec_op OP_DEC env opnd vm = op_dec vm"
| "exec_op OP_DECF env opnd vm = op_decf vm"
| "exec_op OP_JMP env opnd vm = op_jmp opnd vm"
| "exec_op OP_JZ env opnd vm = op_jz opnd vm"
| "exec_op OP_JNZ env opnd vm = op_jnz opnd vm"
| "exec_op OP_CALL env opnd vm = op_call opnd vm"
| "exec_op OP_RET env opnd vm = op_ret vm"
| "exec_op OP_CI2F env opnd vm = op_ci2f vm"
| "exec_op OP_CI2U env opnd vm = op_ci2u vm"
| "exec_op OP_CF2I env opnd vm = op_cf2i vm"
| "exec_op OP_CF2U env opnd vm = op_cf2u vm"
| "exec_op OP_CU2I env opnd vm = op_cu2i vm"
| "exec_op OP_CU2F env opnd vm = op_cu2f vm"
| "exec_op OP_GT env opnd vm = op_gt vm"
| "exec_op OP_GTF env opnd vm = op_gtf vm"
| "exec_op OP_LT env opnd vm = op_lt vm"
| "exec_op OP_LTF env opnd vm = op_ltf vm"
| "exec_op OP_EQ env opnd vm = op_eq vm"
| "exec_op OP_EQF env opnd vm = op_eqf vm"
| "exec_op OP_GE env opnd vm = op_ge vm"
| "exec_op OP_GEF env opnd vm = op_gef vm"
| "exec_op OP_LE env opnd vm = op_le vm"
| "exec_op OP_LEF env opnd vm = op_lef vm"
| "exec_op OP_AND env opnd vm = op_and vm"
| "exec_op OP_OR env opnd vm = op_or vm"
| "exec_op OP_NOT env opnd vm = op_not vm"
| "exec_op OP_BAND env opnd vm = op_band vm"
| "exec_op OP_BOR env opnd vm = op_bor vm"
| "exec_op OP_BNOT env opnd vm = op_bnot vm"
| "exec_op OP_LSHFT env opnd vm = op_lshft vm"
| "exec_op OP_RSHFT env opnd vm = op_rshft vm"
| "exec_op OP_LOADC env opnd vm = op_loadc opnd vm"
| "exec_op OP_ALOADC env opnd vm = op_aloadc opnd vm"
| "exec_op OP_LOAD env opnd vm = op_load opnd vm"
| "exec_op OP_STORE env opnd vm = op_store opnd vm"
| "exec_op OP_GLOAD env opnd vm = op_gload opnd vm"
| "exec_op OP_GSTORE env opnd vm = op_gstore opnd vm"
| "exec_op OP_HALLOC env opnd vm = op_halloc env vm"
| "exec_op OP_DEREF env opnd vm = op_deref vm"
| "exec_op OP_DEREFB env opnd vm = op_derefb opnd vm"
| "exec_op OP_HSET env opnd vm = op_hset vm"
| "exec_op OP_HSETOF env opnd vm = op_hsetof vm"
| "exec_op OP_PUTS env opnd vm = op_puts vm"
| "exec_op OP_PUTC env opnd vm = op_putc vm"
| "exec_op OP_NATIVE env opnd vm = op_native env opnd vm"
| "exec_op OP_HALT env opnd vm = op_halt vm"

text \<open>\<open>tvm_exec_opcode\<close>: fetch and dispatch. The code array has 1024 entries, and a type byte that
  is no instruction falls into the default case.\<close>

definition tvm_exec_opcode :: "vm_env \<Rightarrow> machine \<Rightarrow> step_result" where
  "tvm_exec_opcode env vm =
     (if TVM_PROGRAM_CAPACITY \<le> ip vm then None
      else let inst = code (program vm) (ip vm) in
        case optype_of (op_type inst) of
          None \<Rightarrow> exc EXCEPT_INVALID_INSTRUCTION vm
        | Some t \<Rightarrow> exec_op t env (operand inst) vm)"

lemmas all_op_defs =
  op_nop_def op_push_def op_pop_def op_add_def op_sub_def op_mult_def op_div_def op_mod_def
  op_dup_def op_cln_def op_swap_def op_addf_def op_subf_def op_multf_def op_divf_def
  op_inc_def op_incf_def op_dec_def op_decf_def op_jmp_def op_jz_def op_jnz_def op_call_def
  op_ret_def op_ci2f_def op_ci2u_def op_cf2i_def op_cf2u_def op_cu2i_def op_cu2f_def
  op_gt_def op_gtf_def op_lt_def op_ltf_def op_eq_def op_eqf_def op_ge_def op_gef_def
  op_le_def op_lef_def op_and_def op_or_def op_not_def op_band_def op_bor_def op_bnot_def
  op_lshft_def op_rshft_def op_loadc_def op_aloadc_def op_load_def op_store_def op_gload_def
  op_gstore_def op_halloc_def op_deref_def op_derefb_def op_hset_def op_hsetof_def
  op_puts_def op_putc_def op_native_def op_halt_def

end
