(* ===== verification/Tvm_Effects.thy ===== *)
theory Tvm_Effects
  imports Tvm_Exec
begin

text \<open>
  What one instruction may change. The rule of an instruction has the form \<open>runs_as f R\<close>: when \<open>f\<close>
  raises an exception the machine is exactly as it was, and when it succeeds \<open>R\<close> relates the states
  before and after. The rules of the single instructions are collected in \<open>op_runs\<close> and joined in
  \<open>exec_op_effect\<close>: the stack effect of every instruction (how many objects it consumes and
  produces, and that it touches nothing below them), where control goes, and which parts of the
  state stay as they are.
\<close>

named_theorems op_runs \<open>rules of the single instructions\<close>

definition runs_as :: "(machine \<Rightarrow> step_result) \<Rightarrow> (machine \<Rightarrow> machine \<Rightarrow> bool) \<Rightarrow> bool" where
  "runs_as f R \<longleftrightarrow>
     (\<forall>vm e vm'. f vm = Some (e, vm') \<longrightarrow> (if e = EXCEPT_OK then R vm vm' else vm' = vm))"

lemma runs_asI:
  "(\<And>vm e vm'. f vm = Some (e, vm') \<Longrightarrow> (if e = EXCEPT_OK then R vm vm' else vm' = vm)) \<Longrightarrow> runs_as f R"
  by (simp add: runs_as_def)

lemma runs_as_ok: "runs_as f R \<Longrightarrow> f vm = Some (EXCEPT_OK, vm') \<Longrightarrow> R vm vm'"
  by (auto simp: runs_as_def)

lemma runs_as_exc: "runs_as f R \<Longrightarrow> f vm = Some (e, vm') \<Longrightarrow> e \<noteq> EXCEPT_OK \<Longrightarrow> vm' = vm"
  by (auto simp: runs_as_def)

lemma runs_as_mono: "runs_as f R \<Longrightarrow> (\<And>vm vm'. R vm vm' \<Longrightarrow> S vm vm') \<Longrightarrow> runs_as f S"
  by (auto simp: runs_as_def split: if_splits)

subsection \<open>Parts of the state\<close>

definition same_const :: "machine \<Rightarrow> machine \<Rightarrow> bool" where
  "same_const vm vm' \<longleftrightarrow> program vm' = program vm \<and> data_ptr vm' = data_ptr vm \<and>
     tgc_counter vm' = tgc_counter vm"

definition same_calls :: "machine \<Rightarrow> machine \<Rightarrow> bool" where
  "same_calls vm vm' \<longleftrightarrow> return_stack vm' = return_stack vm \<and> rsp vm' = rsp vm \<and>
     frame vm' = frame vm"

definition same_mem :: "machine \<Rightarrow> machine \<Rightarrow> bool" where
  "same_mem vm vm' \<longleftrightarrow> mem vm' = mem vm \<and> heap vm' = heap vm"

text \<open>\<open>n\<close> objects are consumed and \<open>k\<close> produced; the objects below are not touched.\<close>

definition stack_eff :: "nat \<Rightarrow> nat \<Rightarrow> machine \<Rightarrow> machine \<Rightarrow> bool" where
  "stack_eff n k vm vm' \<longleftrightarrow> n \<le> sp vm \<and> sp vm' + n = sp vm + k \<and>
     (sp vm \<le> TVM_STACK_CAPACITY \<longrightarrow> sp vm' \<le> TVM_STACK_CAPACITY) \<and>
     (\<forall>i < sp vm - n. stack vm' i = stack vm i)"

definition pure_eff :: "nat \<Rightarrow> nat \<Rightarrow> machine \<Rightarrow> machine \<Rightarrow> bool" where
  "pure_eff n k vm vm' \<longleftrightarrow> stack_eff n k vm vm' \<and> same_const vm vm' \<and> same_calls vm vm' \<and>
     frames vm' = frames vm \<and> same_mem vm vm' \<and> ip vm' = ip vm + 1 \<and> halted vm' = halted vm"

lemmas eff_defs = same_const_def same_calls_def same_mem_def stack_eff_def pure_eff_def

lemmas step_defs = exc_def ok_def next_ip_def push_obj_def set_top_def top_obj_def Let_def capacities

lemma machine_simps [simp]:
  "exc e vm = Some (e', vm') \<longleftrightarrow> e' = e \<and> vm' = vm"
  "ok vm = Some (e', vm') \<longleftrightarrow> e' = EXCEPT_OK \<and> vm' = vm"
  by (auto simp: exc_def ok_def)

subsection \<open>Rules of the combinators\<close>

lemma bin_op_runs: "runs_as (bin_op b f) (pure_eff 2 1)"
  by (rule runs_asI) (auto simp: bin_op_def eff_defs step_defs split: if_splits)

lemma un_op_runs: "runs_as (un_op f) (pure_eff 1 1)"
  by (rule runs_asI) (auto simp: un_op_def eff_defs step_defs split: if_splits)

lemma div_op_runs: "runs_as (div_op f) (pure_eff 2 1)"
proof (rule runs_asI)
  fix vm e vm' assume "div_op f vm = Some (e, vm')"
  then show "if e = EXCEPT_OK then pure_eff 2 1 vm vm' else vm' = vm"
    using bin_op_runs [of True f] by (auto simp: div_op_def runs_as_def split: if_splits)
qed

lemmas alu2_defs =
  op_add_def op_sub_def op_mult_def op_addf_def op_subf_def op_multf_def op_divf_def
  op_gt_def op_gtf_def op_lt_def op_ltf_def op_eq_def op_eqf_def op_ge_def op_gef_def op_le_def
  op_lef_def op_and_def op_or_def op_band_def op_bor_def op_lshft_def op_rshft_def

lemmas alu1_defs =
  op_inc_def op_dec_def op_incf_def op_decf_def op_ci2f_def op_ci2u_def op_cf2i_def op_cf2u_def
  op_cu2i_def op_cu2f_def op_not_def op_bnot_def

text \<open>A conditional jump pops, and goes to its operand or on.\<close>

definition jump_eff :: "object_t \<Rightarrow> machine \<Rightarrow> machine \<Rightarrow> bool" where
  "jump_eff opnd vm vm' \<longleftrightarrow> stack_eff 1 0 vm vm' \<and> same_const vm vm' \<and> same_calls vm vm' \<and>
     frames vm' = frames vm \<and> same_mem vm vm' \<and> halted vm' = halted vm \<and>
     (ip vm' = ip vm + 1 \<or> ip vm' = unat (ui32 opnd) \<and> ip vm' < prog_size (program vm))"

lemma jump_if_runs: "runs_as (jump_if p opnd) (jump_eff opnd)"
  by (rule runs_asI) (auto simp: jump_if_def jump_eff_def eff_defs step_defs split: if_splits)

subsection \<open>Rules of the other instructions\<close>

lemma op_nop_runs [op_runs]: "runs_as op_nop (pure_eff 0 0)"
  by (rule runs_asI) (auto simp: op_nop_def eff_defs step_defs)

lemma op_push_runs [op_runs]: "runs_as (op_push opnd) (pure_eff 0 1)"
  by (rule runs_asI) (auto simp: op_push_def eff_defs step_defs split: if_splits)

lemma op_pop_runs [op_runs]: "runs_as op_pop (pure_eff 1 0)"
  by (rule runs_asI) (auto simp: op_pop_def eff_defs step_defs split: if_splits)

lemma op_dup_runs [op_runs]: "runs_as op_dup (pure_eff 1 2)"
  by (rule runs_asI) (auto simp: op_dup_def eff_defs step_defs split: if_splits)

lemma mod32_le: "sp vm mod 4294967296 \<le> sp vm"
  by simp

lemma op_cln_runs [op_runs]:
  "runs_as (op_cln opnd) (pure_eff (unat (ui32 opnd) + 1) (unat (ui32 opnd) + 2))"
proof (rule runs_asI)
  fix vm e vm' assume "op_cln opnd vm = Some (e, vm')"
  then show "if e = EXCEPT_OK then pure_eff (unat (ui32 opnd) + 1) (unat (ui32 opnd) + 2) vm vm'
      else vm' = vm"
    using mod32_le [of vm] by (auto simp: op_cln_def eff_defs step_defs split: if_splits)
qed

lemma op_swap_runs [op_runs]:
  "runs_as (op_swap opnd) (pure_eff (unat (ui32 opnd) + 1) (unat (ui32 opnd) + 1))"
proof (rule runs_asI)
  fix vm e vm' assume "op_swap opnd vm = Some (e, vm')"
  then show "if e = EXCEPT_OK then pure_eff (unat (ui32 opnd) + 1) (unat (ui32 opnd) + 1) vm vm'
      else vm' = vm"
    using mod32_le [of vm] by (auto simp: op_swap_def eff_defs step_defs split: if_splits)
qed

lemma op_loadc_runs [op_runs]: "runs_as (op_loadc opnd) (pure_eff 0 1)"
  by (rule runs_asI) (auto simp: op_loadc_def eff_defs step_defs split: if_splits)

lemma op_aloadc_runs [op_runs]: "runs_as (op_aloadc opnd) (pure_eff 0 1)"
  by (rule runs_asI) (auto simp: op_aloadc_def eff_defs step_defs split: if_splits)

lemma op_load_runs [op_runs]: "runs_as (op_load opnd) (pure_eff 0 1)"
  by (rule runs_asI) (auto simp: op_load_def eff_defs step_defs split: if_splits)

lemma op_gload_runs [op_runs]: "runs_as (op_gload opnd) (pure_eff 0 1)"
  by (rule runs_asI) (auto simp: op_gload_def eff_defs step_defs split: if_splits)

lemma op_gstore_runs [op_runs]: "runs_as (op_gstore opnd) (pure_eff 1 0)"
  by (rule runs_asI) (auto simp: op_gstore_def eff_defs step_defs split: if_splits)

lemma op_deref_runs [op_runs]: "runs_as op_deref (pure_eff 1 1)"
  by (rule runs_asI) (auto simp: op_deref_def eff_defs step_defs split: if_splits)

lemma op_derefb_runs [op_runs]: "runs_as (op_derefb opnd) (pure_eff 1 1)"
  by (rule runs_asI) (auto simp: op_derefb_def eff_defs step_defs split: if_splits)

lemma op_puts_runs [op_runs]: "runs_as op_puts (pure_eff 1 0)"
  by (rule runs_asI) (auto simp: op_puts_def eff_defs step_defs split: if_splits)

lemma op_putc_runs [op_runs]: "runs_as op_putc (pure_eff 1 0)"
  by (rule runs_asI) (auto simp: op_putc_def eff_defs step_defs split: if_splits)

text \<open>The instructions that change more than the operand stack.\<close>

definition store_eff :: "object_t \<Rightarrow> machine \<Rightarrow> machine \<Rightarrow> bool" where
  "store_eff opnd vm vm' \<longleftrightarrow> stack_eff 1 0 vm vm' \<and> same_const vm vm' \<and> same_calls vm vm' \<and>
     same_mem vm vm' \<and> ip vm' = ip vm + 1 \<and> halted vm' = halted vm \<and>
     frame_set (frames vm) (frame vm) (unat (ui32 opnd)) (top_obj 1 vm) = Some (frames vm')"

lemma op_store_runs: "runs_as (op_store opnd) (store_eff opnd)"
  by (rule runs_asI) (auto simp: op_store_def store_eff_def eff_defs step_defs split: if_splits)

definition jmp_eff :: "object_t \<Rightarrow> machine \<Rightarrow> machine \<Rightarrow> bool" where
  "jmp_eff opnd vm vm' \<longleftrightarrow> vm' = vm\<lparr>ip := unat (ui32 opnd)\<rparr> \<and> ip vm' < prog_size (program vm)"

lemma op_jmp_runs: "runs_as (op_jmp opnd) (jmp_eff opnd)"
  by (rule runs_asI) (auto simp: op_jmp_def jmp_eff_def step_defs split: if_splits)

definition call_eff :: "object_t \<Rightarrow> machine \<Rightarrow> machine \<Rightarrow> bool" where
  "call_eff opnd vm vm' \<longleftrightarrow> rsp vm < RETURN_STACK_CAPACITY \<and>
     (\<exists>fr fs. tvm_frame_next (frames vm) (frame vm) = Some (fr, fs) \<and>
       vm' = vm\<lparr>return_stack := (return_stack vm)(rsp vm := ip vm + 1), rsp := rsp vm + 1,
                ip := unat (ui32 opnd), frame := fr, frames := fs\<rparr>) \<and>
     ip vm' < prog_size (program vm)"

lemma op_call_runs: "runs_as (op_call opnd) (call_eff opnd)"
  by (rule runs_asI) (auto simp: op_call_def call_eff_def step_defs split: if_splits)

definition ret_eff :: "machine \<Rightarrow> machine \<Rightarrow> bool" where
  "ret_eff vm vm' \<longleftrightarrow> 0 < rsp vm \<and>
     (\<exists>fr fs. tvm_frame_prev (frames vm) (frame vm) = Some (fr, fs) \<and>
       vm' = vm\<lparr>rsp := rsp vm - 1, ip := return_stack vm (rsp vm - 1), frame := fr, frames := fs\<rparr>)"

lemma op_ret_runs: "runs_as op_ret ret_eff"
  by (rule runs_asI) (auto simp: op_ret_def ret_eff_def step_defs split: if_splits)

definition halt_eff :: "machine \<Rightarrow> machine \<Rightarrow> bool" where
  "halt_eff vm vm' \<longleftrightarrow> vm' = vm\<lparr>halted := True, ip := ip vm + 1\<rparr>"

lemma op_halt_runs: "runs_as op_halt halt_eff"
  by (rule runs_asI) (auto simp: op_halt_def halt_eff_def step_defs)

definition heap_eff :: "nat \<Rightarrow> nat \<Rightarrow> machine \<Rightarrow> machine \<Rightarrow> bool" where
  "heap_eff n k vm vm' \<longleftrightarrow> stack_eff n k vm vm' \<and> same_const vm vm' \<and> same_calls vm vm' \<and>
     frames vm' = frames vm \<and> ip vm' = ip vm + 1 \<and> halted vm' = halted vm"

text \<open>A store through a block: some bytes are written, the heap's own bookkeeping is not changed.\<close>

definition hset_eff :: "machine \<Rightarrow> machine \<Rightarrow> bool" where
  "hset_eff vm vm' \<longleftrightarrow> heap_eff 4 0 vm vm' \<and> heap vm' = heap vm \<and>
     (\<exists>a bs. mem_write (mem vm) a bs = Some (mem vm'))"

lemma heap_set_runs: "heap_set off n vm = Some (e, vm') \<Longrightarrow> 4 \<le> sp vm \<Longrightarrow>
    (if e = EXCEPT_OK then hset_eff vm vm' else vm' = vm)"
  by (auto simp: heap_set_def hset_eff_def heap_eff_def eff_defs step_defs
      split: if_splits option.splits intro!: exI)

lemma op_hset_runs: "runs_as op_hset hset_eff"
  by (rule runs_asI) (auto simp: op_hset_def Let_def dest!: heap_set_runs split: if_splits)

lemma op_hsetof_runs: "runs_as op_hsetof hset_eff"
  by (rule runs_asI) (auto simp: op_hsetof_def Let_def dest!: heap_set_runs split: if_splits)

definition halloc_eff :: "vm_env \<Rightarrow> machine \<Rightarrow> machine \<Rightarrow> bool" where
  "halloc_eff env vm vm' \<longleftrightarrow> heap_eff 2 1 vm vm' \<and>
     (\<exists>a. tgc_create_block (policy_of env) (junk_of env) (mem vm) (heap vm)
            (unat (ui32 (top_obj 2 vm))) (unat (ui32 (top_obj 1 vm))) = Some (a, mem vm', heap vm') \<and>
          ui64 (top_obj 1 vm') = word_of_nat a)"

lemma op_halloc_runs: "runs_as (op_halloc env) (halloc_eff env)"
  by (rule runs_asI)
    (auto simp: op_halloc_def halloc_eff_def heap_eff_def eff_defs step_defs split: if_splits)

text \<open>A native call: the arguments are consumed, a result is pushed unless the function is void;
  the memory is what the called function left.\<close>

definition native_fun :: "object_t \<Rightarrow> machine \<Rightarrow> tvm_program_cfun_t" where
  "native_fun opnd vm = cfuns (modules (metadata (program vm)) 0) (unat (ui32 opnd))"

definition native_pops :: "object_t \<Rightarrow> machine \<Rightarrow> nat" where
  "native_pops opnd vm = unat (acount (native_fun opnd vm))"

definition native_pushes :: "object_t \<Rightarrow> machine \<Rightarrow> nat" where
  "native_pushes opnd vm = (if rtype (native_fun opnd vm) = ctype_code CTYPE_VOID then 0 else 1)"

definition native_eff :: "vm_env \<Rightarrow> object_t \<Rightarrow> machine \<Rightarrow> machine \<Rightarrow> bool" where
  "native_eff env opnd vm vm' \<longleftrightarrow>
     heap_eff (native_pops opnd vm) (native_pushes opnd vm) vm vm' \<and> heap vm' = heap vm \<and>
     (\<exists>args r msg. tci_native_call (ffi env) (tci env) (program vm) (ui32 opnd) args (mem vm) =
        Some (Inr (r, mem vm', msg)) \<and> out vm' = out vm @ msg)"

lemma case_returned:
  "(case z of Inl x \<Rightarrow> None | Inr (a, b, c) \<Rightarrow> F a b c) = Some r \<longleftrightarrow>
     (\<exists>a b c. z = Inr (a, b, c) \<and> F a b c = Some r)"
  by (cases z) auto

lemma op_native_runs: "runs_as (op_native env opnd) (native_eff env opnd)"
proof (rule runs_asI)
  fix vm e vm' assume run: "op_native env opnd vm = Some (e, vm')"
  show "if e = EXCEPT_OK then native_eff env opnd vm vm' else vm' = vm"
  proof (cases "e = EXCEPT_OK")
    case False
    with run show ?thesis
      by (auto simp: op_native_def Let_def case_returned split: if_splits)
  next
    case True
    with run obtain r m msg args where
      call: "tci_native_call (ffi env) (tci env) (program vm) (ui32 opnd) args (mem vm) = Some (Inr (r, m, msg))"
      and b: "native_pops opnd vm \<le> sp vm" "sp vm < TVM_STACK_CAPACITY"
      and vm': "ok vm' = (if rtype (native_fun opnd vm) = ctype_code CTYPE_VOID
        then ok (next_ip (vm\<lparr>sp := sp vm - native_pops opnd vm, mem := m, out := out vm @ msg\<rparr>))
        else ok (next_ip (push_obj (set_ui32 (case r of None \<Rightarrow> 0 | Some x \<Rightarrow> ucast x)
            (top_obj 0 (vm\<lparr>sp := sp vm - native_pops opnd vm, mem := m, out := out vm @ msg\<rparr>)))
          (vm\<lparr>sp := sp vm - native_pops opnd vm, mem := m, out := out vm @ msg\<rparr>))))"
      by (auto simp: op_native_def Let_def case_returned native_fun_def [symmetric]
        native_pops_def [symmetric] ok_def split: if_splits)
    have "mem vm' = m" "out vm' = out vm @ msg" "heap vm' = heap vm"
      "heap_eff (native_pops opnd vm) (native_pushes opnd vm) vm vm'"
      using vm' b by (simp_all add: heap_eff_def eff_defs step_defs native_pushes_def split: if_splits)
    with call True show ?thesis by (auto simp: native_eff_def)
  qed
qed

subsection \<open>Every instruction\<close>

text \<open>How many objects an instruction consumes and produces. \<open>CLN\<close> and \<open>SWAP\<close> reach as deep as
  their operand says; a native call as its signature says.\<close>

primrec stack_use :: "optype_t \<Rightarrow> tvm_program_t \<Rightarrow> object_t \<Rightarrow> nat \<times> nat" where
  "stack_use OP_NOP p opnd = (0, 0)"
| "stack_use OP_PUSH p opnd = (0, 1)"
| "stack_use OP_POP p opnd = (1, 0)"
| "stack_use OP_ADD p opnd = (2, 1)"
| "stack_use OP_SUB p opnd = (2, 1)"
| "stack_use OP_MULT p opnd = (2, 1)"
| "stack_use OP_DIV p opnd = (2, 1)"
| "stack_use OP_MOD p opnd = (2, 1)"
| "stack_use OP_DUP p opnd = (1, 2)"
| "stack_use OP_CLN p opnd = (unat (ui32 opnd) + 1, unat (ui32 opnd) + 2)"
| "stack_use OP_SWAP p opnd = (unat (ui32 opnd) + 1, unat (ui32 opnd) + 1)"
| "stack_use OP_ADDF p opnd = (2, 1)"
| "stack_use OP_SUBF p opnd = (2, 1)"
| "stack_use OP_MULTF p opnd = (2, 1)"
| "stack_use OP_DIVF p opnd = (2, 1)"
| "stack_use OP_INC p opnd = (1, 1)"
| "stack_use OP_INCF p opnd = (1, 1)"
| "stack_use OP_DEC p opnd = (1, 1)"
| "stack_use OP_DECF p opnd = (1, 1)"
| "stack_use OP_JMP p opnd = (0, 0)"
| "stack_use OP_JZ p opnd = (1, 0)"
| "stack_use OP_JNZ p opnd = (1, 0)"
| "stack_use OP_CALL p opnd = (0, 0)"
| "stack_use OP_RET p opnd = (0, 0)"
| "stack_use OP_CI2F p opnd = (1, 1)"
| "stack_use OP_CI2U p opnd = (1, 1)"
| "stack_use OP_CF2I p opnd = (1, 1)"
| "stack_use OP_CF2U p opnd = (1, 1)"
| "stack_use OP_CU2I p opnd = (1, 1)"
| "stack_use OP_CU2F p opnd = (1, 1)"
| "stack_use OP_GT p opnd = (2, 1)"
| "stack_use OP_GTF p opnd = (2, 1)"
| "stack_use OP_LT p opnd = (2, 1)"
| "stack_use OP_LTF p opnd = (2, 1)"
| "stack_use OP_EQ p opnd = (2, 1)"
| "stack_use OP_EQF p opnd = (2, 1)"
| "stack_use OP_GE p opnd = (2, 1)"
| "stack_use OP_GEF p opnd = (2, 1)"
| "stack_use OP_LE p opnd = (2, 1)"
| "stack_use OP_LEF p opnd = (2, 1)"
| "stack_use OP_AND p opnd = (2, 1)"
| "stack_use OP_OR p opnd = (2, 1)"
| "stack_use OP_NOT p opnd = (1, 1)"
| "stack_use OP_BAND p opnd = (2, 1)"
| "stack_use OP_BOR p opnd = (2, 1)"
| "stack_use OP_BNOT p opnd = (1, 1)"
| "stack_use OP_LSHFT p opnd = (2, 1)"
| "stack_use OP_RSHFT p opnd = (2, 1)"
| "stack_use OP_LOADC p opnd = (0, 1)"
| "stack_use OP_ALOADC p opnd = (0, 1)"
| "stack_use OP_LOAD p opnd = (0, 1)"
| "stack_use OP_STORE p opnd = (1, 0)"
| "stack_use OP_GLOAD p opnd = (0, 1)"
| "stack_use OP_GSTORE p opnd = (1, 0)"
| "stack_use OP_HALLOC p opnd = (2, 1)"
| "stack_use OP_DEREF p opnd = (1, 1)"
| "stack_use OP_DEREFB p opnd = (1, 1)"
| "stack_use OP_HSET p opnd = (4, 0)"
| "stack_use OP_HSETOF p opnd = (4, 0)"
| "stack_use OP_PUTS p opnd = (1, 0)"
| "stack_use OP_PUTC p opnd = (1, 0)"
| "stack_use OP_NATIVE p opnd = (let f = cfuns (modules (metadata p) 0) (unat (ui32 opnd))
      in (unat (acount f), if rtype f = ctype_code CTYPE_VOID then 0 else 1))"
| "stack_use OP_HALT p opnd = (0, 0)"

definition effectful :: "optype_t \<Rightarrow> bool" where
  "effectful t \<longleftrightarrow> t \<in> {OP_STORE, OP_JMP, OP_JZ, OP_JNZ, OP_CALL, OP_RET, OP_HALT, OP_HALLOC,
     OP_HSET, OP_HSETOF, OP_NATIVE}"

lemma pure_ops_run:
  assumes "\<not> effectful t"
  shows "runs_as (\<lambda>vm. exec_op t env opnd vm) (pure_eff (fst (stack_use t p opnd)) (snd (stack_use t p opnd)))"
  using assms
  by (cases t) (simp_all add: effectful_def alu2_defs alu1_defs op_div_def op_mod_def bin_op_runs un_op_runs
    div_op_runs op_runs del: One_nat_def add_2_eq_Suc' Suc_eq_plus1)

definition effect :: "optype_t \<Rightarrow> object_t \<Rightarrow> machine \<Rightarrow> machine \<Rightarrow> bool" where
  "effect t opnd vm vm' \<longleftrightarrow>
     stack_eff (fst (stack_use t (program vm) opnd)) (snd (stack_use t (program vm) opnd)) vm vm' \<and>
     same_const vm vm' \<and>
     (t \<notin> {OP_CALL, OP_RET} \<longrightarrow> same_calls vm vm') \<and>
     (t \<notin> {OP_CALL, OP_RET, OP_STORE} \<longrightarrow> frames vm' = frames vm) \<and>
     (t \<notin> {OP_HALLOC, OP_HSET, OP_HSETOF, OP_NATIVE} \<longrightarrow> same_mem vm vm') \<and>
     (t \<noteq> OP_HALT \<longrightarrow> halted vm' = halted vm) \<and>
     (t \<notin> {OP_JMP, OP_JZ, OP_JNZ, OP_CALL, OP_RET} \<longrightarrow> ip vm' = ip vm + 1)"

lemma pure_effect: "pure_eff (fst (stack_use t (program vm) opnd)) (snd (stack_use t (program vm) opnd)) vm vm' \<Longrightarrow>
    effect t opnd vm vm'"
  by (simp add: pure_eff_def effect_def)

lemma exec_op_effect: "runs_as (\<lambda>vm. exec_op t env opnd vm) (effect t opnd)"
proof (cases "effectful t")
  case False
  show ?thesis
  proof (rule runs_asI)
    fix vm e vm' assume "exec_op t env opnd vm = Some (e, vm')"
    then show "if e = EXCEPT_OK then effect t opnd vm vm' else vm' = vm"
      using pure_ops_run [OF False, of env opnd "program vm"]
      by (auto simp: runs_as_def intro: pure_effect)
  qed
next
  case True
  have jmp: "effect OP_JMP opnd vm vm'" if "jmp_eff opnd vm vm'" for vm vm'
    using that by (auto simp: jmp_eff_def effect_def eff_defs)
  have jz: "effect OP_JZ opnd vm vm'" "effect OP_JNZ opnd vm vm'" if "jump_eff opnd vm vm'" for vm vm'
    using that by (auto simp: jump_eff_def effect_def)
  have call: "effect OP_CALL opnd vm vm'" if "call_eff opnd vm vm'" for vm vm'
    using that by (auto simp: call_eff_def effect_def eff_defs)
  have ret: "effect OP_RET opnd vm vm'" if "ret_eff vm vm'" for vm vm'
    using that by (auto simp: ret_eff_def effect_def eff_defs)
  have halt: "effect OP_HALT opnd vm vm'" if "halt_eff vm vm'" for vm vm'
    using that by (auto simp: halt_eff_def effect_def eff_defs)
  have store: "effect OP_STORE opnd vm vm'" if "store_eff opnd vm vm'" for vm vm'
    using that by (auto simp: store_eff_def effect_def)
  have hset: "effect OP_HSET opnd vm vm'" "effect OP_HSETOF opnd vm vm'" if "hset_eff vm vm'" for vm vm'
    using that by (auto simp: hset_eff_def heap_eff_def effect_def)
  have halloc: "effect OP_HALLOC opnd vm vm'" if "halloc_eff env vm vm'" for vm vm'
    using that by (auto simp: halloc_eff_def heap_eff_def effect_def)
  have native: "effect OP_NATIVE opnd vm vm'" if "native_eff env opnd vm vm'" for vm vm'
    using that by (auto simp: native_eff_def heap_eff_def effect_def native_pops_def native_pushes_def
      native_fun_def Let_def)
  show ?thesis
    using True op_jmp_runs [of opnd, THEN runs_as_mono, OF jmp]
      jump_if_runs [of _ opnd, THEN runs_as_mono, OF jz(1)] jump_if_runs [of _ opnd, THEN runs_as_mono, OF jz(2)]
      op_call_runs [of opnd, THEN runs_as_mono, OF call] op_ret_runs [THEN runs_as_mono, OF ret]
      op_halt_runs [THEN runs_as_mono, OF halt] op_store_runs [of opnd, THEN runs_as_mono, OF store]
      op_hset_runs [THEN runs_as_mono, OF hset(1)] op_hsetof_runs [THEN runs_as_mono, OF hset(2)]
      op_halloc_runs [of env, THEN runs_as_mono, OF halloc]
      op_native_runs [of env opnd, THEN runs_as_mono, OF native]
    by (auto simp: effectful_def op_jz_def op_jnz_def)
qed

text \<open>The same for the fetched instruction.\<close>

lemma exec_opcode_cases:
  assumes "tvm_exec_opcode env vm = Some (e, vm')"
  obtains "e = EXCEPT_INVALID_INSTRUCTION" "vm' = vm"
  | t where "optype_of (op_type (code (program vm) (ip vm))) = Some t" "ip vm < TVM_PROGRAM_CAPACITY"
      "exec_op t env (operand (code (program vm) (ip vm))) vm = Some (e, vm')"
  using assms by (auto simp: tvm_exec_opcode_def Let_def split: if_splits option.splits)

lemma exec_opcode_atomic:
  "tvm_exec_opcode env vm = Some (e, vm') \<Longrightarrow> e \<noteq> EXCEPT_OK \<Longrightarrow> vm' = vm"
  by (erule exec_opcode_cases) (auto dest: runs_as_exc [OF exec_op_effect])

lemma exec_opcode_effect:
  assumes "tvm_exec_opcode env vm = Some (EXCEPT_OK, vm')"
  obtains t where "optype_of (op_type (code (program vm) (ip vm))) = Some t"
    and "exec_op t env (operand (code (program vm) (ip vm))) vm = Some (EXCEPT_OK, vm')"
    and "effect t (operand (code (program vm) (ip vm))) vm vm'"
  using assms by (elim exec_opcode_cases) (auto dest: runs_as_ok [OF exec_op_effect])

end
