(* ===== verification/Tvm_Invariants.thy ===== *)
theory Tvm_Invariants
  imports Tvm_Effects
begin

text \<open>
  The invariant of the virtual machine and its preservation by every instruction, and the calls as
  a last-in first-out structure: a procedure's activation is its local variables with its return
  address, and whatever a procedure and its callees do, the activations below are untouched.

  The locale \<open>vm_world\<close> is the contract of the machine's environment: an allocator that keeps its
  promise, and native functions that leave the C heap well-formed and do not free what the
  machine allocated.
\<close>

locale vm_world = allocator "policy_of env" for env :: vm_env +
  assumes native_law: "mem_ok m \<Longrightarrow> ffi_call_c (ffi env) c f args m = Some (r, m', msg) \<Longrightarrow>
      mem_ok m' \<and> chunks m \<subseteq>\<^sub>m chunks m'"

definition vm_ok :: "machine \<Rightarrow> bool" where
  "vm_ok vm \<longleftrightarrow>
     sp vm \<le> TVM_STACK_CAPACITY \<and> rsp vm \<le> RETURN_STACK_CAPACITY \<and>
     frames_ok (frames vm) (frame vm) (rsp vm) \<and>
     (\<forall>i < rsp vm. return_stack vm i \<le> prog_size (program vm) + 1) \<and>
     mem_ok (mem vm) \<and> heap_ok (mem vm) (heap vm)"

lemma vm_ok_init: "mem_ok m \<Longrightarrow> vm_ok (tvm_init m)"
proof -
  assume m: "mem_ok m"
  have "chain_of (frames (tvm_init m)) (frame (tvm_init m)) 0 [1]"
    by (simp add: chain_of_def tvm_init_def tvm_frame_init_def)
  with m show ?thesis
    by (auto simp: vm_ok_def frames_ok_def tvm_init_def tvm_frame_init_def heap_ok_empty)
qed

lemma vm_ok_load:
  "vm_ok vm \<Longrightarrow> rsp vm = 0 \<Longrightarrow> tvm_load_program_from_memory ops n vm = Some vm' \<Longrightarrow> vm_ok vm'"
  by (auto simp: vm_ok_def tvm_load_program_from_memory_def split: if_splits)

text \<open>What the invariant reads from the state.\<close>

lemma vm_ok_cong:
  assumes "sp vm' \<le> TVM_STACK_CAPACITY" and "rsp vm' = rsp vm" and "frames vm' = frames vm"
    and "frame vm' = frame vm" and "return_stack vm' = return_stack vm"
    and "program vm' = program vm" and "mem_ok (mem vm')" and "heap_ok (mem vm') (heap vm')"
    and "vm_ok vm"
  shows "vm_ok vm'"
  using assms by (simp add: vm_ok_def)

lemma heap_ok_chunks: "heap_ok m h \<Longrightarrow> chunks m \<subseteq>\<^sub>m chunks m' \<Longrightarrow> heap_ok m' h"
  by (auto simp: heap_ok_def arr_ok_def map_le_def dom_def split: if_splits)

lemma case_not_exited:
  "(case z of Inl n \<Rightarrow> Some (Inl n) | Inr x \<Rightarrow> F x) = Some (Inr y) \<longleftrightarrow>
     (\<exists>x. z = Inr x \<and> F x = Some (Inr y))"
  by (cases z) auto

context vm_world
begin

lemma native_call_ok:
  assumes "mem_ok m" and "tci_native_call (ffi env) t p f args m = Some (Inr (r, m', msg))"
  shows "mem_ok m' \<and> chunks m \<subseteq>\<^sub>m chunks m'"
  using assms by (auto simp: tci_native_call_def Let_def case_not_exited dest: native_law
    split: if_splits)

lemma memory_kept:
  assumes ok: "vm_ok vm" and run: "exec_op t env opnd vm = Some (EXCEPT_OK, vm')"
  shows "mem_ok (mem vm') \<and> heap_ok (mem vm') (heap vm')"
proof -
  have m: "mem_ok (mem vm)" "heap_ok (mem vm) (heap vm)" using ok by (simp_all add: vm_ok_def)
  consider "t = OP_HALLOC" | "t = OP_HSET \<or> t = OP_HSETOF" | "t = OP_NATIVE"
    | "t \<notin> {OP_HALLOC, OP_HSET, OP_HSETOF, OP_NATIVE}" by auto
  then show ?thesis
  proof cases
    case 1
    with run have "halloc_eff env vm vm'"
      using runs_as_ok [OF op_halloc_runs, of env vm vm'] by simp
    then obtain a where "tgc_create_block (policy_of env) (junk_of env) (mem vm) (heap vm)
        (unat (ui32 (top_obj 2 vm))) (unat (ui32 (top_obj 1 vm))) = Some (a, mem vm', heap vm')"
      by (auto simp: halloc_eff_def)
    moreover have "unat (ui32 ob) < 2 ^ 64" for ob
      by (rule less_trans [OF unat_u32_less]) simp
    ultimately show ?thesis using create_block_ok(1,2) [OF m] by blast
  next
    case 2
    with run have "hset_eff vm vm'"
      using runs_as_ok [OF op_hset_runs] runs_as_ok [OF op_hsetof_runs] by auto
    then obtain a bs where w: "mem_write (mem vm) a bs = Some (mem vm')" and h: "heap vm' = heap vm"
      by (auto simp: hset_eff_def)
    with write_ok [OF m(1) w] m(2) show ?thesis
      by (simp add: heap_ok_def arr_ok_def mem_write_keeps(1) [OF w])
  next
    case 3
    with run have "native_eff env opnd vm vm'" using runs_as_ok [OF op_native_runs] by simp
    then show ?thesis
      using native_call_ok [OF m(1)] heap_ok_chunks [OF m(2)] by (auto simp: native_eff_def)
  next
    case 4
    with runs_as_ok [OF exec_op_effect run] have "same_mem vm vm'" by (simp add: effect_def)
    with m show ?thesis by (simp add: same_mem_def)
  qed
qed

text \<open>Every instruction keeps the invariant.\<close>

lemma exec_op_ok:
  assumes ok: "vm_ok vm" and ip: "ip vm \<le> prog_size (program vm)"
    and run: "exec_op t env opnd vm = Some (EXCEPT_OK, vm')"
  shows "vm_ok vm'"
proof -
  note eff = runs_as_ok [OF exec_op_effect run]
  note mem' = memory_kept [OF ok run]
  have sp': "sp vm' \<le> TVM_STACK_CAPACITY"
    using eff ok by (simp add: effect_def stack_eff_def vm_ok_def)
  consider "t = OP_CALL" | "t = OP_RET" | "t = OP_STORE" | "t \<notin> {OP_CALL, OP_RET, OP_STORE}"
    by auto
  then show ?thesis
  proof cases
    case 1
    with run have c: "call_eff opnd vm vm'" using runs_as_ok [OF op_call_runs] by simp
    with frames_ok_next [of "frames vm" "frame vm" "rsp vm"] ok ip show ?thesis
      by (auto simp: call_eff_def vm_ok_def less_Suc_eq)
  next
    case 2
    with run have c: "ret_eff vm vm'" using runs_as_ok [OF op_ret_runs] by simp
    then obtain d where d: "rsp vm = Suc d" by (cases "rsp vm") (auto simp: ret_eff_def)
    from c frames_ok_prev [of "frames vm" "frame vm" d] ok show ?thesis
      by (auto simp: ret_eff_def vm_ok_def d)
  next
    case 3
    with run have c: "store_eff opnd vm vm'" using runs_as_ok [OF op_store_runs] by simp
    with frames_ok_set [of "frames vm" "frame vm" "rsp vm" "unat (ui32 opnd)" "top_obj 1 vm"] ok
      sp' mem' show ?thesis
      by (auto simp: store_eff_def vm_ok_def eff_defs)
  next
    case 4
    with eff mem' sp' show ?thesis
      by (intro vm_ok_cong [OF sp' _ _ _ _ _ _ _ ok]) (auto simp: effect_def eff_defs)
  qed
qed

lemma exec_opcode_ok:
  assumes "vm_ok vm" and "ip vm \<le> prog_size (program vm)"
    and "tvm_exec_opcode env vm = Some (e, vm')"
  shows "vm_ok vm'"
  using assms(3)
proof (cases rule: exec_opcode_cases)
  case (2 t)
  with assms exec_op_ok [of vm t] runs_as_exc [OF exec_op_effect 2(3)] show ?thesis
    by (cases "e = EXCEPT_OK") auto
qed (use assms in simp)

text \<open>Control stays inside the program, or one instruction past its end.\<close>

lemma exec_opcode_ip:
  assumes ok: "vm_ok vm" and ip: "ip vm \<le> prog_size (program vm)"
    and run: "tvm_exec_opcode env vm = Some (EXCEPT_OK, vm')"
  shows "ip vm' \<le> prog_size (program vm') + 1"
  using run
proof (cases rule: exec_opcode_effect)
  case (1 t)
  note eff = 1(3)
  consider "t = OP_JMP" | "t = OP_JZ \<or> t = OP_JNZ" | "t = OP_CALL" | "t = OP_RET"
    | "t \<notin> {OP_JMP, OP_JZ, OP_JNZ, OP_CALL, OP_RET}" by auto
  then show ?thesis
  proof cases
    case 1
    with \<open>exec_op t _ _ _ = _\<close> have "jmp_eff (operand (code (program vm) (ip vm))) vm vm'"
      using runs_as_ok [OF op_jmp_runs] by simp
    then show ?thesis by (auto simp: jmp_eff_def)
  next
    case 2
    with \<open>exec_op t _ _ _ = _\<close> have "jump_eff (operand (code (program vm) (ip vm))) vm vm'"
      using runs_as_ok [OF jump_if_runs] by (auto simp: op_jz_def op_jnz_def)
    with ip show ?thesis by (auto simp: jump_eff_def same_const_def)
  next
    case 3
    with \<open>exec_op t _ _ _ = _\<close> have "call_eff (operand (code (program vm) (ip vm))) vm vm'"
      using runs_as_ok [OF op_call_runs] by simp
    then show ?thesis by (auto simp: call_eff_def)
  next
    case 4
    with \<open>exec_op t _ _ _ = _\<close> have "ret_eff vm vm'" using runs_as_ok [OF op_ret_runs] by simp
    with ok show ?thesis by (auto simp: ret_eff_def vm_ok_def)
  next
    case 5
    with eff ip show ?thesis by (auto simp: effect_def same_const_def)
  qed
qed

end

subsection \<open>Activations\<close>

definition return_addrs :: "machine \<Rightarrow> nat list" where
  "return_addrs vm = map (return_stack vm) (rev [0..<rsp vm])"

text \<open>The local variables of every active procedure with its return address, innermost first. The
  outermost code has no return address.\<close>

definition activations :: "machine \<Rightarrow> (vars \<times> nat option) list" where
  "activations vm =
     zip (frame_walk (frames vm) (frame vm) (rsp vm)) (map Some (return_addrs vm) @ [None])"

lemma activations_call:
  assumes ok: "vm_ok vm" and c: "call_eff opnd vm vm'"
  shows "activations vm' = (zero_vars, Some (ip vm + 1)) # activations vm"
proof -
  obtain fr fs where n: "tvm_frame_next (frames vm) (frame vm) = Some (fr, fs)"
    and vm': "vm' = vm\<lparr>return_stack := (return_stack vm)(rsp vm := ip vm + 1), rsp := rsp vm + 1,
                ip := unat (ui32 opnd), frame := fr, frames := fs\<rparr>"
    using c by (auto simp: call_eff_def)
  have "return_addrs vm' = (ip vm + 1) # return_addrs vm"
    by (simp add: return_addrs_def vm')
  moreover have "frame_walk (frames vm') (frame vm') (rsp vm') =
      zero_vars # frame_walk (frames vm) (frame vm) (rsp vm)"
    using frames_ok_next [of "frames vm" "frame vm" "rsp vm"] ok n
    by (auto simp: vm_ok_def vm' simp del: frame_walk.simps)
  ultimately show ?thesis by (simp add: activations_def)
qed

lemma activations_ret:
  assumes ok: "vm_ok vm" and c: "ret_eff vm vm'"
  shows "activations vm' = tl (activations vm)"
    and "\<exists>vs. hd (activations vm) = (vs, Some (ip vm'))"
proof -
  obtain d where d: "rsp vm = Suc d" using c by (cases "rsp vm") (auto simp: ret_eff_def)
  obtain fr fs where p: "tvm_frame_prev (frames vm) (frame vm) = Some (fr, fs)"
    and vm': "vm' = vm\<lparr>rsp := d, ip := return_stack vm d, frame := fr, frames := fs\<rparr>"
    using c d by (auto simp: ret_eff_def)
  have r: "return_addrs vm = ip vm' # return_addrs vm'"
    by (simp add: return_addrs_def vm' d)
  have f: "frames_ok (frames vm) (frame vm) (Suc d)" using ok d by (simp add: vm_ok_def)
  have w: "frame_walk (frames vm') (frame vm') (rsp vm') = tl (frame_walk (frames vm) (frame vm) (rsp vm))"
    using frames_ok_prev [OF f] p by (auto simp: vm' d simp del: frame_walk.simps)
  obtain v ws where v: "frame_walk (frames vm) (frame vm) (rsp vm) = v # ws"
    using length_frame_walk [OF f] by (cases "frame_walk (frames vm) (frame vm) (rsp vm)") (auto simp: d)
  show "activations vm' = tl (activations vm)" "\<exists>vs. hd (activations vm) = (vs, Some (ip vm'))"
    by (simp_all add: activations_def w r v)
qed

lemma activations_other:
  assumes ok: "vm_ok vm" and t: "t \<notin> {OP_CALL, OP_RET}"
    and run: "exec_op t env opnd vm = Some (EXCEPT_OK, vm')"
  shows "\<exists>vs. activations vm' = (vs, snd (hd (activations vm))) # tl (activations vm)"
proof -
  note eff = runs_as_ok [OF exec_op_effect run]
  have f: "frames_ok (frames vm) (frame vm) (rsp vm)" using ok by (simp add: vm_ok_def)
  have r: "return_addrs vm' = return_addrs vm" "rsp vm' = rsp vm" "frame vm' = frame vm"
    using eff t by (auto simp: effect_def return_addrs_def same_calls_def)
  obtain v ws where v: "frame_walk (frames vm) (frame vm) (rsp vm) = v # ws"
    using length_frame_walk [OF f] by (cases "frame_walk (frames vm) (frame vm) (rsp vm)") auto
  obtain w where w: "frame_walk (frames vm') (frame vm') (rsp vm') = w # ws"
  proof (cases "t = OP_STORE")
    case True
    with run have "store_eff opnd vm vm'" using runs_as_ok [OF op_store_runs] by simp
    with frames_ok_set [OF f, of "unat (ui32 opnd)" "top_obj 1 vm"] show ?thesis
      by (auto simp: store_eff_def r v intro: that)
  next
    case False
    with eff t have "frames vm' = frames vm" by (simp add: effect_def)
    with v r show ?thesis by (auto intro: that)
  qed
  show ?thesis
    using w by (cases "map Some (return_addrs vm) @ [None]") (auto simp: activations_def v r)
qed

lemma length_activations: "vm_ok vm \<Longrightarrow> length (activations vm) = rsp vm + 1"
  using length_frame_walk [of "frames vm" "frame vm" "rsp vm"]
  by (simp add: vm_ok_def activations_def return_addrs_def)

end
