(* ===== verification/Tvm_Refine.thy ===== *)
theory Tvm_Refine
  imports Tvm_Invariants
begin

text \<open>
  The abstract machine that a programmer of the instruction set has in mind: a stack of 32-bit
  values as a list, top first, with the arithmetic of the integers and of the floats. The
  instructions of \<open>Tvm_Exec\<close> that work on the operand stack refine it: \<open>vals\<close> maps a machine to
  its abstract stack, and running the instruction and then abstracting is the same as abstracting
  and taking the abstract step, exceptions included.
\<close>

type_synonym abs_result = "(exception_t + u32 list) option"

definition vals :: "machine \<Rightarrow> u32 list" where
  "vals vm = map (\<lambda>i. ui32 (stack vm i)) (rev [0..<sp vm])"

definition abs_result :: "step_result \<Rightarrow> abs_result" where
  "abs_result r = map_option (\<lambda>(e, vm). if e = EXCEPT_OK then Inr (vals vm) else Inl e) r"

text \<open>The abstract steps. The result of an integer operation is the integer, reduced to 32 bits.\<close>

fun abs_binary :: "bool \<Rightarrow> (u32 \<Rightarrow> u32 \<Rightarrow> u32 option) \<Rightarrow> u32 list \<Rightarrow> abs_result" where
  "abs_binary full f (b # a # s) =
     (if full \<and> TVM_STACK_CAPACITY \<le> length (b # a # s) then Some (Inl EXCEPT_STACK_OVERFLOW)
      else map_option (\<lambda>r. Inr (r # s)) (f a b))"
| "abs_binary full f s = Some (Inl EXCEPT_STACK_UNDERFLOW)"

fun abs_division :: "(int \<Rightarrow> int \<Rightarrow> int) \<Rightarrow> u32 list \<Rightarrow> abs_result" where
  "abs_division f (b # a # s) =
     (if TVM_STACK_CAPACITY \<le> length (b # a # s) then Some (Inl EXCEPT_STACK_OVERFLOW)
      else if sint b = 0 then Some (Inl EXCEPT_DIVISION_BY_ZERO)
      else if sint a = - (2 ^ 31) \<and> sint b = - 1 then None
      else Some (Inr (word_of_int (f (sint a) (sint b)) # s)))"
| "abs_division f s = Some (Inl EXCEPT_STACK_UNDERFLOW)"

fun abs_unary :: "(u32 \<Rightarrow> u32 option) \<Rightarrow> u32 list \<Rightarrow> abs_result" where
  "abs_unary f (a # s) = map_option (\<lambda>r. Inr (r # s)) (f a)"
| "abs_unary f [] = Some (Inl EXCEPT_STACK_UNDERFLOW)"

definition abs_push :: "u32 \<Rightarrow> u32 list \<Rightarrow> abs_result" where
  "abs_push v s = (if TVM_STACK_CAPACITY \<le> length s then Some (Inl EXCEPT_STACK_OVERFLOW)
     else Some (Inr (v # s)))"

definition int_fun :: "(int \<Rightarrow> int \<Rightarrow> int) \<Rightarrow> u32 \<Rightarrow> u32 \<Rightarrow> u32 option" where
  "int_fun f a b = Some (word_of_int (f (sint a) (sint b)))"

definition int_test :: "(int \<Rightarrow> int \<Rightarrow> bool) \<Rightarrow> u32 \<Rightarrow> u32 \<Rightarrow> u32 option" where
  "int_test f a b = Some (if f (sint a) (sint b) then 1 else 0)"

definition f32_test :: "(u32 \<Rightarrow> u32 \<Rightarrow> bool) \<Rightarrow> u32 \<Rightarrow> u32 \<Rightarrow> u32 option" where
  "f32_test f a b = Some (if f a b then 1 else 0)"

definition shift_fun :: "(int \<Rightarrow> nat \<Rightarrow> int) \<Rightarrow> u32 \<Rightarrow> u32 \<Rightarrow> u32 option" where
  "shift_fun f a b = (if sint b \<in> {0..<32} then Some (word_of_int (f (sint a) (nat (sint b)))) else None)"

text \<open>\<open>None\<close> for an instruction that is not about the operand stack alone.\<close>

fun abs_step :: "optype_t \<Rightarrow> u32 \<Rightarrow> (u32 list \<Rightarrow> abs_result) option" where
  "abs_step OP_NOP v = Some (\<lambda>s. Some (Inr s))"
| "abs_step OP_PUSH v = Some (abs_push v)"
| "abs_step OP_POP v = Some (\<lambda>s. case s of [] \<Rightarrow> Some (Inl EXCEPT_STACK_UNDERFLOW) | a # r \<Rightarrow> Some (Inr r))"
| "abs_step OP_DUP v = Some (\<lambda>s. case s of [] \<Rightarrow> Some (Inl EXCEPT_STACK_UNDERFLOW) | a # r \<Rightarrow> abs_push a s)"
| "abs_step OP_CLN v = Some (\<lambda>s. if unat v < length s then abs_push (s ! unat v) s
     else Some (Inl EXCEPT_INVALID_STACK_ACCESS))"
| "abs_step OP_SWAP v = Some (\<lambda>s. if unat v < length s
     then if length s < 2 then Some (Inl EXCEPT_STACK_UNDERFLOW)
       else Some (Inr (s[0 := s ! unat v, unat v := s ! 0]))
     else Some (Inl EXCEPT_INVALID_STACK_ACCESS))"
| "abs_step OP_ADD v = Some (abs_binary True (int_fun (+)))"
| "abs_step OP_SUB v = Some (abs_binary True (int_fun (-)))"
| "abs_step OP_MULT v = Some (abs_binary True (int_fun (*)))"
| "abs_step OP_DIV v = Some (abs_division c_div)"
| "abs_step OP_MOD v = Some (abs_division c_mod)"
| "abs_step OP_INC v = Some (abs_unary (\<lambda>a. int_fun (+) a 1))"
| "abs_step OP_DEC v = Some (abs_unary (\<lambda>a. int_fun (-) a 1))"
| "abs_step OP_ADDF v = Some (abs_binary True (\<lambda>a b. Some (f32_add a b)))"
| "abs_step OP_SUBF v = Some (abs_binary True (\<lambda>a b. Some (f32_sub a b)))"
| "abs_step OP_MULTF v = Some (abs_binary True (\<lambda>a b. Some (f32_mul a b)))"
| "abs_step OP_DIVF v = Some (abs_binary True (\<lambda>a b. Some (f32_div a b)))"
| "abs_step OP_INCF v = Some (abs_unary (\<lambda>a. Some (f32_add a f32_one)))"
| "abs_step OP_DECF v = Some (abs_unary (\<lambda>a. Some (f32_sub a f32_one)))"
| "abs_step OP_CI2F v = Some (abs_unary (\<lambda>a. Some (f32_of_int (sint a))))"
| "abs_step OP_CI2U v = Some (abs_unary Some)"
| "abs_step OP_CF2I v = Some (abs_unary i32_of_f32)"
| "abs_step OP_CF2U v = Some (abs_unary u32_of_f32)"
| "abs_step OP_CU2I v = Some (abs_unary Some)"
| "abs_step OP_CU2F v = Some (abs_unary (\<lambda>a. Some (f32_of_int (uint a))))"
| "abs_step OP_GT v = Some (abs_binary True (int_test (>)))"
| "abs_step OP_LT v = Some (abs_binary True (int_test (<)))"
| "abs_step OP_EQ v = Some (abs_binary True (int_test (=)))"
| "abs_step OP_GE v = Some (abs_binary True (int_test (\<ge>)))"
| "abs_step OP_LE v = Some (abs_binary True (int_test (\<le>)))"
| "abs_step OP_GTF v = Some (abs_binary True (f32_test (\<lambda>a b. f32_less b a)))"
| "abs_step OP_LTF v = Some (abs_binary True (f32_test f32_le))"
| "abs_step OP_EQF v = Some (abs_binary True (f32_test f32_eq))"
| "abs_step OP_GEF v = Some (abs_binary True (f32_test (\<lambda>a b. f32_le b a)))"
| "abs_step OP_LEF v = Some (abs_binary True (f32_test f32_le))"
| "abs_step OP_AND v = Some (abs_binary True (int_test (\<lambda>a b. a \<noteq> 0 \<and> b \<noteq> 0)))"
| "abs_step OP_OR v = Some (abs_binary True (int_test (\<lambda>a b. a \<noteq> 0 \<or> b \<noteq> 0)))"
| "abs_step OP_NOT v = Some (abs_unary (\<lambda>a. Some (if a = 0 then 1 else 0)))"
| "abs_step OP_BAND v = Some (abs_binary False (int_fun (AND)))"
| "abs_step OP_BOR v = Some (abs_binary False (int_fun (OR)))"
| "abs_step OP_BNOT v = Some (abs_unary (\<lambda>a. Some (word_of_int (- sint a - 1))))"
| "abs_step OP_LSHFT v = Some (abs_binary False (shift_fun (\<lambda>a n. a * 2 ^ n)))"
| "abs_step OP_RSHFT v = Some (abs_binary False (shift_fun (\<lambda>a n. a div 2 ^ n)))"
| "abs_step t v = None"

subsection \<open>The abstraction function\<close>

lemma length_values [simp]: "length (vals vm) = sp vm"
  by (simp add: vals_def)

lemma nth_values: "k < sp vm \<Longrightarrow> vals vm ! k = ui32 (stack vm (sp vm - 1 - k))"
  by (simp add: vals_def rev_nth)

lemma values_eqI:
  assumes "sp vm = length s" and "\<And>k. k < length s \<Longrightarrow> ui32 (stack vm (sp vm - 1 - k)) = s ! k"
  shows "vals vm = s"
  by (rule nth_equalityI) (use assms in \<open>simp_all add: nth_values\<close>)

text \<open>The top of the stack in front of the rest.\<close>

lemma values_split1:
  "1 \<le> sp vm \<Longrightarrow> vals vm = ui32 (top_obj 1 vm) # map (\<lambda>i. ui32 (stack vm i)) (rev [0..<sp vm - 1])"
  by (cases "sp vm") (simp_all add: vals_def top_obj_def)

lemma values_split2:
  assumes "2 \<le> sp vm"
  shows "vals vm = ui32 (top_obj 1 vm) # ui32 (top_obj 2 vm) #
      map (\<lambda>i. ui32 (stack vm i)) (rev [0..<sp vm - 2])"
proof -
  obtain n where "sp vm = Suc (Suc n)" using assms by (metis add_2_eq_Suc le_Suc_ex)
  then show ?thesis by (simp add: vals_def top_obj_def)
qed

lemma values_next_ip [simp]: "vals (next_ip vm) = vals vm"
  by (simp add: vals_def next_ip_def)

lemma values_push [simp]: "vals (push_obj ob vm) = ui32 ob # vals vm"
  by (simp add: vals_def push_obj_def)

lemma abs_result_simps [simp]:
  "abs_result None = None" "abs_result (ok vm) = Some (Inr (vals vm))"
  "e \<noteq> EXCEPT_OK \<Longrightarrow> abs_result (exc e vm) = Some (Inl e)"
  by (simp_all add: abs_result_def ok_def exc_def)

subsection \<open>The combinators refine the abstract steps\<close>

lemma bin_op_refines: "abs_result (bin_op full f vm) = abs_binary full f (vals vm)"
proof (cases "sp vm < 2")
  case True
  then have "vals vm = [] \<or> (\<exists>a. vals vm = [a])"
    using length_values [of vm] by (cases "vals vm"; cases "tl (vals vm)") auto
  with True show ?thesis by (auto simp: bin_op_def)
next
  case False
  then have sp: "2 \<le> sp vm" by simp
  have "vals (next_ip ((set_top 2 (set_ui32 r (top_obj 2 vm)) vm)\<lparr>sp := sp vm - 1\<rparr>)) =
      r # map (\<lambda>i. ui32 (stack vm i)) (rev [0..<sp vm - 2])" for r
  proof -
    obtain n where n: "sp vm = Suc (Suc n)" using sp by (metis add_2_eq_Suc le_Suc_ex)
    show ?thesis by (simp add: vals_def set_top_def next_ip_def n)
  qed
  moreover have "Suc (Suc (sp vm - 2)) = sp vm" using sp by linarith
  ultimately show ?thesis
    using sp by (cases "f (ui32 (top_obj 2 vm)) (ui32 (top_obj 1 vm))")
      (simp_all add: bin_op_def values_split2 [OF sp])
qed

lemma un_op_refines: "abs_result (un_op f vm) = abs_unary f (vals vm)"
proof (cases "sp vm < 1")
  case True
  then have "vals vm = []" using length_values [of vm] by (cases "vals vm") auto
  with True show ?thesis by (simp add: un_op_def)
next
  case False
  then have sp: "1 \<le> sp vm" by simp
  have "vals (next_ip (set_top 1 (set_ui32 r (top_obj 1 vm)) vm)) =
      r # map (\<lambda>i. ui32 (stack vm i)) (rev [0..<sp vm - 1])" for r
    using sp by (cases "sp vm") (simp_all add: vals_def set_top_def next_ip_def)
  then show ?thesis
    using sp by (cases "f (ui32 (top_obj 1 vm))") (simp_all add: un_op_def values_split1 [OF sp])
qed

lemma sint_eq_0: "sint (a :: u32) = 0 \<longleftrightarrow> a = 0"
  by (metis signed_0 signed_word_eqI)

lemma div_op_refines:
  assumes "\<And>a b. f a b = (if sint b = 0 \<or> (sint a = - (2 ^ 31) \<and> sint b = - 1) then None
      else Some (word_of_int (g (sint a) (sint b))))"
  shows "abs_result (div_op f vm) = abs_division g (vals vm)"
proof (cases "sp vm < 2")
  case True
  then have "vals vm = [] \<or> (\<exists>a. vals vm = [a])"
    using length_values [of vm] by (cases "vals vm"; cases "tl (vals vm)") auto
  with True show ?thesis by (auto simp: div_op_def)
next
  case False
  then have sp: "2 \<le> sp vm" by simp
  have len: "length (vals vm) = sp vm" by simp
  show ?thesis
  proof (cases "TVM_STACK_CAPACITY \<le> sp vm \<or> ui32 (top_obj 1 vm) = 0")
    case True
    with sp len show ?thesis
      unfolding values_split2 [OF sp] by (auto simp: div_op_def)
  next
    case ok: False
    then have "div_op f vm = bin_op True f vm" using sp by (simp add: div_op_def)
    then have "abs_result (div_op f vm) = abs_binary True f (vals vm)"
      by (simp add: bin_op_refines)
    with ok sp len show ?thesis
      unfolding values_split2 [OF sp] by (auto simp: assms sint_eq_0)
  qed
qed

lemma op_pop_refines:
  "abs_result (op_pop vm) =
    (case vals vm of [] \<Rightarrow> Some (Inl EXCEPT_STACK_UNDERFLOW) | a # r \<Rightarrow> Some (Inr r))"
proof (cases "sp vm")
  case 0
  then show ?thesis using length_values [of vm] by (cases "vals vm") (auto simp: op_pop_def)
next
  case (Suc n)
  then show ?thesis by (simp add: op_pop_def vals_def next_ip_def)
qed

lemma op_dup_refines:
  "abs_result (op_dup vm) = (case vals vm of [] \<Rightarrow> Some (Inl EXCEPT_STACK_UNDERFLOW)
     | a # r \<Rightarrow> abs_push a (vals vm))"
proof (cases "sp vm")
  case 0
  then show ?thesis using length_values [of vm] by (cases "vals vm") (auto simp: op_dup_def)
next
  case (Suc n)
  then show ?thesis
    using length_values [of vm] values_split1 [of vm] by (auto simp: op_dup_def abs_push_def)
qed

lemma op_cln_refines:
  assumes "sp vm \<le> TVM_STACK_CAPACITY"
  shows "abs_result (op_cln opnd vm) = (if unat (ui32 opnd) < length (vals vm)
     then abs_push (vals vm ! unat (ui32 opnd)) (vals vm)
     else Some (Inl EXCEPT_INVALID_STACK_ACCESS))"
  using assms by (auto simp: op_cln_def abs_push_def nth_values top_obj_def capacities)

lemma op_swap_refines:
  assumes "sp vm \<le> TVM_STACK_CAPACITY"
  shows "abs_result (op_swap opnd vm) = (if unat (ui32 opnd) < length (vals vm)
     then if length (vals vm) < 2 then Some (Inl EXCEPT_STACK_UNDERFLOW)
       else Some (Inr ((vals vm)[0 := vals vm ! unat (ui32 opnd), unat (ui32 opnd) := vals vm ! 0]))
     else Some (Inl EXCEPT_INVALID_STACK_ACCESS))"
proof -
  define k where "k = unat (ui32 opnd)"
  have "vals (set_top (k + 1) (top_obj 1 vm) (set_top 1 (top_obj (k + 1) vm) vm)) =
      (vals vm)[0 := vals vm ! k, k := vals vm ! 0]" if k: "k < sp vm" and s: "2 \<le> sp vm"
  proof (rule values_eqI)
    show "sp (set_top (k + 1) (top_obj 1 vm) (set_top 1 (top_obj (k + 1) vm) vm)) =
        length ((vals vm)[0 := vals vm ! k, k := vals vm ! 0])"
      by (simp add: set_top_def)
    fix i assume "i < length ((vals vm)[0 := vals vm ! k, k := vals vm ! 0])"
    then have i: "i < sp vm" by simp
    then have "sp vm - Suc i = sp vm - Suc j \<longleftrightarrow> i = j" if "j < sp vm" for j
      using that by linarith
    from this [of 0] this [of k] k s i
    show "ui32 (stack (set_top (k + 1) (top_obj 1 vm) (set_top 1 (top_obj (k + 1) vm) vm))
        (sp (set_top (k + 1) (top_obj 1 vm) (set_top 1 (top_obj (k + 1) vm) vm)) - 1 - i)) =
        (vals vm)[0 := vals vm ! k, k := vals vm ! 0] ! i"
      by (auto simp: set_top_def top_obj_def nth_values nth_list_update)
  qed
  with assms show ?thesis
    by (auto simp: op_swap_def k_def [symmetric] Let_def capacities)
qed

subsection \<open>The instructions\<close>

lemma int_fun_words:
  "int_fun (+) = (\<lambda>a b. Some (a + b))" "int_fun (-) = (\<lambda>a b. Some (a - b))"
  "int_fun (*) = (\<lambda>a b. Some (a * b))"
  by (simp_all add: int_fun_def fun_eq_iff)

lemma int_fun_bits:
  "int_fun (AND) = (\<lambda>a b. Some (a AND b))" "int_fun (OR) = (\<lambda>a b. Some (a OR b))"
  by (auto simp: int_fun_def fun_eq_iff bit_simps bit_eq_iff)

lemma nat_sint: "0 \<le> sint (b :: u32) \<Longrightarrow> nat (sint b) = unat b"
proof -
  assume b: "0 \<le> sint b"
  have "sint b < 2 ^ 31" using sint_lt [of b] by simp
  with b have "sint b mod 2 ^ 32 = sint b" by simp
  moreover have "uint b = sint b mod 2 ^ 32"
    using uint_word_of_int [of "sint b", where ?'a = 32] by simp
  ultimately show ?thesis by (simp add: unat_eq_nat_uint)
qed

lemma shift_fun_left: "shift_fun (\<lambda>a n. a * 2 ^ n) a b = lshft_i32 a b"
  by (auto simp: shift_fun_def lshft_i32_def nat_sint push_bit_eq_mult)

lemma shift_fun_right: "shift_fun (\<lambda>a n. a div 2 ^ n) a b = rshft_i32 a b"
proof -
  have "word_of_int (sint a div 2 ^ n) = signed_drop_bit n a" for n
  proof -
    have "signed_drop_bit n a = word_of_int (sint (signed_drop_bit n a))" by simp
    then show ?thesis by (simp only: sint_signed_drop_bit_eq drop_bit_eq_div)
  qed
  then show ?thesis by (auto simp: shift_fun_def rshft_i32_def nat_sint)
qed

lemma tests_c_bool:
  "int_test f = (\<lambda>a b. Some (c_bool (f (sint a) (sint b))))"
  "f32_test g = (\<lambda>a b. Some (c_bool (g a b)))"
  by (auto simp: int_test_def f32_test_def c_bool_def fun_eq_iff)

lemma bnot_int: "(\<lambda>a. Some (word_of_int (- sint a - 1))) = (\<lambda>a :: u32. Some (NOT a))"
  by (simp add: not_eq_complement fun_eq_iff)

lemma not_int: "(\<lambda>a :: u32. Some (if a = 0 then 1 else 0)) = (\<lambda>a. Some (c_bool (sint a = 0)))"
  by (simp add: c_bool_def sint_eq_0 fun_eq_iff)

lemma of_int_words: "(\<lambda>a. Some (word_of_int (sint a))) = (Some :: u32 \<Rightarrow> _)"
  "(\<lambda>a. Some (word_of_int (uint a))) = (Some :: u32 \<Rightarrow> _)"
  by (simp_all add: fun_eq_iff)

lemma exec_op_refines:
  assumes "sp vm \<le> TVM_STACK_CAPACITY" and "abs_step t (ui32 opnd) = Some f"
  shows "abs_result (exec_op t env opnd vm) = f (vals vm)"
proof -
  have shifts: "shift_fun (\<lambda>a n. a * 2 ^ n) = lshft_i32" "shift_fun (\<lambda>a n. a div 2 ^ n) = rshft_i32"
    by (simp_all add: fun_eq_iff shift_fun_left shift_fun_right)
  note ops = alu2_defs alu1_defs bin_op_refines un_op_refines shifts tests_c_bool bnot_int
    not_int int_fun_words int_fun_bits of_int_words
  have div: "abs_result (op_div vm) = abs_division c_div (vals vm)"
    unfolding op_div_def by (rule div_op_refines) (simp add: div_i32_def)
  have mod: "abs_result (op_mod vm) = abs_division c_mod (vals vm)"
    unfolding op_mod_def by (rule div_op_refines) (simp add: mod_i32_def)
  show ?thesis
  proof (cases t)
    case OP_CLN
    with assms show ?thesis by (auto simp: op_cln_refines)
  next
    case OP_SWAP
    with assms show ?thesis by (auto simp: op_swap_refines)
  qed (use assms(2) [symmetric] in \<open>simp_all add: div mod op_nop_def op_push_def abs_push_def op_pop_refines
      op_dup_refines ops del: of_int_minus of_int_diff\<close>)
qed

end
