(* ===== verification/Tvm_Run.thy ===== *)
theory Tvm_Run
  imports Tvm_Invariants
begin

text \<open>
  The interpreter loop \<open>tvm_run\<close> of \<open>include/tvm/tvm.h\<close>, as a function with fuel (the number of
  instructions) and as a step relation whose reachable states keep the invariant. Its calls are a
  last-in first-out structure: the contract of \<open>Lifo\<close> holds for the activations of any sequence of
  executed instructions.
\<close>

text \<open>The end of the loop body. The call of the collector after \<open>if (tgc_counter % 20 == 0)\<close> is
  commented out, so that the increment on the next line is what the condition guards.\<close>

definition tick :: "machine \<Rightarrow> machine" where
  "tick vm = (if tgc_counter vm mod 20 = 0 then vm\<lparr>tgc_counter := (tgc_counter vm + 1) mod 2 ^ 32\<rparr>
              else vm)"

definition running :: "machine \<Rightarrow> bool" where
  "running vm \<longleftrightarrow> \<not> halted vm \<and> ip vm \<le> prog_size (program vm)"

datatype run_result = Halted machine | Raised exception_t machine | Running machine

primrec tvm_run_loop :: "nat \<Rightarrow> vm_env \<Rightarrow> machine \<Rightarrow> run_result option" where
  "tvm_run_loop 0 env vm = Some (if running vm then Running vm else Halted vm)"
| "tvm_run_loop (Suc n) env vm =
     (if running vm
      then (case tvm_exec_opcode env vm of
              None \<Rightarrow> None
            | Some (e, vm1) \<Rightarrow>
                if e \<noteq> EXCEPT_OK then Some (Raised e vm1) else tvm_run_loop n env (tick vm1))
      else Some (Halted vm))"

text \<open>After the loop the heap's array and the current frame are freed and a message is printed; an
  exception has ended the process before that (\<open>exit(1)\<close>).\<close>

definition tvm_run :: "nat \<Rightarrow> vm_env \<Rightarrow> machine \<Rightarrow> run_result option" where
  "tvm_run n env vm = do {
     r \<leftarrow> tvm_run_loop n env vm;
     case r of
       Halted vm1 \<Rightarrow> do {
         (m, h) \<leftarrow> tgc_destroy (mem vm1) (heap vm1);
         fs \<leftarrow> tvm_frame_free (frames vm1) (frame vm1);
         Some (Halted (vm1\<lparr>mem := m, heap := h, frames := fs,
           out := out vm1 @ bytes_of ''Program halted '' @ CLR_GREEN @ bytes_of ''succesfully...''
                  @ [10] @ CLR_END\<rparr>)) }
     | Raised e vm1 \<Rightarrow> Some (Raised e vm1)
     | Running vm1 \<Rightarrow> Some (Running vm1) }"

text \<open>\<open>tgc_collect\<close>: the variables of a frame that hold data addresses are marked, then the heap is
  swept. The loop does not call it.\<close>

fun mark_vars :: "memory \<Rightarrow> vars \<Rightarrow> nat list \<Rightarrow> memory option" where
  "mark_vars m vs [] = Some m"
| "mark_vars m vs (i # is) =
     (if obj_type (vs i) = obj_type_code STACK_OBJ_TYPE_DATA_ADDRESS
      then Option.bind (tgc_mark m (unat (ui64 (vs i)))) (\<lambda>m'. mark_vars m' vs is)
      else mark_vars m vs is)"

definition tgc_collect :: "memory \<Rightarrow> gc_heap \<Rightarrow> vars \<Rightarrow> (memory \<times> gc_heap \<times> bytes) option" where
  "tgc_collect m h root = do {
     m1 \<leftarrow> mark_vars m root [0..<TVM_MAX_LOCAL_VAR];
     tgc_sweep m1 h }"

subsection \<open>Steps and reachable states\<close>

inductive vm_step :: "vm_env \<Rightarrow> machine \<Rightarrow> machine \<Rightarrow> bool" for env where
  vm_stepI: "running vm \<Longrightarrow> tvm_exec_opcode env vm = Some (EXCEPT_OK, vm1) \<Longrightarrow>
    vm_step env vm (tick vm1)"

inductive_cases vm_stepE: "vm_step env vm vm'"
inductive_simps vm_step_iff: "vm_step env vm vm'"

inductive reachable :: "vm_env \<Rightarrow> machine \<Rightarrow> machine \<Rightarrow> bool" for env vm where
  reach_init: "reachable env vm vm"
| reach_step: "reachable env vm vm1 \<Longrightarrow> vm_step env vm1 vm2 \<Longrightarrow> reachable env vm vm2"

lemma tick_simps [simp]:
  "sp (tick vm) = sp vm" "rsp (tick vm) = rsp vm" "stack (tick vm) = stack vm"
  "return_stack (tick vm) = return_stack vm" "frame (tick vm) = frame vm"
  "frames (tick vm) = frames vm" "program (tick vm) = program vm" "ip (tick vm) = ip vm"
  "mem (tick vm) = mem vm" "heap (tick vm) = heap vm" "halted (tick vm) = halted vm"
  "out (tick vm) = out vm" "gframe (tick vm) = gframe vm" "data_ptr (tick vm) = data_ptr vm"
  by (simp_all add: tick_def)

lemma vm_ok_tick [simp]: "vm_ok (tick vm) = vm_ok vm"
  by (simp add: vm_ok_def)

lemma activations_tick [simp]: "activations (tick vm) = activations vm"
  by (simp add: activations_def return_addrs_def)

lemma step_program: "vm_step env vm vm' \<Longrightarrow> program vm' = program vm"
  by (auto elim!: vm_stepE exec_opcode_effect simp: effect_def same_const_def)

lemma reachable_program: "reachable env vm vm' \<Longrightarrow> program vm' = program vm"
  by (induction rule: reachable.induct) (auto dest: step_program)

context vm_world
begin

lemma step_ok: "vm_ok vm \<Longrightarrow> vm_step env vm vm' \<Longrightarrow> vm_ok vm'"
  by (auto elim!: vm_stepE dest: exec_opcode_ok simp: running_def)

lemma step_ip: "vm_ok vm \<Longrightarrow> vm_step env vm vm' \<Longrightarrow> ip vm' \<le> prog_size (program vm') + 1"
  by (auto elim!: vm_stepE dest: exec_opcode_ip simp: running_def)

lemma reachable_ok: "reachable env vm vm' \<Longrightarrow> vm_ok vm \<Longrightarrow> vm_ok vm'"
  by (induction rule: reachable.induct) (auto dest: step_ok)

lemma reachable_ip:
  "reachable env vm vm' \<Longrightarrow> vm_ok vm \<Longrightarrow> ip vm \<le> prog_size (program vm) + 1 \<Longrightarrow>
     ip vm' \<le> prog_size (program vm') + 1"
  by (induction rule: reachable.induct) (use step_ip reachable_ok in blast)+

end

text \<open>The loop runs along steps.\<close>

lemma run_loop_reachable:
  "tvm_run_loop n env vm = Some r \<Longrightarrow>
     (case r of Halted vm' \<Rightarrow> reachable env vm vm' \<and> \<not> running vm'
      | Raised e vm' \<Rightarrow> reachable env vm vm' \<and> running vm' \<and> e \<noteq> EXCEPT_OK \<and>
          tvm_exec_opcode env vm' = Some (e, vm')
      | Running vm' \<Rightarrow> reachable env vm vm' \<and> running vm')"
proof (induction n arbitrary: vm)
  case 0
  then show ?case by (auto intro: reach_init split: if_splits)
next
  case (Suc n)
  have first: "reachable env vm vm2" if "vm_step env vm vm1" "reachable env vm1 vm2" for vm1 vm2
    using that(2,1)
  proof (induction rule: reachable.induct)
    case reach_init
    then show ?case by (blast intro: reachable.intros)
  next
    case (reach_step vm3 vm4)
    then show ?case by (blast intro: reachable.intros)
  qed
  show ?case
  proof (cases "running vm")
    case False
    with Suc.prems show ?thesis by (auto intro: reach_init)
  next
    case True
    with Suc.prems obtain e vm1 where ex: "tvm_exec_opcode env vm = Some (e, vm1)"
      by (auto split: option.splits)
    show ?thesis
    proof (cases "e = EXCEPT_OK")
      case False
      with ex exec_opcode_atomic [of env vm e vm1] Suc.prems True show ?thesis
        by (auto intro: reach_init)
    next
      case ok: True
      with ex True have st: "vm_step env vm (tick vm1)" by (auto intro: vm_stepI)
      from Suc.prems ex True ok have "tvm_run_loop n env (tick vm1) = Some r" by simp
      from Suc.IH [OF this] first [OF st] show ?thesis by (cases r) auto
    qed
  qed
qed

text \<open>More fuel does not change a result.\<close>

lemma run_loop_more_fuel:
  "tvm_run_loop n env vm = Some r \<Longrightarrow> (\<forall>vm'. r \<noteq> Running vm') \<Longrightarrow> n \<le> k \<Longrightarrow>
     tvm_run_loop k env vm = Some r"
proof (induction n arbitrary: vm k)
  case 0
  then show ?case by (cases k) (auto split: if_splits)
next
  case (Suc n)
  then obtain j where k: "k = Suc j" by (cases k) auto
  with Suc show ?case by (auto split: if_splits option.splits)
qed

subsection \<open>Sequences of instructions and the call stack\<close>

definition fetched :: "machine \<Rightarrow> (optype_t \<times> object_t) option" where
  "fetched vm = (let inst = code (program vm) (ip vm) in
     map_option (\<lambda>t. (t, operand inst)) (optype_of (op_type inst)))"

inductive vm_trace :: "vm_env \<Rightarrow> machine \<Rightarrow> (optype_t \<times> object_t) list \<Rightarrow> machine \<Rightarrow> bool" for env where
  trace_nil: "vm_trace env vm [] vm"
| trace_step: "vm_step env vm vm1 \<Longrightarrow> fetched vm = Some x \<Longrightarrow> vm_trace env vm1 xs vm2 \<Longrightarrow>
    vm_trace env vm (x # xs) vm2"

inductive_simps trace_nil_iff [simp]: "vm_trace env vm [] vm'"
inductive_cases trace_consE: "vm_trace env vm (x # xs) vm'"

text \<open>One instruction of a running machine, and the three roles it can play for the calls.\<close>

definition perform :: "vm_env \<Rightarrow> optype_t \<times> object_t \<Rightarrow> machine \<Rightarrow> machine option" where
  "perform env x vm =
     (if running vm then (case exec_op (fst x) env (snd x) vm of
        Some (EXCEPT_OK, vm1) \<Rightarrow> Some (tick vm1) | _ \<Rightarrow> None) else None)"

definition enter_proc :: "vm_env \<Rightarrow> object_t \<Rightarrow> machine \<Rightarrow> machine option" where
  "enter_proc env opnd = perform env (OP_CALL, opnd)"

definition leave_proc :: "vm_env \<Rightarrow> machine \<Rightarrow> machine option" where
  "leave_proc env = perform env (OP_RET, zero_object)"

definition in_proc :: "vm_env \<Rightarrow> optype_t \<times> object_t \<Rightarrow> machine \<Rightarrow> machine option" where
  "in_proc env x vm = (if fst x \<in> {OP_CALL, OP_RET} then None else perform env x vm)"

definition call_role :: "optype_t \<times> object_t \<Rightarrow> (object_t, optype_t \<times> object_t) lifo_op" where
  "call_role x = (if fst x = OP_CALL then Push (snd x) else if fst x = OP_RET then Pop else Top x)"

lemma perform_Some:
  "perform env x vm = Some vm' \<longleftrightarrow>
     running vm \<and> (\<exists>vm1. exec_op (fst x) env (snd x) vm = Some (EXCEPT_OK, vm1) \<and> vm' = tick vm1)"
  by (auto simp: perform_def split: option.splits exception_t.splits)

lemma step_perform:
  "vm_step env vm vm' \<Longrightarrow> fetched vm = Some x \<Longrightarrow> perform env x vm = Some vm'"
  by (auto elim!: vm_stepE exec_opcode_effect simp: perform_Some fetched_def Let_def)

lemma trace_run_lifo:
  "vm_trace env vm xs vm' \<Longrightarrow>
     run_lifo (enter_proc env) (leave_proc env) (in_proc env) (map call_role xs) vm = Some vm'"
proof (induction rule: vm_trace.induct)
  case (trace_step vm vm1 x xs vm2)
  have "perform env x vm = Some vm1" by (rule step_perform) fact+
  moreover have "exec_op OP_RET env opnd vm = exec_op OP_RET env zero_object vm" for opnd by simp
  ultimately show ?case using trace_step.IH
    by (cases x) (auto simp: call_role_def enter_proc_def leave_proc_def in_proc_def perform_def)
qed simp

sublocale vm_world \<subseteq> calls: lifo vm_ok activations "enter_proc env" "leave_proc env" "in_proc env" snd
proof unfold_locales
  fix s x t assume ok: "vm_ok s" and run: "enter_proc env x s = Some t"
  then obtain u where u: "running s" "exec_op OP_CALL env x s = Some (EXCEPT_OK, u)" "t = tick u"
    by (auto simp: enter_proc_def perform_Some)
  then have c: "call_eff x s u" using runs_as_ok [OF op_call_runs] by simp
  from activations_call [OF ok c] exec_op_ok [OF ok _ u(2)] u
  show "vm_ok t \<and> (\<exists>a. activations t = a # activations s)" by (simp add: running_def)
next
  fix s a as t assume ok: "vm_ok s" and a: "activations s = a # as" and run: "leave_proc env s = Some t"
  then obtain u where u: "running s" "exec_op OP_RET env zero_object s = Some (EXCEPT_OK, u)" "t = tick u"
    by (auto simp: leave_proc_def perform_Some)
  then have c: "ret_eff s u" using runs_as_ok [OF op_ret_runs] by simp
  from activations_ret(1) [OF ok c] exec_op_ok [OF ok _ u(2)] u a
  show "vm_ok t \<and> activations t = as" by (simp add: running_def)
next
  fix s a as x t
  assume ok: "vm_ok s" and a: "activations s = a # as" and run: "in_proc env x s = Some t"
  then obtain u where u: "running s" "fst x \<notin> {OP_CALL, OP_RET}"
    "exec_op (fst x) env (snd x) s = Some (EXCEPT_OK, u)" "t = tick u"
    by (auto simp: in_proc_def perform_Some split: if_splits)
  from activations_other [OF ok u(2,3)] exec_op_ok [OF ok _ u(3)] u a
  show "vm_ok t \<and> (\<exists>b. activations t = b # as \<and> snd b = snd a)" by (auto simp: running_def)
qed

context vm_world
begin

lemma trace_ok: "vm_trace env vm xs vm' \<Longrightarrow> vm_ok vm \<Longrightarrow> vm_ok vm'"
  by (induction rule: vm_trace.induct) (auto dest: step_ok)

text \<open>Activations below the starting depth survive.\<close>

lemma trace_keeps_below:
  assumes "vm_ok vm" and "vm_trace env vm xs vm'"
    and "lifo_height (map call_role xs) k = Some l" and "k \<le> rsp vm + 1"
  shows "drop l (activations vm') = drop k (activations vm)"
  using calls.run_keeps_below [OF assms(1) trace_run_lifo [OF assms(2)] assms(3)] assms(1,4)
  by (simp add: length_activations)

text \<open>A procedure body, however it calls others, runs in its own activation: when it does not
  return from it, it keeps its return address, and its callers' activations are what they were.\<close>

lemma trace_keeps_owner:
  assumes "vm_ok vm" and "vm_trace env vm xs vm'" and "lifo_depth (map call_role xs) 0 = Some 0"
  shows "tl (activations vm') = tl (activations vm)"
    and "snd (hd (activations vm')) = snd (hd (activations vm))"
proof -
  have a: "activations vm \<noteq> []" "0 < length (activations vm)"
    using length_activations [OF assms(1)] by auto
  from calls.run_keeps_owner [OF assms(1) trace_run_lifo [OF assms(2)] assms(3) a(2)] a(1)
  show "tl (activations vm') = tl (activations vm)"
    "snd (hd (activations vm')) = snd (hd (activations vm))"
    by (simp_all add: drop_Suc hd_conv_nth)
qed

text \<open>A call, a body, and the return: control is back after the call, in the caller's frame with
  the caller's variables.\<close>

lemma call_body_return:
  assumes ok: "vm_ok vm" and call: "vm_step env vm vm1" "fetched vm = Some (OP_CALL, opnd)"
    and body: "vm_trace env vm1 xs vm2" "lifo_depth (map call_role xs) 0 = Some 0"
    and ret: "vm_step env vm2 vm3" "fetched vm2 = Some (OP_RET, opnd')"
  shows "ip vm3 = ip vm + 1" and "activations vm3 = activations vm" and "rsp vm3 = rsp vm"
proof -
  from step_perform [OF call] obtain u where
    u: "exec_op OP_CALL env opnd vm = Some (EXCEPT_OK, u)" "vm1 = tick u"
    by (auto simp: perform_Some)
  then have "call_eff opnd vm u" using runs_as_ok [OF op_call_runs] by simp
  note a1 = activations_call [OF ok this]
  have ok1: "vm_ok vm1" by (rule step_ok [OF ok call(1)])
  have ok2: "vm_ok vm2" by (rule trace_ok [OF body(1) ok1])
  have ok3: "vm_ok vm3" by (rule step_ok [OF ok2 ret(1)])
  from step_perform [OF ret] obtain v where
    v: "exec_op OP_RET env opnd' vm2 = Some (EXCEPT_OK, v)" "vm3 = tick v"
    by (auto simp: perform_Some)
  then have r: "ret_eff vm2 v" using runs_as_ok [OF op_ret_runs] by simp
  note own = trace_keeps_owner [OF ok1 body]
  show a3: "activations vm3 = activations vm"
    using activations_ret(1) [OF ok2 r] own(1) a1 u v by simp
  show "ip vm3 = ip vm + 1"
    using activations_ret(2) [OF ok2 r] own(2) a1 u v by auto
  show "rsp vm3 = rsp vm"
    using a3 length_activations [OF ok] length_activations [OF ok3] by simp
qed

end

end
