(* ===== verification/Tvm_Progress.thy ===== *)
theory Tvm_Progress
  imports Tvm_Run Tvm_Refine
begin

text \<open>
  When a run is defined and when it ends. The instructions that do not follow pointers are
  undefined in exactly the arithmetic cases C leaves undefined (\<open>arith_undefined\<close>); a program of
  total instructions is never undefined, as long as it leaves one entry of the code array free,
  because the loop condition \<open>vm->ip <= vm->program.size\<close> also executes the entry after the last
  instruction. A program whose jumps go forward ends within its length.
\<close>

subsection \<open>Undefined cases\<close>

definition memory_op :: "optype_t \<Rightarrow> bool" where
  "memory_op t \<longleftrightarrow> t \<in> {OP_LOADC, OP_ALOADC, OP_HALLOC, OP_DEREF, OP_DEREFB, OP_HSET, OP_HSETOF,
     OP_PUTS, OP_NATIVE}"

definition arith_undefined :: "optype_t \<Rightarrow> machine \<Rightarrow> bool" where
  "arith_undefined t vm \<longleftrightarrow>
     (let a = ui32 (top_obj 2 vm); b = ui32 (top_obj 1 vm) in
      (t \<in> {OP_DIV, OP_MOD} \<and> 2 \<le> sp vm \<and> sp vm < TVM_STACK_CAPACITY \<and>
         sint a = - (2 ^ 31) \<and> sint b = - 1) \<or>
      (t \<in> {OP_LSHFT, OP_RSHFT} \<and> 2 \<le> sp vm \<and> \<not> (0 \<le> sint b \<and> sint b < 32)) \<or>
      (t = OP_CF2I \<and> 1 \<le> sp vm \<and> i32_of_f32 b = None) \<or>
      (t = OP_CF2U \<and> 1 \<le> sp vm \<and> u32_of_f32 b = None))"

lemma bin_op_None: "bin_op full f vm = None \<longleftrightarrow>
    2 \<le> sp vm \<and> \<not> (full \<and> TVM_STACK_CAPACITY \<le> sp vm) \<and> f (ui32 (top_obj 2 vm)) (ui32 (top_obj 1 vm)) = None"
  by (auto simp: bin_op_def exc_def ok_def)

lemma un_op_None: "un_op f vm = None \<longleftrightarrow> 1 \<le> sp vm \<and> f (ui32 (top_obj 1 vm)) = None"
  by (auto simp: un_op_def exc_def ok_def)

lemma div_op_None: "div_op f vm = None \<longleftrightarrow> 2 \<le> sp vm \<and> sp vm < TVM_STACK_CAPACITY \<and>
    ui32 (top_obj 1 vm) \<noteq> 0 \<and> f (ui32 (top_obj 2 vm)) (ui32 (top_obj 1 vm)) = None"
  by (auto simp: div_op_def bin_op_None exc_def)

lemma defined_simps [simp]: "exc e vm \<noteq> None" "ok vm \<noteq> None"
  by (simp_all add: exc_def ok_def)

lemma sint_neq: "sint (a :: u32) \<noteq> sint b \<Longrightarrow> a \<noteq> b"
  by auto

lemma exec_op_undefined_iff:
  assumes ok: "vm_ok vm" and t: "\<not> memory_op t"
  shows "exec_op t env opnd vm = None \<longleftrightarrow> arith_undefined t vm"
proof -
  have f: "frames_ok (frames vm) (frame vm) (rsp vm)" using ok by (simp add: vm_ok_def)
  have call: "op_call opnd vm \<noteq> None"
    using frames_ok_next [OF f] by (auto simp: op_call_def)
  have ret: "op_ret vm \<noteq> None"
    using frames_ok_prev [of "frames vm" "frame vm" "rsp vm - 1"] f
    by (cases "rsp vm") (auto simp: op_ret_def)
  have load: "op_load opnd vm \<noteq> None" "op_store opnd vm \<noteq> None"
    using frame_get_walk [OF f] frames_ok_set [OF f, of "unat (ui32 opnd)" "top_obj 1 vm"]
    by (auto simp: op_load_def op_store_def)
  have div: "op_div vm = None \<longleftrightarrow> arith_undefined OP_DIV vm" "op_mod vm = None \<longleftrightarrow> arith_undefined OP_MOD vm"
    by (auto simp: op_div_def op_mod_def div_op_None div_i32_def mod_i32_def arith_undefined_def sint_eq_0)
  have sh: "op_lshft vm = None \<longleftrightarrow> arith_undefined OP_LSHFT vm" "op_rshft vm = None \<longleftrightarrow> arith_undefined OP_RSHFT vm"
    by (auto simp: op_lshft_def op_rshft_def bin_op_None lshft_i32_def rshft_i32_def arith_undefined_def)
  have cf: "op_cf2i vm = None \<longleftrightarrow> arith_undefined OP_CF2I vm" "op_cf2u vm = None \<longleftrightarrow> arith_undefined OP_CF2U vm"
    by (auto simp: op_cf2i_def op_cf2u_def un_op_None arith_undefined_def)
  note others = op_nop_def op_push_def op_pop_def op_dup_def op_cln_def op_swap_def op_jmp_def op_jz_def
    op_jnz_def jump_if_def op_gload_def op_gstore_def op_putc_def op_halt_def
  have calls: "\<not> arith_undefined t vm" if "t \<in> {OP_CALL, OP_RET, OP_LOAD, OP_STORE}"
    using that by (auto simp: arith_undefined_def Let_def)
  show ?thesis
  proof (cases "t \<in> {OP_DIV, OP_MOD, OP_LSHFT, OP_RSHFT, OP_CF2I, OP_CF2U, OP_CALL, OP_RET, OP_LOAD, OP_STORE}")
    case True
    then show ?thesis
      by (elim insertE emptyE) (use calls call ret load in \<open>simp_all add: div sh cf\<close>)
  next
    case False
    then have "\<not> arith_undefined t vm" by (simp add: arith_undefined_def Let_def)
    moreover have "exec_op t env opnd vm \<noteq> None"
      using t False
      by (cases t) (simp_all add: memory_op_def alu2_defs alu1_defs bin_op_None un_op_None others Let_def)
    ultimately show ?thesis by simp
  qed
qed

subsection \<open>Programs that are never undefined\<close>

definition total_op :: "optype_t \<Rightarrow> bool" where
  "total_op t \<longleftrightarrow> \<not> memory_op t \<and> t \<notin> {OP_DIV, OP_MOD, OP_LSHFT, OP_RSHFT, OP_CF2I, OP_CF2U}"

definition total_program :: "tvm_program_t \<Rightarrow> bool" where
  "total_program p \<longleftrightarrow> prog_size p < TVM_PROGRAM_CAPACITY \<and>
     (\<forall>i \<le> prog_size p. \<forall>t. optype_of (op_type (code p i)) = Some t \<longrightarrow> total_op t)"

lemma exec_opcode_defined:
  assumes ok: "vm_ok vm" and tot: "total_program (program vm)" and run: "running vm"
  shows "\<exists>e vm'. tvm_exec_opcode env vm = Some (e, vm')"
proof -
  have ip: "ip vm \<le> prog_size (program vm)" "ip vm < TVM_PROGRAM_CAPACITY"
    using run tot by (auto simp: running_def total_program_def)
  have "exec_op t env (operand (code (program vm) (ip vm))) vm \<noteq> None"
    if "optype_of (op_type (code (program vm) (ip vm))) = Some t" for t
  proof -
    have "total_op t" using tot ip that by (auto simp: total_program_def)
    then have "\<not> memory_op t" "\<not> arith_undefined t vm"
      by (auto simp: total_op_def arith_undefined_def Let_def)
    with exec_op_undefined_iff [OF ok] show ?thesis by blast
  qed
  with ip(2) show ?thesis
    by (auto simp: tvm_exec_opcode_def Let_def exc_def split: option.splits)
qed

context vm_world
begin

lemma run_loop_defined:
  "vm_ok vm \<Longrightarrow> total_program (program vm) \<Longrightarrow> tvm_run_loop n env vm \<noteq> None"
proof (induction n arbitrary: vm)
  case (Suc n)
  show ?case
  proof (cases "running vm")
    case True
    obtain e vm1 where ex: "tvm_exec_opcode env vm = Some (e, vm1)"
      using exec_opcode_defined [OF Suc.prems True] by blast
    show ?thesis
    proof (cases "e = EXCEPT_OK")
      case ok: True
      with ex True have st: "vm_step env vm (tick vm1)" by (auto intro: vm_stepI)
      have "tvm_run_loop n env (tick vm1) \<noteq> None"
        using Suc.IH [OF step_ok [OF Suc.prems(1) st]] step_program [OF st] Suc.prems(2) by simp
      with ex True ok show ?thesis by simp
    qed (use ex True in simp)
  qed simp
qed simp

end

subsection \<open>Programs that end\<close>

definition forward_program :: "tvm_program_t \<Rightarrow> bool" where
  "forward_program p \<longleftrightarrow> (\<forall>i \<le> prog_size p. \<forall>t. optype_of (op_type (code p i)) = Some t \<longrightarrow>
     t \<notin> {OP_CALL, OP_RET} \<and>
     (t \<in> {OP_JMP, OP_JZ, OP_JNZ} \<longrightarrow> i < unat (ui32 (operand (code p i)))))"

lemma forward_step:
  assumes "forward_program (program vm)" and "vm_step env vm vm'"
  shows "ip vm < ip vm'"
proof -
  let ?opnd = "operand (code (program vm) (ip vm))"
  obtain vm1 where run: "running vm" and ex: "tvm_exec_opcode env vm = Some (EXCEPT_OK, vm1)"
    and vm': "vm' = tick vm1"
    using assms(2) by (auto elim: vm_stepE)
  from ex obtain t where t: "optype_of (op_type (code (program vm) (ip vm))) = Some t"
    and x: "exec_op t env ?opnd vm = Some (EXCEPT_OK, vm1)" and eff: "effect t ?opnd vm vm1"
    by (rule exec_opcode_effect)
  have fw: "t \<notin> {OP_CALL, OP_RET}" "t \<in> {OP_JMP, OP_JZ, OP_JNZ} \<longrightarrow> ip vm < unat (ui32 ?opnd)"
    using assms(1) run t by (auto simp: forward_program_def running_def)
  consider "t = OP_JMP" | "t = OP_JZ \<or> t = OP_JNZ" | "t \<notin> {OP_JMP, OP_JZ, OP_JNZ, OP_CALL, OP_RET}"
    using fw(1) by auto
  then show ?thesis
  proof cases
    case 1
    with x have "jmp_eff ?opnd vm vm1" using runs_as_ok [OF op_jmp_runs] by simp
    with 1 fw(2) show ?thesis by (auto simp: jmp_eff_def vm')
  next
    case 2
    with x have "jump_eff ?opnd vm vm1" using runs_as_ok [OF jump_if_runs] by (auto simp: op_jz_def op_jnz_def)
    with 2 fw(2) show ?thesis by (auto simp: jump_eff_def vm')
  next
    case 3
    with eff show ?thesis by (simp add: effect_def vm')
  qed
qed

lemma forward_run_ends:
  "forward_program (program vm) \<Longrightarrow> prog_size (program vm) + 1 \<le> ip vm + n \<Longrightarrow>
     tvm_run_loop n env vm \<noteq> Some (Running vm')"
proof (induction n arbitrary: vm)
  case 0
  then show ?case by (simp add: running_def)
next
  case (Suc n)
  show ?case
  proof (cases "running vm")
    case True
    show ?thesis
    proof (cases "\<exists>vm1. tvm_exec_opcode env vm = Some (EXCEPT_OK, vm1)")
      case st: True
      then obtain vm1 where ex: "tvm_exec_opcode env vm = Some (EXCEPT_OK, vm1)" by blast
      with True have s: "vm_step env vm (tick vm1)" by (auto intro: vm_stepI)
      have "tvm_run_loop n env (tick vm1) \<noteq> Some (Running vm')"
        using Suc.IH [of "tick vm1"] Suc.prems forward_step [OF Suc.prems(1) s] step_program [OF s]
        by simp
      with ex True show ?thesis by simp
    next
      case False
      then show ?thesis by (auto split: option.splits)
    qed
  qed simp
qed

subsection \<open>The collector and the end of the code array\<close>

lemma tick_counter: "tgc_counter vm \<le> 1 \<Longrightarrow> tgc_counter (tick vm) \<le> 1"
proof -
  assume "tgc_counter vm \<le> 1"
  then consider "tgc_counter vm = 0" | "tgc_counter vm = 1" by linarith
  then show ?thesis by cases (simp_all add: tick_def)
qed

lemma reachable_counter: "reachable env vm vm' \<Longrightarrow> tgc_counter vm \<le> 1 \<Longrightarrow> tgc_counter vm' \<le> 1"
proof (induction rule: reachable.induct)
  case (reach_step vm1 vm2)
  then obtain vm3 where "tvm_exec_opcode env vm1 = Some (EXCEPT_OK, vm3)" "vm2 = tick vm3"
    by (auto elim: vm_stepE)
  then have "tgc_counter vm3 = tgc_counter vm1" "vm2 = tick vm3"
    by (auto elim!: exec_opcode_effect simp: effect_def same_const_def)
  with reach_step tick_counter [of vm3] show ?case by simp
qed

lemma full_program_overruns:
  assumes "prog_size (program vm) = TVM_PROGRAM_CAPACITY"
    and "\<forall>i < TVM_PROGRAM_CAPACITY. op_type (code (program vm) i) = optype_code OP_NOP"
    and "\<not> halted vm" and "ip vm + k = TVM_PROGRAM_CAPACITY"
  shows "tvm_run_loop (Suc k) env vm = None"
  using assms
proof (induction k arbitrary: vm)
  case 0
  then show ?case by (simp add: running_def tvm_exec_opcode_def)
next
  case (Suc k)
  then have ip: "ip vm < TVM_PROGRAM_CAPACITY" by simp
  have "tvm_exec_opcode env vm = Some (EXCEPT_OK, next_ip vm)"
    using Suc.prems(2) ip by (simp add: tvm_exec_opcode_def op_nop_def ok_def del: optype_code.simps)
  moreover have "running vm" using Suc.prems ip by (simp add: running_def)
  moreover have "tvm_run_loop (Suc k) env (tick (next_ip vm)) = None"
    by (rule Suc.IH) (use Suc.prems in \<open>simp_all add: next_ip_def\<close>)
  ultimately show ?case by (simp del: tvm_run_loop.simps add: tvm_run_loop.simps(2) [of "Suc k" for k])
qed

end
