(* ===== verification/Tvm_Heap.thy ===== *)
theory Tvm_Heap
  imports Tvm_Run
begin

text \<open>
  The heap instructions against the blocks of \<open>Tgc\<close>: what \<open>HALLOC\<close> hands out, when \<open>HSET\<close> and
  \<open>HSETOF\<close> store inside a block, and that \<open>DEREF\<close> and \<open>DEREFB\<close> read back what was stored.
  The bound check of the code compares the offset of the first byte with the size of the block:
  it is enough when the size is a multiple of the element size, and a store of several bytes over
  the end passes it otherwise.
\<close>

subsection \<open>Reading the fields of a block\<close>

lemma mem_read_part:
  assumes "mem_read m a n = Some bs" and "k + j \<le> n"
  shows "mem_read m (a + k) j = Some (take j (drop k bs))"
  using assms by (auto simp: mem_read_Some_iff add.assoc)

lemma le_val_word64: "length bs = 8 \<Longrightarrow> unat (word_of_nat (le_val bs) :: u64) = le_val bs"
  using le_val_bound [of bs] by (intro unat_of_nat_id) simp

lemma block_read_fields:
  assumes "block_read m a = Some b"
  shows "\<exists>w. read_u64 m a = Some w \<and> unat w = gb_value b"
    and "\<exists>w. read_u64 m (a + 16) = Some w \<and> unat w = gb_size b"
proof -
  obtain bs where bs: "mem_read m a 40 = Some bs" and b: "b = block_of_bytes bs"
    using assms by (auto simp: block_read_def gc_block_size_def)
  have len: "length bs = 40" using bs by (simp add: mem_read_Some_iff)
  from mem_read_part [OF bs, of 0 8] mem_read_part [OF bs, of 16 8]
  show "\<exists>w. read_u64 m a = Some w \<and> unat w = gb_value b"
    "\<exists>w. read_u64 m (a + 16) = Some w \<and> unat w = gb_size b"
    using len by (simp_all add: read_u64_def b block_of_bytes_def le_val_word64)
qed

text \<open>\<open>live_block m a b\<close>: at address \<open>a\<close> there is block \<open>b\<close>, and all of its data is allocated.\<close>

definition live_block :: "memory \<Rightarrow> nat \<Rightarrow> gc_block \<Rightarrow> bool" where
  "live_block m a b \<longleftrightarrow> block_read m a = Some b \<and> gb_value b \<noteq> 0 \<and>
     mem_ok_range m (gb_value b) (gb_size b)"

definition prim_size :: "u32 \<Rightarrow> bool" where
  "prim_size n \<longleftrightarrow> n = 1 \<or> n = 4 \<or> n = 8"

lemma prim_bytes_size: "prim_size n \<Longrightarrow> \<exists>bs. prim_bytes n ob = Some bs \<and> length bs = unat n"
  by (auto simp: prim_size_def prim_bytes_def)

lemma prim_bytes_None: "prim_bytes n ob = None \<longleftrightarrow> \<not> prim_size n"
  by (auto simp: prim_size_def prim_bytes_def)

subsection \<open>Storing\<close>

text \<open>An offset at or past the size is refused, and so is a size that is not 1, 4 or 8.\<close>

lemma heap_set_refuses:
  assumes "block_read (mem vm) (unat (ui64 (top_obj 3 vm))) = Some b"
  shows "gb_size b \<le> unat off \<Longrightarrow> heap_set off n vm = exc EXCEPT_INVALID_ARRAY_INDEX vm"
    and "unat off < gb_size b \<Longrightarrow> \<not> prim_size n \<Longrightarrow>
           heap_set off n vm = exc EXCEPT_INVALID_PRIMITIVE_SIZE vm"
proof -
  obtain s where s: "read_u64 (mem vm) (unat (ui64 (top_obj 3 vm)) + 16) = Some s" "unat s = gb_size b"
    using block_read_fields(2) [OF assms] by blast
  show "gb_size b \<le> unat off \<Longrightarrow> heap_set off n vm = exc EXCEPT_INVALID_ARRAY_INDEX vm"
    by (simp add: heap_set_def Let_def s)
  assume "unat off < gb_size b" and "\<not> prim_size n"
  then show "heap_set off n vm = exc EXCEPT_INVALID_PRIMITIVE_SIZE vm"
    by (simp add: heap_set_def Let_def s prim_bytes_None [THEN iffD2])
qed

text \<open>A store that fits into a live block writes its bytes there, and changes no other byte.\<close>

lemma heap_set_stores:
  assumes b: "live_block (mem vm) (unat (ui64 (top_obj 3 vm))) b"
    and n: "prim_size n" and fits: "unat off + unat n \<le> gb_size b"
  obtains vm' bs where "heap_set off n vm = ok vm'" and "prim_bytes n (top_obj 4 vm) = Some bs"
    and "mem_read (mem vm') (gb_value b + unat off) (unat n) = Some bs"
    and "\<forall>x. \<not> (gb_value b + unat off \<le> x \<and> x < gb_value b + unat off + unat n) \<longrightarrow>
           cells (mem vm') x = cells (mem vm) x"
    and "sp vm' = sp vm - 4" and "ip vm' = ip vm + 1"
proof -
  have r: "block_read (mem vm) (unat (ui64 (top_obj 3 vm))) = Some b"
    and ok: "mem_ok_range (mem vm) (gb_value b) (gb_size b)"
    using b unfolding live_block_def by blast+
  obtain v s where v: "read_u64 (mem vm) (unat (ui64 (top_obj 3 vm))) = Some v" "unat v = gb_value b"
    and s: "read_u64 (mem vm) (unat (ui64 (top_obj 3 vm)) + 16) = Some s" "unat s = gb_size b"
    using block_read_fields [OF r] by blast
  obtain bs where bs: "prim_bytes n (top_obj 4 vm) = Some bs" "length bs = unat n"
    using prim_bytes_size [OF n] by blast
  have pos: "0 < unat n" using n by (auto simp: prim_size_def)
  have "mem_ok_range (mem vm) (gb_value b + unat off) (length bs)"
    by (rule mem_ok_range_mono [OF ok]) (use fits bs in simp_all)
  then obtain m where m: "mem_write (mem vm) (gb_value b + unat off) bs = Some m"
    by (auto simp: mem_write_def)
  let ?vm' = "next_ip (vm\<lparr>mem := m, sp := sp vm - 4\<rparr>)"
  have lt: "\<not> unat s \<le> unat off" using s(2) fits pos by linarith
  have "heap_set off n vm = ok ?vm'"
    by (simp add: heap_set_def Let_def v s(1) bs(1) m lt)
  moreover have "mem_read (mem ?vm') (gb_value b + unat off) (unat n) = Some bs"
    using mem_read_write_same [OF m] bs by (simp add: next_ip_def)
  moreover have "\<forall>x. \<not> (gb_value b + unat off \<le> x \<and> x < gb_value b + unat off + unat n) \<longrightarrow>
      cells (mem ?vm') x = cells (mem vm) x"
    using m bs(2) by (auto simp: mem_write_Some_iff poke_apply next_ip_def)
  ultimately show ?thesis using bs(1) that [of ?vm' bs] by (simp add: next_ip_def)
qed

text \<open>When the size is a multiple of the element size, every aligned offset that the check lets
  through fits.\<close>

lemma aligned_offset_fits:
  assumes "(n::nat) dvd sz" and "n dvd off" and "off < sz"
  shows "off + n \<le> sz"
proof -
  obtain i j where "sz = n * i" "off = n * j" using assms by (auto elim!: dvdE)
  with assms(3) have "j < i" by simp
  then have "n * (j + 1) \<le> n * i" by (intro mult_le_mono2) simp
  with \<open>sz = n * i\<close> \<open>off = n * j\<close> show ?thesis by simp
qed

text \<open>Otherwise the check is passed and the store runs over the end of the data.\<close>

lemma heap_set_overrun:
  assumes b: "live_block (mem vm) (unat (ui64 (top_obj 3 vm))) b" and n: "prim_size n"
    and off: "unat off < gb_size b" "gb_size b < unat off + unat n"
    and out: "cells (mem vm) (gb_value b + gb_size b) = None"
  shows "heap_set off n vm = None"
proof -
  have r: "block_read (mem vm) (unat (ui64 (top_obj 3 vm))) = Some b"
    using b unfolding live_block_def by blast
  obtain v s where v: "read_u64 (mem vm) (unat (ui64 (top_obj 3 vm))) = Some v" "unat v = gb_value b"
    and s: "read_u64 (mem vm) (unat (ui64 (top_obj 3 vm)) + 16) = Some s" "unat s = gb_size b"
    using block_read_fields [OF r] by blast
  obtain bs where bs: "prim_bytes n (top_obj 4 vm) = Some bs" "length bs = unat n"
    using prim_bytes_size [OF n] by blast
  have "gb_value b + unat off \<le> gb_value b + gb_size b"
    "gb_value b + gb_size b < gb_value b + unat off + length bs"
    using off bs(2) by simp_all
  with out have "\<not> mem_ok_range (mem vm) (gb_value b + unat off) (length bs)"
    unfolding mem_ok_range_iff by blast
  then have w: "mem_write (mem vm) (gb_value b + unat off) bs = None" by (simp add: mem_write_def)
  have lt: "\<not> unat s \<le> unat off" using s(2) off by linarith
  show ?thesis by (simp add: heap_set_def Let_def v s(1) bs(1) w lt)
qed

subsection \<open>Reading back\<close>

text \<open>\<open>DEREF\<close> of a block's address gives the address of its data.\<close>

lemma op_deref_block:
  assumes "1 \<le> sp vm" and "block_read (mem vm) (unat (ui64 (top_obj 1 vm))) = Some b"
  obtains vm' where "op_deref vm = ok vm'" and "unat (ui64 (top_obj 1 vm')) = gb_value b"
    and "sp vm' = sp vm" and "mem vm' = mem vm"
proof -
  obtain w where w: "read_u64 (mem vm) (unat (ui64 (top_obj 1 vm))) = Some w" "unat w = gb_value b"
    using block_read_fields(1) [OF assms(2)] by blast
  show ?thesis
    by (rule that [of "next_ip (set_top 1 ((top_obj 1 vm)\<lparr>ui64 := w\<rparr>) vm)"])
      (use assms(1) w in \<open>simp_all add: op_deref_def next_ip_def set_top_def top_obj_def\<close>)
qed

text \<open>The value read with the size it was stored with: all of its bits for 8 bytes, the lower 32
  bits for 4, the lower 8 for 1.\<close>

lemma le_val_word: "n < 2 ^ LENGTH('a) \<Longrightarrow> n < 256 ^ k \<Longrightarrow>
    (word_of_nat (le_val (le_bytes k n)) :: 'a::len word) = word_of_nat n"
  by (simp add: le_val_le_bytes_id)

lemma derefb_read_stored:
  assumes "prim_size n" and "prim_bytes n ob = Some bs" and "mem_read m a (unat n) = Some bs"
  obtains v where "derefb_read m a (sint n) = Some v"
    and "n = 8 \<longrightarrow> v = ui64 ob" and "n = 4 \<longrightarrow> v = scast (ui32 ob)" and "n = 1 \<longrightarrow> v = scast (ui8 ob)"
proof -
  have u: "unat (ui64 ob) < 256 ^ 8" "unat (ui32 ob) < 256 ^ 4" "unat (ui8 ob) < 256 ^ 1"
    using unat_u64_less [of "ui64 ob"] unat_u32_less [of "ui32 ob"] unat_u8_less [of "ui8 ob"] by simp_all
  have "(n = 8 \<longrightarrow> derefb_read m a (sint n) = Some (ui64 ob)) \<and>
      (n = 4 \<longrightarrow> derefb_read m a (sint n) = Some (scast (ui32 ob))) \<and>
      (n = 1 \<longrightarrow> derefb_read m a (sint n) = Some (scast (ui8 ob)))"
    using assms(2,3) u
    by (auto simp: derefb_read_def read_u64_def prim_bytes_def le_val_le_bytes_id simp del: le_bytes.simps)
  with assms(1) show ?thesis by (auto simp: prim_size_def intro: that)
qed

subsection \<open>Allocation\<close>

context vm_world
begin

text \<open>\<open>HALLOC\<close> when \<open>malloc\<close> gave memory: the object left on the stack is the address of a live
  block of the requested size, whose data overlaps nothing that was allocated before.\<close>

lemma halloc_block:
  assumes ok: "vm_ok vm" and run: "exec_op OP_HALLOC env opnd vm = Some (EXCEPT_OK, vm')"
  shows "\<exists>b. block_read (mem vm') (block_addr (heap vm') (h_len (heap vm))) = Some b \<and>
      ui64 (top_obj 1 vm') = word_of_nat (block_addr (heap vm') (h_len (heap vm))) \<and>
      gb_size b = unat (ui32 (top_obj 2 vm)) \<and> gb_pointer_count b = unat (ui32 (top_obj 1 vm)) \<and>
      (gb_value b \<noteq> 0 \<longrightarrow> live_block (mem vm') (block_addr (heap vm') (h_len (heap vm))) b \<and>
        (\<forall>x. gb_value b \<le> x \<and> x < gb_value b + gb_size b \<longrightarrow> cells (mem vm) x = None))"
proof -
  have e: "halloc_eff env vm vm'" using runs_as_ok [OF op_halloc_runs, of env vm vm'] run by simp
  then obtain a where c: "tgc_create_block (policy_of env) (junk_of env) (mem vm) (heap vm)
      (unat (ui32 (top_obj 2 vm))) (unat (ui32 (top_obj 1 vm))) = Some (a, mem vm', heap vm')"
    and t: "ui64 (top_obj 1 vm') = word_of_nat a"
    by (auto simp: halloc_eff_def)
  have lt: "unat (ui32 ob) < 2 ^ 64" for ob by (rule less_trans [OF unat_u32_less]) simp
  have m: "mem_ok (mem vm)" "heap_ok (mem vm) (heap vm)" using ok by (simp_all add: vm_ok_def)
  note cb = create_block_ok [OF m lt lt c]
  from cb(6) obtain v where v: "block_read (mem vm') a = Some \<lparr>gb_value = v,
      gb_pointer_count = unat (ui32 (top_obj 1 vm)), gb_size = unat (ui32 (top_obj 2 vm)),
      gb_pointers = 0, gb_marked = 0\<rparr>"
    "v \<noteq> 0 \<longrightarrow> mem_ok_range (mem vm') v (unat (ui32 (top_obj 2 vm))) \<and>
      (\<forall>x. v \<le> x \<and> x < v + unat (ui32 (top_obj 2 vm)) \<longrightarrow> cells (mem vm) x = None \<and> \<not> in_array (heap vm') x)"
    by blast
  with t cb(4) show ?thesis
    by (intro exI [of _ "\<lparr>gb_value = v, gb_pointer_count = unat (ui32 (top_obj 1 vm)),
      gb_size = unat (ui32 (top_obj 2 vm)), gb_pointers = 0, gb_marked = 0\<rparr>"]) (auto simp: live_block_def)
qed

end

end
