(* ===== verification/Vm_Demo.thy ===== *)
theory Vm_Demo
  imports Tvm_Progress Tvm_Heap
begin

text \<open>
  A concrete environment for the virtual machine, in which the contract \<open>vm_world\<close> holds: the
  allocator of \<open>C_Memory\<close> and a native interface whose every function adds its arguments. The
  machines \<open>boot ops\<close> are freshly initialised ones with the given code.
\<close>

definition adding_ffi :: ffi_env where
  "adding_ffi = \<lparr>dlopen_c = (\<lambda>_. 1), dlsym_c = (\<lambda>_ _. 1), dlclose_c = (\<lambda>_. True),
     ffi_prep_c = (\<lambda>_. True), ffi_call_c = (\<lambda>c f args m. Some (sum_list args, m, []))\<rparr>"

definition demo_env :: vm_env where
  "demo_env = \<lparr>policy_of = bump_alloc, junk_of = (\<lambda>_. 0), ffi = adding_ffi, tci = tci_init\<rparr>"

interpretation demo: vm_world demo_env
proof -
  have "allocator (policy_of demo_env)"
    by (simp add: demo_env_def bump.allocator_axioms)
  moreover have "vm_world_axioms demo_env"
    by unfold_locales (auto simp: demo_env_def adding_ffi_def)
  ultimately show "vm_world demo_env" by (rule vm_world.intro)
qed

declare optype_code.simps [simp del]

definition num :: "u32 \<Rightarrow> object_t" where
  "num w = \<lparr>obj_type = obj_type_code STACK_OBJ_TYPE_NUMBER, ui64 = ucast w\<rparr>"

definition inst :: "optype_t \<Rightarrow> u32 \<Rightarrow> opcode_t" where
  "inst t w = \<lparr>op_type = optype_code t, operand = num w\<rparr>"

definition boot :: "opcode_t list \<Rightarrow> machine" where
  "boot ops = (let vm = tvm_init empty_memory in
     vm\<lparr>program := (program vm)\<lparr>prog_size := length ops,
        code := (\<lambda>i. if i < length ops then ops ! i else zero_opcode)\<rparr>\<rparr>)"

lemma ui32_num [simp]: "ui32 (num w) = w"
  by (rule bit_word_eqI) (simp add: num_def ui32_def bit_simps)

lemma op_type_inst [simp]: "op_type (inst t w) = optype_code t"
  by (simp add: inst_def)

lemma operand_inst [simp]: "operand (inst t w) = num w"
  by (simp add: inst_def)

lemma init_simps [simp]:
  "ip (tvm_init m) = 0" "sp (tvm_init m) = 0" "rsp (tvm_init m) = 0" "\<not> halted (tvm_init m)"
  "program (tvm_init m) = zero_program" "mem (tvm_init m) = m" "heap (tvm_init m) = empty_heap"
  "tgc_counter (tvm_init m) = 0" "out (tvm_init m) = []"
  by (simp_all add: tvm_init_def tvm_frame_init_def)

lemma boot_load:
  "length ops \<le> TVM_PROGRAM_CAPACITY \<Longrightarrow>
     tvm_load_program_from_memory ops (length ops) (tvm_init empty_memory) = Some (boot ops)"
  by (simp add: tvm_load_program_from_memory_def boot_def Let_def zero_program_def cong: if_cong)

lemma vm_ok_boot [simp]: "vm_ok (boot ops)"
  using vm_ok_init [OF mem_ok_empty] by (simp add: vm_ok_def boot_def Let_def)

lemma boot_simps [simp]:
  "ip (boot ops) = 0" "sp (boot ops) = 0" "rsp (boot ops) = 0" "\<not> halted (boot ops)"
  "prog_size (program (boot ops)) = length ops"
  "code (program (boot ops)) = (\<lambda>i. if i < length ops then ops ! i else zero_opcode)"
  "mem (boot ops) = empty_memory" "heap (boot ops) = empty_heap" "tgc_counter (boot ops) = 0"
  by (simp_all add: boot_def Let_def)

lemma boot_frames [simp]:
  "frame (boot ops) = 1"
  "frames (boot ops) = \<lparr>fr_cells = [1 \<mapsto> \<lparr>fr_next = None, fr_prev = None, local_vars = zero_vars\<rparr>],
     fr_fresh = 2\<rparr>"
  by (simp_all add: boot_def tvm_init_def tvm_frame_init_def Let_def)

lemma vals_boot [simp]: "vals (boot ops) = []"
  by (simp add: vals_def)

text \<open>The counter of the loop is 1 from the first step on.\<close>

lemma tick_1: "tgc_counter vm = 1 \<Longrightarrow> tick vm = vm"
  by (simp add: tick_def)

text \<open>One step of a machine whose current instruction is known.\<close>

lemma exec_inst:
  assumes "ip vm < TVM_PROGRAM_CAPACITY" and "code (program vm) (ip vm) = inst t w"
  shows "tvm_exec_opcode env vm = exec_op t env (num w) vm"
  using assms by (simp add: tvm_exec_opcode_def)

lemma step_inst:
  assumes "running vm" and "ip vm < TVM_PROGRAM_CAPACITY" and "code (program vm) (ip vm) = inst t w"
    and "exec_op t env (num w) vm = ok vm1" and "tick vm1 = vm'"
  shows "vm_step env vm vm'"
  using assms exec_inst [OF assms(2,3), of env] by (auto simp: ok_def intro: vm_stepI)

lemma fetched_inst: "code (program vm) (ip vm) = inst t w \<Longrightarrow> fetched vm = Some (t, num w)"
  by (simp add: fetched_def)

end
