(* ===== verification/Vm_Properties.thy ===== *)
theory Vm_Properties
  imports Vm_Demo
begin

text \<open>
  The properties of the virtual machine: its invariant, its exceptions, what each instruction does
  to the operand stack, calls, runs, and the heap instructions. Each is a few steps over the lemmas
  of the component theories, followed by a witness that applies it to a concrete machine.
\<close>

subsection \<open>Invariant and exceptions\<close>



text \<open>C14. An instruction that raises an exception, whichever it is, has not changed the machine: no
  guard comes after an assignment.\<close>

theorem exception_leaves_state:
  "tvm_exec_opcode env vm = Some (e, vm') \<Longrightarrow> e \<noteq> EXCEPT_OK \<Longrightarrow> vm' = vm"
  by (rule exec_opcode_atomic)

theorem exception_leaves_state_witness:
  "tvm_exec_opcode demo_env (boot [inst OP_ADD 0]) =
     Some (EXCEPT_STACK_UNDERFLOW, boot [inst OP_ADD 0])"
proof -
  have "tvm_exec_opcode demo_env (boot [inst OP_ADD 0]) =
      exec_op OP_ADD demo_env (num 0) (boot [inst OP_ADD 0])"
    by (rule exec_inst) (simp_all add: capacities)
  then have "map_option fst (tvm_exec_opcode demo_env (boot [inst OP_ADD 0])) = Some EXCEPT_STACK_UNDERFLOW"
    by (simp add: op_add_def bin_op_def exc_def)
  then obtain vm' where r: "tvm_exec_opcode demo_env (boot [inst OP_ADD 0]) = Some (EXCEPT_STACK_UNDERFLOW, vm')"
    by auto
  with exception_leaves_state [OF r] show ?thesis by simp
qed

text \<open>C15. The stack effect of every instruction: it consumes and produces as many objects as
  \<open>stack_use\<close> says, never reads below what it consumes, leaves the rest of the operand stack as it
  was, and changes the calls, the frames, the heap, the program and the instruction pointer only
  where \<open>effect\<close> allows it.\<close>

theorem instruction_effect:
  assumes "tvm_exec_opcode env vm = Some (EXCEPT_OK, vm')"
  shows "\<exists>t. optype_of (op_type (code (program vm) (ip vm))) = Some t \<and>
    effect t (operand (code (program vm) (ip vm))) vm vm'"
  using assms by (rule exec_opcode_effect) blast

theorem instruction_effect_witness:
  "effect OP_PUSH (num 5) (boot [inst OP_PUSH 5]) (next_ip (push_obj (num 5) (boot [inst OP_PUSH 5])))"
proof -
  have "tvm_exec_opcode demo_env (boot [inst OP_PUSH 5]) =
      Some (EXCEPT_OK, next_ip (push_obj (num 5) (boot [inst OP_PUSH 5])))"
    by (subst exec_inst [of _ OP_PUSH 5]) (simp_all add: capacities op_push_def ok_def)
  from instruction_effect [OF this] show ?thesis by simp
qed

subsection \<open>Calls\<close>

text \<open>C7. A procedure call is transparent: after \<open>CALL\<close>, any body that does not itself return from
  the procedure (it may call others), and \<open>RET\<close>, control is at the instruction after the call and
  every activation, the caller's local variables included, is what it was before the call.\<close>

theorem call_return_transparent:
  assumes "vm_world env" and "vm_ok vm"
    and "vm_step env vm vm1" and "fetched vm = Some (OP_CALL, opnd)"
    and "vm_trace env vm1 xs vm2" and "lifo_depth (map call_role xs) 0 = Some 0"
    and "vm_step env vm2 vm3" and "fetched vm2 = Some (OP_RET, opnd')"
  shows "ip vm3 = ip vm + 1 \<and> activations vm3 = activations vm \<and> rsp vm3 = rsp vm"
  using vm_world.call_body_return [OF assms] by blast

definition call_demo :: machine where
  "call_demo = boot [inst OP_CALL 2, inst OP_HALT 0, inst OP_PUSH 7, inst OP_STORE 0, inst OP_RET 0]"

definition frames_of :: "vars \<Rightarrow> frame_store" where
  "frames_of vs = \<lparr>fr_cells = [1 \<mapsto> \<lparr>fr_next = Some 2, fr_prev = None, local_vars = zero_vars\<rparr>,
     2 \<mapsto> \<lparr>fr_next = None, fr_prev = Some 1, local_vars = vs\<rparr>], fr_fresh = 3\<rparr>"

definition call_demo1 :: machine where
  "call_demo1 = call_demo\<lparr>return_stack := (return_stack call_demo)(0 := 1), rsp := 1, ip := 2,
     frame := 2, frames := frames_of zero_vars, tgc_counter := 1\<rparr>"

definition call_demo2 :: machine where
  "call_demo2 = next_ip (push_obj (num 7) call_demo1)"

definition call_demo3 :: machine where
  "call_demo3 = next_ip (call_demo2\<lparr>frames := frames_of (zero_vars(0 := num 7)), sp := 0\<rparr>)"

definition call_demo4 :: machine where
  "call_demo4 = call_demo3\<lparr>rsp := 0, ip := 1, frame := 1,
     frames := \<lparr>fr_cells = [1 \<mapsto> \<lparr>fr_next = Some 2, fr_prev = None, local_vars = zero_vars\<rparr>],
                fr_fresh = 3\<rparr>\<rparr>"

lemmas call_demo_defs = call_demo4_def call_demo3_def call_demo2_def call_demo1_def call_demo_def

lemma call_demo_counter: "tgc_counter call_demo1 = 1" "tgc_counter call_demo2 = 1"
  "tgc_counter call_demo3 = 1" "tgc_counter call_demo4 = 1"
  by (simp_all add: call_demo4_def call_demo3_def call_demo2_def call_demo1_def push_obj_def next_ip_def)

lemma call_demo_step1: "vm_step demo_env call_demo call_demo1"
proof (rule step_inst [of _ OP_CALL 2])
  show "exec_op OP_CALL demo_env (num 2) call_demo = ok (call_demo\<lparr>return_stack := (return_stack call_demo)(0 := 1),
     rsp := 1, ip := 2, frame := 2, frames := frames_of zero_vars\<rparr>)"
    by (simp add: call_demo_def call_demo1_def op_call_def capacities tvm_frame_next_def
      tvm_frame_init_def fr_upd_def frames_of_def)
qed (simp_all add: call_demo_def call_demo1_def running_def capacities tick_def)

lemma call_demo_step2: "vm_step demo_env call_demo1 call_demo2"
proof (rule step_inst [of _ OP_PUSH 7])
  show "exec_op OP_PUSH demo_env (num 7) call_demo1 = ok call_demo2"
    by (simp add: call_demo2_def op_push_def capacities) (simp add: call_demo_defs)
  show "tick call_demo2 = call_demo2" by (rule tick_1) (rule call_demo_counter)
qed (simp_all add: call_demo_defs running_def capacities)

lemma call_demo_step3: "vm_step demo_env call_demo2 call_demo3"
proof (rule step_inst [of _ OP_STORE 0])
  show "exec_op OP_STORE demo_env (num 0) call_demo2 = ok call_demo3"
    by (simp add: call_demo_defs op_store_def capacities frame_set_def fr_upd_def frames_of_def
      push_obj_def next_ip_def top_obj_def fun_upd_twist)
  show "tick call_demo3 = call_demo3" by (rule tick_1) (rule call_demo_counter)
qed (simp_all add: call_demo_defs running_def capacities push_obj_def next_ip_def)

lemma call_demo_step4: "vm_step demo_env call_demo3 call_demo4"
proof (rule step_inst [of _ OP_RET 0])
  show "exec_op OP_RET demo_env (num 0) call_demo3 = ok call_demo4"
    by (simp add: call_demo_defs op_ret_def tvm_frame_prev_def tvm_frame_free_def frames_of_def
      push_obj_def next_ip_def)
  show "tick call_demo4 = call_demo4" by (rule tick_1) (rule call_demo_counter)
qed (simp_all add: call_demo_defs running_def capacities push_obj_def next_ip_def)

lemma call_demo_fetched:
  "fetched call_demo = Some (OP_CALL, num 2)" "fetched call_demo1 = Some (OP_PUSH, num 7)"
  "fetched call_demo2 = Some (OP_STORE, num 0)" "fetched call_demo3 = Some (OP_RET, num 0)"
  by (rule fetched_inst, simp add: call_demo_defs push_obj_def next_ip_def)+

theorem call_return_transparent_witness:
  "ip call_demo4 = ip call_demo + 1 \<and> activations call_demo4 = activations call_demo \<and>
     rsp call_demo4 = rsp call_demo"
proof (rule call_return_transparent [OF demo.vm_world_axioms _ call_demo_step1 call_demo_fetched(1)
      _ _ call_demo_step4 call_demo_fetched(4)])
  show "vm_trace demo_env call_demo1 [(OP_PUSH, num 7), (OP_STORE, num 0)] call_demo3"
    by (rule trace_step [OF call_demo_step2 call_demo_fetched(2)
        trace_step [OF call_demo_step3 call_demo_fetched(3) trace_nil]])
  show "vm_ok call_demo" by (simp add: call_demo_def)
qed (simp add: call_role_def)

subsection \<open>The operand stack\<close>

text \<open>C13. Every instruction on the operand stack computes what the abstract machine says, on the list
  of 32-bit values of the stack: integers modulo 2^32 with truncating division, IEEE floats, shifts,
  comparisons as 0 or 1, and the stack manipulations; with the same exceptions, and undefined
  exactly when the abstract operation is.\<close>

theorem stack_refinement:
  assumes "sp vm \<le> TVM_STACK_CAPACITY" and "abs_step t (ui32 opnd) = Some f"
  shows "abs_result (exec_op t env opnd vm) = f (vals vm)"
  by (rule exec_op_refines [OF assms])

theorem stack_refinement_witness:
  "abs_result (exec_op OP_SUB demo_env (num 0) (push_obj (num 3) (push_obj (num 10) (boot [])))) =
     Some (Inr [7])"
proof -
  have "abs_step OP_SUB (ui32 (num 0)) = Some (abs_binary True (int_fun (-)))" by simp
  moreover have "sp (push_obj (num 3) (push_obj (num 10) (boot []))) \<le> TVM_STACK_CAPACITY"
    by (simp add: push_obj_def capacities)
  ultimately show ?thesis
    using stack_refinement [of "push_obj (num 3) (push_obj (num 10) (boot []))" OP_SUB "num 0" _ demo_env]
    by (simp add: int_fun_def capacities)
qed

text \<open>C12. The same for whole sequences of executed instructions: as long as only instructions on
  the operand stack are executed, the values on it are those the abstract machine computes.\<close>

fun abs_run :: "(optype_t \<times> object_t) list \<Rightarrow> u32 list \<Rightarrow> u32 list option" where
  "abs_run [] s = Some s"
| "abs_run ((t, opnd) # xs) s =
     (case abs_step t (ui32 opnd) of
        None \<Rightarrow> None
      | Some f \<Rightarrow> (case f s of Some (Inr s') \<Rightarrow> abs_run xs s' | _ \<Rightarrow> None))"

lemma vals_tick [simp]: "vals (tick vm) = vals vm"
  by (simp add: vals_def)

lemma trace_refines:
  "vm_trace env vm xs vm' \<Longrightarrow> vm_world env \<Longrightarrow> vm_ok vm \<Longrightarrow>
     (\<forall>(t, opnd) \<in> set xs. abs_step t (ui32 opnd) \<noteq> None) \<Longrightarrow> abs_run xs (vals vm) = Some (vals vm')"
proof (induction rule: vm_trace.induct)
  case (trace_step vm vm1 x xs vm2)
  obtain t opnd where x: "x = (t, opnd)" by (cases x)
  from step_perform [OF trace_step.hyps(1,2)] obtain u where
    u: "exec_op t env opnd vm = Some (EXCEPT_OK, u)" "vm1 = tick u"
    by (auto simp: perform_Some x)
  obtain f where f: "abs_step t (ui32 opnd) = Some f" using trace_step.prems(3) by (auto simp: x)
  have "sp vm \<le> TVM_STACK_CAPACITY" using trace_step.prems(2) by (simp add: vm_ok_def)
  from exec_op_refines [OF this f, of env] u have "f (vals vm) = Some (Inr (vals vm1))"
    by (simp add: abs_result_def)
  moreover have "vm_ok vm1"
    by (rule vm_world.step_ok [OF trace_step.prems(1,2) trace_step.hyps(1)])
  ultimately show ?case using trace_step by (simp add: x f)
qed simp



subsection \<open>Floats\<close>



text \<open>C31. An integer of at most 24 bits survives the conversion to float and back.\<close>

lemma cf2i_ci2f:
  assumes "vals vm = a # s" and "\<bar>sint a\<bar> \<le> 2 ^ 24"
  shows "abs_result (op_ci2f vm) = Some (Inr (f32_of_int (sint a) # s))"
    and "vals vm1 = f32_of_int (sint a) # s \<Longrightarrow> abs_result (op_cf2i vm1) = Some (Inr (a # s))"
proof -
  show "abs_result (op_ci2f vm) = Some (Inr (f32_of_int (sint a) # s))"
    unfolding op_ci2f_def un_op_refines assms(1) by simp
  show "vals vm1 = f32_of_int (sint a) # s \<Longrightarrow> abs_result (op_cf2i vm1) = Some (Inr (a # s))"
    unfolding op_cf2i_def un_op_refines using i32_of_f32_of_int [OF assms(2)] by simp
qed

theorem int_float_roundtrip:
  assumes "vals vm = a # s" and "\<bar>sint a\<bar> \<le> 2 ^ 24"
  shows "\<exists>vm1 vm2. op_ci2f vm = Some (EXCEPT_OK, vm1) \<and> op_cf2i vm1 = Some (EXCEPT_OK, vm2) \<and>
    vals vm2 = vals vm"
proof -
  from cf2i_ci2f(1) [OF assms] obtain vm1 where 1: "op_ci2f vm = Some (EXCEPT_OK, vm1)"
    "vals vm1 = f32_of_int (sint a) # s"
    by (auto simp: abs_result_def split: if_splits)
  from cf2i_ci2f(2) [OF assms 1(2)] obtain vm2 where "op_cf2i vm1 = Some (EXCEPT_OK, vm2)" "vals vm2 = a # s"
    by (auto simp: abs_result_def split: if_splits)
  with 1 assms(1) show ?thesis by auto
qed

theorem int_float_roundtrip_witness:
  "\<exists>vm1 vm2. op_ci2f (push_obj (num 5) (boot [])) = Some (EXCEPT_OK, vm1) \<and>
     op_cf2i vm1 = Some (EXCEPT_OK, vm2) \<and> vals vm2 = vals (push_obj (num 5) (boot []))"
  by (rule int_float_roundtrip [of _ 5 "[]"]) simp_all

subsection \<open>Runs\<close>




lemma optype_zero: "optype_of 0 = Some OP_NOP"
  by (simp add: optype_of_def all_optypes_def)

lemma boot_total: "length ops < TVM_PROGRAM_CAPACITY \<Longrightarrow>
    (\<forall>x \<in> set ops. \<exists>t w. x = inst t w \<and> total_op t) \<Longrightarrow> total_program (program (boot ops))"
  by (auto simp: total_program_def zero_opcode_def optype_zero total_op_def memory_op_def
      dest!: nth_mem)



lemma boot_forward:
  assumes "\<forall>i < length tws. fst (tws ! i) \<notin> {OP_CALL, OP_RET} \<and>
    (fst (tws ! i) \<in> {OP_JMP, OP_JZ, OP_JNZ} \<longrightarrow> i < unat (snd (tws ! i)))"
  shows "forward_program (program (boot (map (\<lambda>(t, w). inst t w) tws)))"
  using assms
  by (auto simp: forward_program_def zero_opcode_def optype_zero split_def)


text \<open>The loop condition \<open>vm->ip <= vm->program.size\<close> lets a program that fills the code array
  run off its end: 1024 instructions that all succeed are followed by a read of the entry 1024,
  which does not exist.\<close>

theorem full_code_array_overrun:
  assumes "length ops = TVM_PROGRAM_CAPACITY" and "\<forall>x \<in> set ops. op_type x = optype_code OP_NOP"
  shows "tvm_run_loop (TVM_PROGRAM_CAPACITY + 1) env (boot ops) = None"
  using full_program_overruns [of "boot ops" TVM_PROGRAM_CAPACITY env] assms by simp

theorem full_code_array_overrun_witness:
  "tvm_run_loop (TVM_PROGRAM_CAPACITY + 1) demo_env
     (boot (replicate TVM_PROGRAM_CAPACITY (inst OP_NOP 0))) = None"
  by (rule full_code_array_overrun) auto

text \<open>The garbage collector is never due: the increment of \<open>tgc_counter\<close> is the statement that
  its test guards, so the counter stays at 1 for ever after the first instruction.\<close>

lemma step_counter: "vm_step env vm vm' \<Longrightarrow> \<exists>u. tgc_counter u = tgc_counter vm \<and> vm' = tick u"
  by (auto elim!: vm_stepE exec_opcode_effect simp: effect_def same_const_def)

theorem collector_counter_stuck:
  assumes "tgc_counter vm = 0" and "vm_step env vm vm1" and "reachable env vm1 vm'"
  shows "tgc_counter vm' = 1"
  using assms(3)
proof (induction rule: reachable.induct)
  case reach_init
  from step_counter [OF assms(2)] assms(1) show ?case by (auto simp: tick_def)
next
  case (reach_step vm2 vm3)
  with step_counter [OF reach_step.hyps(2)] tick_1 show ?case by metis
qed

theorem collector_counter_stuck_witness: "tgc_counter call_demo3 = 1"
  by (rule collector_counter_stuck [OF _ call_demo_step1 reach_step [OF reach_step [OF reach_init
        call_demo_step2] call_demo_step3]]) (simp add: call_demo_def)

end
