(* ===== verification/Vm_Heap_Properties.thy ===== *)
theory Vm_Heap_Properties
  imports Vm_Demo Tgc_Total
begin

text \<open>
  The properties of the heap instructions, and two facts about the tagged objects that the
  instruction set does not make visible.
\<close>

text \<open>C23. \<open>HALLOC\<close> leaves the address of a block of the requested size and pointer count. When
  \<open>malloc\<close> gave memory for it, all its data is allocated and none of it was before.\<close>

theorem halloc_live_block:
  assumes "vm_world env" and "vm_ok vm" and "exec_op OP_HALLOC env opnd vm = Some (EXCEPT_OK, vm')"
  shows "\<exists>a b. ui64 (top_obj 1 vm') = word_of_nat a \<and> block_read (mem vm') a = Some b \<and>
    gb_size b = unat (ui32 (top_obj 2 vm)) \<and> gb_pointer_count b = unat (ui32 (top_obj 1 vm)) \<and>
    (gb_value b \<noteq> 0 \<longrightarrow> live_block (mem vm') a b \<and>
      (\<forall>x. gb_value b \<le> x \<and> x < gb_value b + gb_size b \<longrightarrow> cells (mem vm) x = None))"
  using vm_world.halloc_block [OF assms] by blast

definition halloc_demo :: machine where
  "halloc_demo = push_obj (num 0) (push_obj (num 24) (boot []))"

lemma vm_ok_halloc_demo: "vm_ok halloc_demo"
  using vm_ok_boot [of "[]"] by (simp add: vm_ok_def halloc_demo_def push_obj_def capacities)

lemma halloc_demo_runs: "\<exists>vm'. exec_op OP_HALLOC demo_env (num 0) halloc_demo = Some (EXCEPT_OK, vm')"
proof -
  have "\<exists>a m' h'. tgc_create_block bump_alloc (\<lambda>_. 0) empty_memory empty_heap 24 0 = Some (a, m', h')"
    by (rule bump_create_block_total [OF mem_ok_empty heap_ok_empty])
      (simp_all add: empty_memory_def empty_heap_def)
  then show ?thesis
    by (auto simp: op_halloc_def halloc_demo_def demo_env_def push_obj_def top_obj_def ok_def)
qed

theorem halloc_live_block_witness:
  "\<exists>vm' a b. ui64 (top_obj 1 vm') = word_of_nat a \<and> block_read (mem vm') a = Some b \<and> gb_size b = 24"
proof -
  obtain vm' where r: "exec_op OP_HALLOC demo_env (num 0) halloc_demo = Some (EXCEPT_OK, vm')"
    using halloc_demo_runs by blast
  from halloc_live_block [OF demo.vm_world_axioms vm_ok_halloc_demo r] show ?thesis
    by (auto simp: halloc_demo_def push_obj_def top_obj_def)
qed



subsection \<open>Stores through a block\<close>


definition demo_block :: gc_block where
  "demo_block = \<lparr>gb_value = 16, gb_pointer_count = 0, gb_size = 5, gb_pointers = 0, gb_marked = 0\<rparr>"

definition demo_memory :: memory where
  "demo_memory = \<lparr>cells = poke (poke Map.empty 16 (replicate 5 0)) 64 (block_bytes demo_block),
     chunks = [16 \<mapsto> 5], brk = 104\<rparr>"

lemma live_demo_block: "live_block demo_memory 64 demo_block"
proof -
  have len: "length (block_bytes demo_block) = 40" by (simp add: gc_block_size_def)
  have "mem_read demo_memory 64 gc_block_size = Some (block_bytes demo_block)"
    by (simp add: mem_read_Some_iff demo_memory_def poke_apply len gc_block_size_def)
  moreover have "block_ok demo_block" by (simp add: block_ok_def demo_block_def)
  ultimately have "block_read demo_memory 64 = Some demo_block"
    by (simp add: block_read_def block_of_bytes_block_bytes)
  moreover have "mem_ok_range demo_memory 16 5"
    by (auto simp: mem_ok_range_iff demo_memory_def poke_apply)
  ultimately show ?thesis by (simp add: live_block_def demo_block_def)
qed

definition hset_demo :: "u32 \<Rightarrow> u32 \<Rightarrow> machine" where
  "hset_demo i n = (push_obj (num n) (push_obj (num i) (push_obj (num 64) (push_obj (num 200)
     (boot [])))))\<lparr>mem := demo_memory\<rparr>"

lemma hset_demo_simps [simp]:
  "sp (hset_demo i n) = 4" "mem (hset_demo i n) = demo_memory"
  "top_obj (Suc 0) (hset_demo i n) = num n" "top_obj 2 (hset_demo i n) = num i"
  "top_obj 3 (hset_demo i n) = num 64" "top_obj 4 (hset_demo i n) = num 200"
  by (simp_all add: hset_demo_def push_obj_def top_obj_def)

lemma ui64_num_64: "unat (ui64 (num 64)) = 64"
  by (simp add: num_def)


text \<open>C32. The bound check of \<open>HSETOF\<close> looks at the first byte only: a store that begins inside the
  block and ends past it is let through, and writes memory that does not belong to the block
  (undefined when that memory is not mapped).\<close>

theorem hsetof_overrun:
  assumes "4 \<le> sp vm" and "n = ui32 (top_obj 1 vm)" and "off = ui32 (top_obj 2 vm)"
    and "live_block (mem vm) (unat (ui64 (top_obj 3 vm))) b" and "prim_size n"
    and "unat off < gb_size b" and "gb_size b < unat off + unat n"
    and "cells (mem vm) (gb_value b + gb_size b) = None"
  shows "op_hsetof vm = None"
  using heap_set_overrun [OF assms(4-8)] assms(1-3) by (simp add: op_hsetof_def Let_def)

theorem hsetof_overrun_witness: "op_hsetof (hset_demo 4 8) = None"
proof -
  have "live_block (mem (hset_demo 4 8)) (unat (ui64 (top_obj 3 (hset_demo 4 8)))) demo_block"
    using live_demo_block by (simp add: ui64_num_64)
  moreover have "cells demo_memory 21 = None"
    by (simp add: demo_memory_def poke_apply)
  ultimately show ?thesis
    using hsetof_overrun [of "hset_demo 4 8" 8 4 demo_block]
    by (simp add: prim_size_def demo_block_def)
qed

text \<open>\<open>HSET\<close> computes the offset of the element in 32 bits: an index that is larger by 2^30
  addresses the same element of 4 bytes, so that indices far outside the block pass the check.\<close>

theorem hset_index_wraps:
  assumes "4 \<le> sp vm" and "ui32 (top_obj 1 vm) = 4"
    and "vm' = set_top 2 ob vm" and "ui32 ob = ui32 (top_obj 2 vm) + 2 ^ 30"
  shows "map_option (\<lambda>(e, u). (e, mem u, sp u, ip u)) (op_hset vm') =
    map_option (\<lambda>(e, u). (e, mem u, sp u, ip u)) (op_hset vm)"
proof -
  have t: "top_obj 1 vm' = top_obj 1 vm" "top_obj 3 vm' = top_obj 3 vm" "top_obj 4 vm' = top_obj 4 vm"
    "ui32 (top_obj 2 vm') = ui32 (top_obj 2 vm) + 2 ^ 30" "sp vm' = sp vm" "mem vm' = mem vm" "ip vm' = ip vm"
    using assms(1,3,4) by (auto simp: set_top_def top_obj_def)
  have wrap: "x + 4294967296 = x" for x :: u32 by simp
  show ?thesis
    using assms(1,2)
    by (auto simp: op_hset_def Let_def t t(1) [unfolded One_nat_def] wrap heap_set_def exc_def ok_def next_ip_def
      split: Option.bind_splits option.splits)
qed

theorem hset_index_wraps_witness:
  "map_option (\<lambda>(e, u). (e, mem u, sp u, ip u)) (op_hset (set_top 2 (num 0x40000000) (hset_demo 0 4))) =
    map_option (\<lambda>(e, u). (e, mem u, sp u, ip u)) (op_hset (hset_demo 0 4))"
  by (rule hset_index_wraps [OF _ _ refl]) simp_all

subsection \<open>Tags and the width of objects\<close>

text \<open>\<open>DUP\<close> copies the 32-bit member only: the tag and the upper half of the new object are
  those that happened to be in the slot. A duplicated 64-bit address is not the address.\<close>

theorem dup_keeps_slot:
  assumes "op_dup vm = Some (EXCEPT_OK, vm')"
  shows "ui32 (top_obj 1 vm') = ui32 (top_obj 1 vm) \<and>
    obj_type (top_obj 1 vm') = obj_type (stack vm (sp vm)) \<and>
    drop_bit 32 (ui64 (top_obj 1 vm')) = drop_bit 32 (ui64 (stack vm (sp vm)))"
  using assms by (auto simp: op_dup_def top_obj_def next_ip_def push_obj_def set_ui32_high split: if_splits)

theorem dup_keeps_slot_witness:
  "\<exists>vm'. op_dup (push_obj \<lparr>obj_type = 1, ui64 = 0x500000007\<rparr> (boot [])) = Some (EXCEPT_OK, vm') \<and>
     drop_bit 32 (ui64 (top_obj 1 vm')) = 0"
proof -
  obtain vm' where r: "op_dup (push_obj \<lparr>obj_type = 1, ui64 = 0x500000007\<rparr> (boot [])) = Some (EXCEPT_OK, vm')"
    by (auto simp: op_dup_def push_obj_def capacities ok_def)
  moreover have "stack (boot []) 1 = zero_object" by (simp add: boot_def tvm_init_def tvm_frame_init_def Let_def)
  ultimately show ?thesis
    using dup_keeps_slot [OF r] by (auto simp: push_obj_def zero_object_def)
qed

text \<open>\<open>LTF\<close> is the same instruction as \<open>LEF\<close>: it compares with \<open><=\<close>. On equal operands it
  gives 1.\<close>

theorem ltf_true_on_equal:
  assumes "vals vm = b # a # s" and "length (vals vm) < TVM_STACK_CAPACITY" and "f32_eq a b"
  shows "abs_result (op_ltf vm) = Some (Inr (1 # s)) \<and> op_ltf vm = op_lef vm"
proof -
  have "f32_le a b" using assms(3) by (simp add: f32_eq_def f32_le_def)
  with assms show ?thesis by (simp add: op_ltf_def op_lef_def bin_op_refines)
qed

theorem ltf_true_on_equal_witness:
  "abs_result (op_ltf (push_obj (num 0x3F800000) (push_obj (num 0x3F800000) (boot [])))) = Some (Inr [1])"
proof (rule conjunct1 [OF ltf_true_on_equal])
  show "vals (push_obj (num 0x3F800000) (push_obj (num 0x3F800000) (boot []))) = 0x3F800000 # 0x3F800000 # []"
    by simp
qed (simp_all add: f32_eq_def f32_is_nan_def f32_exp_def capacities push_obj_def)

end
