(* ===== verification/Tasm_Ast.thy ===== *)
theory Tasm_Ast
  imports Tvm_Types
begin

text \<open>
  The syntax tree of \<open>include/tasm/tasm_ast.h\<close> and its printer \<open>tasm_ast_show\<close>. A node is a value
  of a datatype with the tags of the source; the 63 instruction tags \<open>AST_OP_x\<close> are one constructor
  applied to the instruction. A pointer that may be null is an option, a C string the list of its
  bytes before the terminator. The source location of a node, which only error messages show, and
  the memory the nodes live in are left out.
\<close>

datatype tasm_ast =
    AST_NONE
  | AST_FILE "tasm_ast list"
  | AST_CFUNCTION u8 bytes u16 "bytes option"   \<comment> \<open>return type, argument types and their count, name\<close>
  | AST_CSTRUCT
  | AST_DATA "tasm_ast option"
  | AST_OP optype_t bytes "tasm_ast option"     \<comment> \<open>instruction, its text, operand\<close>
  | AST_STRING bytes
  | AST_NUMBER bytes u32                        \<comment> \<open>text and value\<close>
  | AST_CHAR "bytes option"
  | AST_LABEL_DECL bytes
  | AST_LABEL_CALL bytes
  | AST_PROC "bytes option" "tasm_ast list"

subsection \<open>Printing\<close>

definition printf_d :: "u32 \<Rightarrow> bytes" where
  "printf_d w = fmt_d (sint w)"

definition print_indent :: "nat \<Rightarrow> bytes" where
  "print_indent indent = concat (replicate indent (bytes_of ''  ''))"

text \<open>The instructions the printer knows: what it prints, whether the instruction's text follows,
  whether the operand follows on lines of its own.\<close>

definition shown_ops :: "(optype_t \<times> string \<times> bool \<times> bool) list" where
  "shown_ops =
    [(OP_NOP, ''NOP'', False, False),
     (OP_PUSH, ''PUSH'', False, True),
     (OP_POP, ''POP'', False, False),
     (OP_ADD, ''ADD'', False, False),
     (OP_SUB, ''SUB'', False, False),
     (OP_MULT, ''MULT'', False, False),
     (OP_DIV, ''DIV'', False, False),
     (OP_MOD, ''MOD'', False, False),
     (OP_DUP, ''DUP'', False, False),
     (OP_CLN, ''CLN'', True, True),
     (OP_SWAP, ''SWAP'', True, True),
     (OP_ADDF, ''ADDF'', False, False),
     (OP_SUBF, ''SUBF'', False, False),
     (OP_MULTF, ''MULTF'', False, False),
     (OP_DIVF, ''DIVF'', False, False),
     (OP_INC, ''INC'', False, False),
     (OP_INCF, ''INCF'', False, False),
     (OP_DEC, ''DEC'', False, False),
     (OP_DECF, ''DECF'', False, False),
     (OP_JMP, ''JMP'', True, True),
     (OP_JZ, ''JZ'', True, True),
     (OP_JNZ, ''JNZ'', True, True),
     (OP_CALL, ''CALL'', True, True),
     (OP_RET, ''RET'', False, False),
     (OP_CI2F, ''CI2F'', False, False),
     (OP_CI2U, ''CI2U'', False, False),
     (OP_CF2I, ''CF2I'', False, False),
     (OP_CF2U, ''CF2U'', False, False),
     (OP_CU2I, ''CU2I'', False, False),
     (OP_CU2F, ''CU2F'', False, False),
     (OP_GT, ''GT'', False, False),
     (OP_GTF, ''GTF'', False, False),
     (OP_LT, ''LT'', False, False),
     (OP_LTF, ''LTF'', False, False),
     (OP_EQ, ''EQ'', False, False),
     (OP_EQF, ''EQF'', False, False),
     (OP_GE, ''GE'', False, False),
     (OP_GEF, ''GEF'', False, False),
     (OP_LE, ''LE'', False, False),
     (OP_LEF, ''LEF'', False, False),
     (OP_AND, ''AND'', False, False),
     (OP_OR, ''OR'', False, False),
     (OP_NOT, ''NOT'', False, False),
     (OP_LOADC, ''LOADC'', False, False),
     (OP_ALOADC, ''ALOADC'', False, False),
     (OP_LOAD, ''LOAD'', True, True),
     (OP_STORE, ''STORE'', True, True),
     (OP_GLOAD, ''GLOAD'', True, True),
     (OP_GSTORE, ''GSTORE'', True, True),
     (OP_HALLOC, ''HALLOC'', False, False),
     (OP_HSET, ''HSET'', False, False),
     (OP_HSETOF, ''HSETOF'', False, False),
     (OP_PUTS, ''PUTS'', False, False),
     (OP_PUTC, ''PUTC'', False, False),
     (OP_NATIVE, ''NATIVE'', True, True),
     (OP_HALT, ''HALT'', False, False)]"

definition newline :: bytes where "newline = [10]"

fun tasm_ast_show :: "tasm_ast \<Rightarrow> nat \<Rightarrow> bytes option"
  and show_ptr :: "tasm_ast option \<Rightarrow> nat \<Rightarrow> bytes option"
  and show_lines :: "tasm_ast list \<Rightarrow> nat \<Rightarrow> bytes option" where
  "tasm_ast_show AST_NONE indent = Some (print_indent indent @ bytes_of ''NONE'' @ newline)"
| "tasm_ast_show (AST_FILE ls) indent = do {
     rest \<leftarrow> show_lines ls (indent + 1);
     Some (print_indent indent @ bytes_of ''FILE'' @ newline @ rest) }"
| "tasm_ast_show (AST_OP op name oprnd) indent =
     (case map_of shown_ops op of
        None \<Rightarrow> Some (print_indent indent @ bytes_of ''UNKNOWN'' @ newline)
      | Some (text, named, full) \<Rightarrow> do {
          rest \<leftarrow> (if full then show_ptr oprnd (indent + 1) else Some []);
          Some (print_indent indent @ bytes_of text @ (if named then 32 # name else []) @ newline @ rest) })"
| "tasm_ast_show (AST_NUMBER text v) indent =
     Some (print_indent indent @ bytes_of ''NUMBER: '' @ text @ newline)"
| "tasm_ast_show (AST_CHAR v) indent = do {
     text \<leftarrow> v;
     Some (print_indent indent @ bytes_of ''CHAR: '' @ text @ newline) }"
| "tasm_ast_show (AST_STRING v) indent =
     Some (print_indent indent @ bytes_of ''STRING: '' @ 34 # v @ 34 # bytes_of '' length: '' @
       printf_d (word_of_nat (length v)) @ newline)"
| "tasm_ast_show (AST_LABEL_DECL name) indent =
     Some (print_indent indent @ bytes_of ''LABEL DECL: '' @ name @ newline)"
| "tasm_ast_show (AST_LABEL_CALL name) indent =
     Some (print_indent indent @ bytes_of ''LABEL CALL: '' @ name @ newline)"
| "tasm_ast_show (AST_PROC name ls) indent = do {
     text \<leftarrow> name;
     rest \<leftarrow> show_lines ls (indent + 1);
     Some (print_indent indent @ bytes_of ''PROC '' @ text @ newline @ rest) }"
| "tasm_ast_show (AST_DATA v) indent = do {
     rest \<leftarrow> show_ptr v (indent + 1);
     Some (print_indent indent @ bytes_of ''DATA'' @ newline @ rest) }"
| "tasm_ast_show AST_CSTRUCT indent = Some (print_indent indent)"
| "tasm_ast_show (AST_CFUNCTION ret args count name) indent = do {
     text \<leftarrow> name;
     Some (print_indent indent @ bytes_of ''CFUNCTION '' @ text @ bytes_of '': '' @
       printf_d (ucast ret) @ bytes_of '' -> ('' @
       concat (map (\<lambda>t. printf_d (ucast t) @ bytes_of '', '') (take (unat count) args)) @
       bytes_of '')'' @ newline) }"
| "show_ptr None indent = Some []"
| "show_ptr (Some node) indent = tasm_ast_show node indent"
| "show_lines [] indent = Some []"
| "show_lines (l # ls) indent = do {
     a \<leftarrow> tasm_ast_show l indent;
     b \<leftarrow> show_lines ls indent;
     Some (a @ b) }"

text \<open>The printer's blind spots: instructions it prints as \<open>UNKNOWN\<close>.\<close>

lemma shown_ops_missing:
  "filter (\<lambda>op. map_of shown_ops op = None) all_optypes =
     [OP_BAND, OP_BOR, OP_BNOT, OP_LSHFT, OP_RSHFT, OP_DEREF, OP_DEREFB]"
  by (simp add: all_optypes_def shown_ops_def)

end
