(* ===== verification/Tasm_Translator.thy ===== *)
theory Tasm_Translator
  imports Tasm_Ast
begin

text \<open>
  The second half of the assembler, \<open>include/tasm/tasm_translator.h\<close>: symbol tables, the two passes
  that resolve procedures and labels, and the translation of the lines of a file into instructions
  and constants. Each table is the list of its entries in order; a table or the code array that is
  full is not noticed by the code, so that a store into it is undefined behaviour (\<open>None\<close>). A
  duplicated name ends the process (\<open>Inl 1\<close>). The messages on the error output are left out.

  The assembler stops before this pass when the parser reported an error, so that names and
  operands are there; a null name is \<open>None\<close> as soon as it would be used.
\<close>

definition MAX_PROGRAM_CAPACITY :: nat where "MAX_PROGRAM_CAPACITY = 1024"
definition SYMBOL_LABEL_CALL_CAPACITY :: nat where "SYMBOL_LABEL_CALL_CAPACITY = 512"
definition SYMBOL_LABEL_DECL_CAPACITY :: nat where "SYMBOL_LABEL_DECL_CAPACITY = 512"
definition SYMBOL_PROC_DECL_CAPACITY :: nat where "SYMBOL_PROC_DECL_CAPACITY = 512"

lemmas symbol_capacities = MAX_PROGRAM_CAPACITY_def SYMBOL_LABEL_CALL_CAPACITY_def
  SYMBOL_LABEL_DECL_CAPACITY_def SYMBOL_PROC_DECL_CAPACITY_def

type_synonym symbols = "(bytes \<times> nat) list"

record symbol_table_t =
  label_decls :: symbols
  label_address_pointer :: nat
  label_calls :: symbols
  proc_decls :: symbols
  proc_address_pointer :: nat
  sym_err :: bool

record tasm_translator_t =
  tr_symbols :: symbol_table_t
  tr_program :: tvm_program_t
  beginning_address :: nat   \<comment> \<open>the static variable of \<open>tasm_translate_data\<close>\<close>

definition tasm_translator_init :: tasm_translator_t where
  "tasm_translator_init =
     \<lparr>tr_symbols = \<lparr>label_decls = [], label_address_pointer = 0, label_calls = [],
        proc_decls = [], proc_address_pointer = 0, sym_err = False\<rparr>,
      tr_program = zero_program, beginning_address = 0\<rparr>"

definition tasm_translator_is_err :: "tasm_translator_t \<Rightarrow> bool" where
  "tasm_translator_is_err tr = sym_err (tr_symbols tr)"

subsection \<open>Symbol tables\<close>

text \<open>The search returns the address of the first entry with the name, the code's \<open>-1\<close> is \<open>None\<close>.\<close>

primrec sym_find :: "symbols \<Rightarrow> bytes \<Rightarrow> nat option" where
  "sym_find [] name = None"
| "sym_find (e # es) name = (if name = fst e then Some (snd e) else sym_find es name)"

definition sym_add :: "nat \<Rightarrow> symbols \<Rightarrow> bytes \<Rightarrow> nat \<Rightarrow> symbols option" where
  "sym_add cap es name addr = (if length es < cap then Some (es @ [(name, addr)]) else None)"

definition get_addr_from_label_decl_symbol :: "tasm_translator_t \<Rightarrow> bytes \<Rightarrow> nat option" where
  "get_addr_from_label_decl_symbol tr name = sym_find (label_decls (tr_symbols tr)) name"

definition get_addr_from_label_call_symbol :: "tasm_translator_t \<Rightarrow> bytes \<Rightarrow> nat option" where
  "get_addr_from_label_call_symbol tr name = sym_find (label_calls (tr_symbols tr)) name"

definition get_addr_from_proc_decl_symbol :: "tasm_translator_t \<Rightarrow> bytes \<Rightarrow> nat option" where
  "get_addr_from_proc_decl_symbol tr name = sym_find (proc_decls (tr_symbols tr)) name"

text \<open>A label inside a procedure is named \<open>proc$label\<close>. The name is built in an arena of 1024
  bytes, which a longer one would overrun.\<close>

definition scoped_name :: "bytes option \<Rightarrow> bytes \<Rightarrow> bytes option" where
  "scoped_name prefix name = (case prefix of
     None \<Rightarrow> Some name
   | Some p \<Rightarrow> if length name + length p + 2 \<le> 1024 then Some (p @ 36 # name) else None)"

subsection \<open>The resolving passes\<close>

definition declare_label ::
  "tasm_translator_t \<Rightarrow> bytes \<Rightarrow> bytes option \<Rightarrow> (int + tasm_translator_t) option" where
  "declare_label tr lname prefix = do {
     name \<leftarrow> scoped_name prefix lname;
     if sym_find (label_decls (tr_symbols tr)) name \<noteq> None then Some (Inl 1)
     else do {
       es \<leftarrow> sym_add SYMBOL_LABEL_DECL_CAPACITY (label_decls (tr_symbols tr)) name
              (label_address_pointer (tr_symbols tr));
       Some (Inr (tr\<lparr>tr_symbols := (tr_symbols tr)\<lparr>label_decls := es\<rparr>\<rparr>)) } }"

fun tasm_resolve_labels ::
    "tasm_translator_t \<Rightarrow> tasm_ast \<Rightarrow> bytes option \<Rightarrow> (int + tasm_translator_t) option"
  and resolve_labels_lines ::
    "tasm_translator_t \<Rightarrow> tasm_ast list \<Rightarrow> bytes option \<Rightarrow> (int + tasm_translator_t) option" where
  "tasm_resolve_labels tr (AST_FILE ls) prefix = resolve_labels_lines tr ls None"
| "tasm_resolve_labels tr (AST_OP op iname oprnd) prefix =
     Some (Inr (tr\<lparr>tr_symbols := (tr_symbols tr)
       \<lparr>label_address_pointer := label_address_pointer (tr_symbols tr) + 1\<rparr>\<rparr>))"
| "tasm_resolve_labels tr (AST_LABEL_DECL lname) prefix = declare_label tr lname prefix"
| "tasm_resolve_labels tr (AST_PROC pname ls) prefix = resolve_labels_lines tr ls pname"
| "tasm_resolve_labels tr _ prefix = Some (Inr tr)"
| "resolve_labels_lines tr [] prefix = Some (Inr tr)"
| "resolve_labels_lines tr (l # ls) prefix =
     exit_bind (tasm_resolve_labels tr l prefix) (\<lambda>tr'. resolve_labels_lines tr' ls prefix)"

definition declare_proc :: "tasm_translator_t \<Rightarrow> bytes option \<Rightarrow> (int + tasm_translator_t) option" where
  "declare_proc tr pname = do {
     name \<leftarrow> pname;
     if sym_find (proc_decls (tr_symbols tr)) name \<noteq> None then Some (Inl 1)
     else do {
       es \<leftarrow> sym_add SYMBOL_PROC_DECL_CAPACITY (proc_decls (tr_symbols tr)) name
              (proc_address_pointer (tr_symbols tr));
       Some (Inr (tr\<lparr>tr_symbols := (tr_symbols tr)\<lparr>proc_decls := es\<rparr>\<rparr>)) } }"

fun tasm_resolve_procs :: "tasm_translator_t \<Rightarrow> tasm_ast \<Rightarrow> (int + tasm_translator_t) option"
  and resolve_procs_lines :: "tasm_translator_t \<Rightarrow> tasm_ast list \<Rightarrow> (int + tasm_translator_t) option"
  where
  "tasm_resolve_procs tr (AST_FILE ls) = resolve_procs_lines tr ls"
| "tasm_resolve_procs tr (AST_OP op iname oprnd) =
     Some (Inr (tr\<lparr>tr_symbols := (tr_symbols tr)
       \<lparr>proc_address_pointer := proc_address_pointer (tr_symbols tr) + 1\<rparr>\<rparr>))"
| "tasm_resolve_procs tr (AST_PROC pname ls) =
     exit_bind (declare_proc tr pname) (\<lambda>tr'. resolve_procs_lines tr' ls)"
| "tasm_resolve_procs tr _ = Some (Inr tr)"
| "resolve_procs_lines tr [] = Some (Inr tr)"
| "resolve_procs_lines tr (l # ls) =
     exit_bind (tasm_resolve_procs tr l) (\<lambda>tr'. resolve_procs_lines tr' ls)"

subsection \<open>Translation of the lines\<close>

definition program_push :: "tasm_translator_t \<Rightarrow> opcode_t \<Rightarrow> tasm_translator_t option" where
  "program_push tr c = (let p = tr_program tr in
     if prog_size p < MAX_PROGRAM_CAPACITY
     then Some (tr\<lparr>tr_program := p\<lparr>code := (code p)(prog_size p := c), prog_size := prog_size p + 1\<rparr>\<rparr>)
     else None)"

definition plain_opcode :: "optype_t \<Rightarrow> opcode_t" where
  "plain_opcode op = \<lparr>op_type = optype_code op, operand = zero_object\<rparr>"

definition operand_opcode :: "optype_t \<Rightarrow> stack_obj_type_t \<Rightarrow> u32 \<Rightarrow> opcode_t" where
  "operand_opcode op t w =
     \<lparr>op_type = optype_code op, operand = \<lparr>obj_type = obj_type_code t, ui64 = ucast w\<rparr>\<rparr>"

text \<open>The first byte of a character operand; the empty string's is its terminator.\<close>

definition first_char :: "bytes \<Rightarrow> u8" where
  "first_char v = (case v of [] \<Rightarrow> 0 | b # _ \<Rightarrow> b)"

definition translate_push ::
  "tasm_translator_t \<Rightarrow> tasm_ast option \<Rightarrow> tasm_translator_t option" where
  "translate_push tr oprnd = (case oprnd of
     None \<Rightarrow> None
   | Some (AST_NUMBER text v) \<Rightarrow> program_push tr (operand_opcode OP_PUSH STACK_OBJ_TYPE_NUMBER v)
   | Some (AST_CHAR v) \<Rightarrow> do {
       text \<leftarrow> v;
       program_push tr (operand_opcode OP_PUSH STACK_OBJ_TYPE_CHARACTER (scast (first_char text))) }
   | Some _ \<Rightarrow> Some tr)"

text \<open>The instructions with a number operand and the tag it gets.\<close>

definition number_ops :: "(optype_t \<times> stack_obj_type_t) list" where
  "number_ops =
     [(OP_CLN, STACK_OBJ_TYPE_VM_ADDRESS), (OP_SWAP, STACK_OBJ_TYPE_VM_ADDRESS),
      (OP_LOADC, STACK_OBJ_TYPE_NUMBER), (OP_ALOADC, STACK_OBJ_TYPE_DATA_ADDRESS),
      (OP_LOAD, STACK_OBJ_TYPE_NUMBER), (OP_STORE, STACK_OBJ_TYPE_NUMBER),
      (OP_GLOAD, STACK_OBJ_TYPE_NUMBER), (OP_GSTORE, STACK_OBJ_TYPE_NUMBER),
      (OP_DEREFB, STACK_OBJ_TYPE_NUMBER), (OP_NATIVE, STACK_OBJ_TYPE_NUMBER)]"

definition jump_ops :: "optype_t list" where "jump_ops = [OP_JMP, OP_JZ, OP_JNZ]"

definition translate_number ::
  "tasm_translator_t \<Rightarrow> optype_t \<Rightarrow> stack_obj_type_t \<Rightarrow> tasm_ast option \<Rightarrow> tasm_translator_t option" where
  "translate_number tr op t oprnd = (case oprnd of
     None \<Rightarrow> None
   | Some (AST_NUMBER text v) \<Rightarrow> program_push tr (operand_opcode op t v)
   | Some _ \<Rightarrow> Some tr)"

text \<open>A reference to a symbol is looked up among the labels, or among the procedures for a call, and
  entered into the table of references. The result is its full name, which the code stores into
  the node. An unknown one sets the error flag.\<close>

definition translate_label_call ::
  "tasm_translator_t \<Rightarrow> bytes \<Rightarrow> bytes option \<Rightarrow> bool \<Rightarrow> (bytes \<times> tasm_translator_t) option" where
  "translate_label_call tr lname prefix is_call = do {
     name \<leftarrow> scoped_name prefix lname;
     case (if prefix = None \<and> is_call then get_addr_from_proc_decl_symbol tr name
           else get_addr_from_label_decl_symbol tr name) of
       None \<Rightarrow> Some (name, tr\<lparr>tr_symbols := (tr_symbols tr)\<lparr>sym_err := True\<rparr>\<rparr>)
     | Some addr \<Rightarrow> do {
         es \<leftarrow> sym_add SYMBOL_LABEL_CALL_CAPACITY (label_calls (tr_symbols tr)) name addr;
         Some (name, tr\<lparr>tr_symbols := (tr_symbols tr)\<lparr>label_calls := es\<rparr>\<rparr>) } }"

text \<open>The address of a jump is then searched in the table of references, not among the labels.\<close>

definition translate_jump ::
  "tasm_translator_t \<Rightarrow> optype_t \<Rightarrow> tasm_ast option \<Rightarrow> bytes option \<Rightarrow> tasm_translator_t option" where
  "translate_jump tr op oprnd prefix = (case oprnd of
     None \<Rightarrow> None
   | Some (AST_NUMBER text v) \<Rightarrow> program_push tr (operand_opcode op STACK_OBJ_TYPE_VM_ADDRESS v)
   | Some (AST_LABEL_CALL lname) \<Rightarrow> do {
       (name, tr1) \<leftarrow> translate_label_call tr lname prefix False;
       case get_addr_from_label_call_symbol tr1 name of
         None \<Rightarrow> Some tr1
       | Some addr \<Rightarrow> program_push tr1 (operand_opcode op STACK_OBJ_TYPE_VM_ADDRESS (word_of_nat addr)) }
   | Some _ \<Rightarrow> Some tr)"

definition translate_call :: "tasm_translator_t \<Rightarrow> tasm_ast option \<Rightarrow> tasm_translator_t option" where
  "translate_call tr oprnd = (case oprnd of
     None \<Rightarrow> None
   | Some (AST_LABEL_CALL lname) \<Rightarrow> do {
       (name, tr1) \<leftarrow> translate_label_call tr lname None True;
       case get_addr_from_proc_decl_symbol tr1 name of
         None \<Rightarrow> Some tr1
       | Some addr \<Rightarrow>
           program_push tr1 (operand_opcode OP_CALL STACK_OBJ_TYPE_VM_ADDRESS (word_of_nat addr)) }
   | Some _ \<Rightarrow> Some tr)"

definition translate_op ::
  "tasm_translator_t \<Rightarrow> optype_t \<Rightarrow> tasm_ast option \<Rightarrow> bytes option \<Rightarrow> tasm_translator_t option" where
  "translate_op tr op oprnd prefix =
     (if op = OP_PUSH then translate_push tr oprnd
      else if op \<in> set jump_ops then translate_jump tr op oprnd prefix
      else if op = OP_CALL then translate_call tr oprnd
      else case map_of number_ops op of
        Some t \<Rightarrow> translate_number tr op t oprnd
      | None \<Rightarrow> program_push tr (plain_opcode op))"

definition tasm_translate_cfunction ::
  "tasm_translator_t \<Rightarrow> u8 \<Rightarrow> bytes \<Rightarrow> bytes option \<Rightarrow> tasm_translator_t option" where
  "tasm_translate_cfunction tr ret args fname = (case fname of
     None \<Rightarrow> None
   | Some name \<Rightarrow>
       (let p = tr_program tr; md = metadata p; m0 = modules md 0;
            cfun = \<lparr>rtype = ret, atypes = args, acount = word_of_nat (length args), symbol_name = name\<rparr>;
            m1 = m0\<lparr>cfuns := (cfuns m0)(cfun_count m0 := cfun), cfun_count := cfun_count m0 + 1\<rparr>
        in if cfun_count m0 < TVM_METADATA_MAX_CFUN_CAPACITY
           then Some (tr\<lparr>tr_program := p\<lparr>metadata := md\<lparr>modules := (modules md)(0 := m1)\<rparr>\<rparr>\<rparr>)
           else None))"

text \<open>One constant: its bytes are appended to the data, and where they begin to the references. The
  reference count grows for every value, also one of another kind.\<close>

definition data_bytes :: "tasm_ast \<Rightarrow> bytes option option" where
  "data_bytes v = (case v of
     AST_STRING s \<Rightarrow> Some (Some s)
   | AST_NUMBER text n \<Rightarrow> Some (Some (le_bytes 4 (unat n)))
   | AST_CHAR c \<Rightarrow> map_option (\<lambda>s. Some [first_char s]) c
   | _ \<Rightarrow> Some None)"

definition tasm_translate_data ::
  "tasm_translator_t \<Rightarrow> tasm_ast option \<Rightarrow> tasm_translator_t option" where
  "tasm_translate_data tr v = do {
     node \<leftarrow> v;
     item \<leftarrow> data_bytes node;
     let (ct, b1) = (case item of
         None \<Rightarrow> (const_table (tr_program tr), beginning_address tr)
       | Some bs \<Rightarrow>
           ((const_table (tr_program tr))
              \<lparr>referances := referances (const_table (tr_program tr)) @ [beginning_address tr],
               data := data (const_table (tr_program tr)) @ bs\<rparr>,
            beginning_address tr + length bs));
     Some (tr\<lparr>tr_program := (tr_program tr)\<lparr>const_table :=
               ct\<lparr>referance_count := referance_count ct + 1, data_size := b1\<rparr>\<rparr>,
             beginning_address := b1\<rparr>) }"

definition tasm_translate_line ::
  "tasm_translator_t \<Rightarrow> tasm_ast \<Rightarrow> bytes option \<Rightarrow> bool \<Rightarrow> tasm_translator_t option" where
  "tasm_translate_line tr node prefix is_call = (case node of
     AST_OP op iname oprnd \<Rightarrow> translate_op tr op oprnd prefix
   | AST_LABEL_CALL lname \<Rightarrow> map_option snd (translate_label_call tr lname prefix is_call)
   | AST_CFUNCTION ret args n fname \<Rightarrow> tasm_translate_cfunction tr ret args fname
   | AST_DATA v \<Rightarrow> tasm_translate_data tr v
   | _ \<Rightarrow> Some tr)"

primrec translate_lines ::
  "tasm_translator_t \<Rightarrow> tasm_ast list \<Rightarrow> bytes option \<Rightarrow> tasm_translator_t option" where
  "translate_lines tr [] prefix = Some tr"
| "translate_lines tr (l # ls) prefix = do {
     tr' \<leftarrow> tasm_translate_line tr l prefix False;
     translate_lines tr' ls prefix }"

definition tasm_translate_proc :: "tasm_translator_t \<Rightarrow> tasm_ast \<Rightarrow> tasm_translator_t option" where
  "tasm_translate_proc tr node = (case node of
     AST_PROC pname ls \<Rightarrow> translate_lines tr ls pname
   | _ \<Rightarrow> Some tr)"

definition tasm_translate_proc_and_line ::
  "tasm_translator_t \<Rightarrow> tasm_ast \<Rightarrow> tasm_translator_t option" where
  "tasm_translate_proc_and_line tr node = (case node of
     AST_PROC pname ls \<Rightarrow> tasm_translate_proc tr node
   | _ \<Rightarrow> tasm_translate_line tr node None False)"

primrec translate_file_lines ::
  "tasm_translator_t \<Rightarrow> tasm_ast list \<Rightarrow> tasm_translator_t option" where
  "translate_file_lines tr [] = Some tr"
| "translate_file_lines tr (l # ls) = do {
     tr' \<leftarrow> tasm_translate_proc_and_line tr l;
     translate_file_lines tr' ls }"

definition tasm_translate_unit :: "tasm_translator_t \<Rightarrow> tasm_ast \<Rightarrow> tasm_translator_t option" where
  "tasm_translate_unit tr node = (case node of
     AST_FILE ls \<Rightarrow> translate_file_lines tr ls
   | _ \<Rightarrow> Some tr)"

text \<open>What \<open>main\<close> of \<open>src/tasm.c\<close> does with the syntax tree of a file.\<close>

definition assemble_ast :: "tasm_ast \<Rightarrow> (int + tasm_translator_t) option" where
  "assemble_ast ast =
     exit_bind (tasm_resolve_procs tasm_translator_init ast) (\<lambda>tr1.
     exit_bind (tasm_resolve_labels tr1 ast None) (\<lambda>tr2.
     map_option Inr (tasm_translate_unit tr2 ast)))"

subsection \<open>Printing the tables\<close>

definition dump_symbols :: "symbols \<Rightarrow> bytes" where
  "dump_symbols es = concat (map (\<lambda>(name, addr).
     name @ bytes_of '', '' @ printf_d (word_of_nat addr) @ newline) es)"

definition symbol_dump :: "tasm_translator_t \<Rightarrow> bytes" where
  "symbol_dump tr = (let s = tr_symbols tr; head = bytes_of ''name, addr'' @ newline in
     bytes_of ''-------DECLS-------'' @ newline @ head @ dump_symbols (label_decls s) @
     bytes_of ''-------CALLS-------'' @ newline @ head @ dump_symbols (label_calls s) @
     bytes_of ''-------PROC-DECLS-------'' @ newline @ head @ dump_symbols (proc_decls s))"

end
