(* ===== verification/Tasm_Assembly.thy ===== *)
theory Tasm_Assembly
  imports Tasm_Translator
begin

text \<open>
  What the assembler promises, as a reference assembler on the flat list of a file's lines, and the
  proof that the passes of \<open>Tasm_Translator\<close> implement it: labels and procedures get the index of
  the instruction that follows them, a name declared twice is an error, and the program is the list
  of the encoded instructions with every symbol replaced by its address.
\<close>

subsection \<open>Flat files\<close>

text \<open>A line with the procedure it stands in. Files as the parser builds them have no procedure
  inside another one.\<close>

type_synonym flat = "(bytes option \<times> tasm_ast) list"

fun is_op :: "tasm_ast \<Rightarrow> bool" where
  "is_op (AST_OP op iname oprnd) = True"
| "is_op _ = False"

fun plain_line :: "tasm_ast \<Rightarrow> bool" where
  "plain_line (AST_FILE ls) = False"
| "plain_line (AST_PROC pname ls) = False"
| "plain_line (AST_LABEL_CALL lname) = False"
| "plain_line _ = True"

fun wf_line :: "tasm_ast \<Rightarrow> bool" where
  "wf_line (AST_PROC pname ls) = (pname \<noteq> None \<and> list_all plain_line ls)"
| "wf_line l = plain_line l"

fun flat_line :: "tasm_ast \<Rightarrow> flat" where
  "flat_line (AST_PROC pname ls) = map (Pair pname) ls"
| "flat_line l = [(None, l)]"

definition flat_lines :: "tasm_ast list \<Rightarrow> flat" where
  "flat_lines ls = concat (map flat_line ls)"

definition op_count :: "flat \<Rightarrow> nat" where
  "op_count fl = length (filter (is_op \<circ> snd) fl)"

lemma flat_lines_simps [simp]:
  "flat_lines [] = []" "flat_lines (l # ls) = flat_line l @ flat_lines ls"
  by (simp_all add: flat_lines_def)

lemma op_count_simps [simp]:
  "op_count [] = 0" "op_count (x # fl) = (if is_op (snd x) then 1 else 0) + op_count fl"
  "op_count (fl @ gl) = op_count fl + op_count gl"
  by (simp_all add: op_count_def)

lemma wf_line_cases:
  assumes "wf_line l"
  obtains pname ls where "l = AST_PROC (Some pname) ls" "list_all plain_line ls"
  | "plain_line l" "flat_line l = [(None, l)]"
  using assms by (cases l) auto

lemma flat_lines_plain: "list_all wf_line ls \<Longrightarrow> list_all (\<lambda>x. plain_line (snd x)) (flat_lines ls)"
proof (induction ls)
  case (Cons l ls)
  then have "wf_line l" by simp
  then have "list_all (\<lambda>x. plain_line (snd x)) (flat_line l)"
    by (cases rule: wf_line_cases) (auto simp: list_all_iff)
  with Cons show ?case by simp
qed simp

text \<open>The names and addresses the declarations of a file stand for: an item may declare a symbol,
  whose address is the number of instructions before it.\<close>

definition full_name :: "bytes option \<Rightarrow> bytes \<Rightarrow> bytes" where
  "full_name prefix name = (case prefix of None \<Rightarrow> name | Some p \<Rightarrow> p @ 36 # name)"

definition label_entry :: "nat \<Rightarrow> bytes option \<times> tasm_ast \<Rightarrow> symbols" where
  "label_entry k x = (case snd x of AST_LABEL_DECL lname \<Rightarrow> [(full_name (fst x) lname, k)] | _ \<Rightarrow> [])"

definition proc_entry :: "nat \<Rightarrow> tasm_ast \<Rightarrow> symbols" where
  "proc_entry k l = (case l of AST_PROC (Some pname) body \<Rightarrow> [(pname, k)] | _ \<Rightarrow> [])"

primrec entries_of :: "(nat \<Rightarrow> 'x \<Rightarrow> symbols) \<Rightarrow> ('x \<Rightarrow> nat) \<Rightarrow> nat \<Rightarrow> 'x list \<Rightarrow> symbols" where
  "entries_of ent cnt k [] = []"
| "entries_of ent cnt k (x # xs) = ent k x @ entries_of ent cnt (k + cnt x) xs"

definition label_entries :: "nat \<Rightarrow> flat \<Rightarrow> symbols" where
  "label_entries k fl = entries_of label_entry (\<lambda>x. op_count [x]) k fl"

definition proc_entries :: "nat \<Rightarrow> tasm_ast list \<Rightarrow> symbols" where
  "proc_entries k ls = entries_of proc_entry (\<lambda>l. op_count (flat_line l)) k ls"

lemma entries_of_append:
  "entries_of ent cnt k (xs @ ys) =
     entries_of ent cnt k xs @ entries_of ent cnt (k + sum_list (map cnt xs)) ys"
  by (induction xs arbitrary: k) (simp_all add: add.assoc)

lemma entries_of_nth:
  assumes "j < length xs" and "e \<in> set (ent (k + sum_list (map cnt (take j xs))) (xs ! j))"
  shows "e \<in> set (entries_of ent cnt k xs)"
proof -
  have "xs = take j xs @ xs ! j # drop (Suc j) xs" using assms(1) by (rule id_take_nth_drop)
  then have "entries_of ent cnt k xs = entries_of ent cnt k (take j xs) @
      entries_of ent cnt (k + sum_list (map cnt (take j xs))) (xs ! j # drop (Suc j) xs)"
    by (metis entries_of_append)
  with assms(2) show ?thesis by simp
qed

lemma sum_op_count: "(\<Sum>x\<leftarrow>fl. op_count [x]) = op_count fl"
  by (induction fl) auto

lemma sum_op_count_lines: "(\<Sum>l\<leftarrow>ls. op_count (flat_line l)) = op_count (flat_lines ls)"
  by (induction ls) auto

lemma label_entry_nth:
  assumes "j < length fl" and "fl ! j = (p, AST_LABEL_DECL n)"
  shows "(full_name p n, op_count (take j fl)) \<in> set (label_entries 0 fl)"
  unfolding label_entries_def
  by (rule entries_of_nth [OF assms(1)]) (simp only: sum_op_count assms(2), simp add: label_entry_def)

lemma proc_entry_nth:
  assumes "j < length ls" and "ls ! j = AST_PROC (Some n) body"
  shows "(n, op_count (flat_lines (take j ls))) \<in> set (proc_entries 0 ls)"
  unfolding proc_entries_def
  by (rule entries_of_nth [OF assms(1)]) (simp only: sum_op_count_lines assms(2), simp add: proc_entry_def)

lemma scoped_name_full: "scoped_name p n = Some m \<Longrightarrow> m = full_name p n"
  by (auto simp: scoped_name_def full_name_def split: option.splits if_splits)

lemma scoped_name_None [simp]: "scoped_name None n = Some n" "full_name None n = n"
  by (simp_all add: scoped_name_def full_name_def)

lemma sym_find_None_iff: "sym_find es n = None \<longleftrightarrow> n \<notin> fst ` set es"
  by (induction es) auto

lemma sym_find_in_set: "sym_find es n = Some a \<Longrightarrow> (n, a) \<in> set es"
  by (induction es) (auto split: if_splits)

lemma sym_find_distinct: "distinct (map fst es) \<Longrightarrow> (n, a) \<in> set es \<Longrightarrow> sym_find es n = Some a"
  by (induction es) force+

lemma sym_find_append:
  "sym_find (es @ fs) n = (case sym_find es n of None \<Rightarrow> sym_find fs n | Some a \<Rightarrow> Some a)"
  by (induction es) auto

subsection \<open>Resolving passes\<close>

text \<open>Both passes are the same: a walk over items that collects the symbols they declare, with an
  address counter. A provider gives the step on one item and the symbols the item declares; the
  clients' facts are the symbol table after the walk, and when the walk fails.\<close>

locale symbol_pass =
  fixes step :: "'x \<Rightarrow> 't \<Rightarrow> (int + 't) option"
    and ent :: "nat \<Rightarrow> 'x \<Rightarrow> symbols"
    and cnt :: "'x \<Rightarrow> nat"
    and good :: "'x \<Rightarrow> bool"
    and fits :: "'x \<Rightarrow> bool"
    and cap :: nat
    and decls :: "'t \<Rightarrow> symbols"
    and ptr :: "'t \<Rightarrow> nat"
    and put :: "symbols \<Rightarrow> nat \<Rightarrow> 't \<Rightarrow> 't"
  assumes put_none: "put [] 0 t = t"
    and put_put: "put fs l (put es k t) = put (es @ fs) (k + l) t"
    and decls_put: "decls (put es k t) = decls t @ es"
    and ptr_put: "ptr (put es k t) = ptr t + k"
    and ent_distinct: "distinct (map fst (ent k x))"
    and ent_length: "length (ent k x) = length (ent 0 x) \<and> length (ent k x) \<le> 1"
    and step_law: "good x \<Longrightarrow> fits x \<Longrightarrow> step x t =
      (if fst ` set (ent (ptr t) x) \<inter> fst ` set (decls t) \<noteq> {} then Some (Inl 1)
       else if ent (ptr t) x = [] \<or> length (decls t) < cap then Some (Inr (put (ent (ptr t) x) (cnt x) t))
       else None)"
    and step_unfit: "good x \<Longrightarrow> \<not> fits x \<Longrightarrow> step x t = None"
begin

lemma step_sound:
  assumes "good x" and "step x t = Some (Inr t')"
  shows "t' = put (ent (ptr t) x) (cnt x) t"
    and "distinct (map fst (decls t)) \<Longrightarrow> distinct (map fst (decls t'))"
proof -
  have "fits x" using assms step_unfit by (metis option.distinct(1))
  then have r: "t' = put (ent (ptr t) x) (cnt x) t" and
    d: "fst ` set (ent (ptr t) x) \<inter> fst ` set (decls t) = {}"
    using assms step_law [OF assms(1)] by (auto split: if_splits)
  show "t' = put (ent (ptr t) x) (cnt x) t" by (rule r)
  show "distinct (map fst (decls t)) \<Longrightarrow> distinct (map fst (decls t'))"
    using d ent_distinct by (auto simp: r decls_put)
qed

lemma pass_sound:
  assumes "list_all good xs" and "fold_exit step xs t = Some (Inr t')"
  shows "t' = put (entries_of ent cnt (ptr t) xs) (sum_list (map cnt xs)) t \<and>
    (distinct (map fst (decls t)) \<longrightarrow> distinct (map fst (decls t')))"
  using assms
proof (induction xs arbitrary: t)
  case Nil
  then show ?case by (simp add: put_none)
next
  case (Cons x xs)
  then obtain t1 where s: "step x t = Some (Inr t1)" and r: "fold_exit step xs t1 = Some (Inr t')"
    and g: "good x" by auto
  have "list_all good xs" using Cons.prems(1) by simp
  from Cons.IH [OF this r]
  have IH: "t' = put (entries_of ent cnt (ptr t1) xs) (sum_list (map cnt xs)) t1"
    "distinct (map fst (decls t1)) \<longrightarrow> distinct (map fst (decls t'))" by blast+
  have "t' = put (entries_of ent cnt (ptr t) (x # xs)) (sum_list (map cnt (x # xs))) t"
    using IH(1) by (simp add: step_sound(1) [OF g s] put_put ptr_put)
  with IH(2) step_sound(2) [OF g s] show ?case by blast
qed

lemma pass_exit:
  assumes "list_all good xs" and "fold_exit step xs t = Some (Inl n)"
  shows "n = 1 \<and> \<not> distinct (map fst (decls t @ entries_of ent cnt (ptr t) xs))"
  using assms
proof (induction xs arbitrary: t)
  case (Cons x xs)
  then have g: "good x" by simp
  show ?case
  proof (cases "step x t = Some (Inl n)")
    case True
    then have "fits x" using step_unfit [OF g] by (metis option.distinct(1))
    with True step_law [OF g] show ?thesis by (auto split: if_splits)
  next
    case False
    with Cons.prems(2) obtain t1 where s: "step x t = Some (Inr t1)"
      and r: "fold_exit step xs t1 = Some (Inl n)" by (auto simp: exit_bind_Inl_iff)
    have "n = 1 \<and> \<not> distinct (map fst (decls t1 @ entries_of ent cnt (ptr t1) xs))"
      by (rule Cons.IH [OF _ r]) (use Cons.prems(1) in simp)
    then show ?thesis by (simp add: step_sound(1) [OF g s] decls_put ptr_put)
  qed
qed simp

lemma pass_defined:
  assumes "list_all good xs" and "list_all fits xs"
    and "length (decls t) + length (entries_of ent cnt k xs) \<le> cap"
  shows "fold_exit step xs t \<noteq> None"
  using assms
proof (induction xs arbitrary: t k)
  case (Cons x xs)
  then have g: "good x" and f: "fits x" by simp_all
  show ?case
  proof (cases "fst ` set (ent (ptr t) x) \<inter> fst ` set (decls t) = {}")
    case True
    have l: "length (ent (ptr t) x) = length (ent k x)" using ent_length by metis
    have "fold_exit step xs (put (ent (ptr t) x) (cnt x) t) \<noteq> None"
      by (rule Cons.IH [of _ "k + cnt x"]) (use Cons.prems l in \<open>simp_all add: decls_put\<close>)
    moreover have "ent (ptr t) x = [] \<or> length (decls t) < cap"
      using Cons.prems(3) l by (cases "ent (ptr t) x") auto
    ultimately show ?thesis using True by (simp add: step_law [OF g f])
  next
    case False
    then show ?thesis by (simp add: step_law [OF g f])
  qed
qed simp

end

text \<open>The label pass, over the flat lines.\<close>

abbreviation label_step :: "bytes option \<times> tasm_ast \<Rightarrow> tasm_translator_t \<Rightarrow> (int + tasm_translator_t) option"
  where "label_step x tr \<equiv> tasm_resolve_labels tr (snd x) (fst x)"

definition label_fits :: "bytes option \<times> tasm_ast \<Rightarrow> bool" where
  "label_fits x = (case snd x of AST_LABEL_DECL lname \<Rightarrow> scoped_name (fst x) lname \<noteq> None | _ \<Rightarrow> True)"

definition put_labels :: "symbols \<Rightarrow> nat \<Rightarrow> tasm_translator_t \<Rightarrow> tasm_translator_t" where
  "put_labels es k tr = tr\<lparr>tr_symbols := (tr_symbols tr)\<lparr>label_decls := label_decls (tr_symbols tr) @ es,
     label_address_pointer := label_address_pointer (tr_symbols tr) + k\<rparr>\<rparr>"

definition put_procs :: "symbols \<Rightarrow> nat \<Rightarrow> tasm_translator_t \<Rightarrow> tasm_translator_t" where
  "put_procs es k tr = tr\<lparr>tr_symbols := (tr_symbols tr)\<lparr>proc_decls := proc_decls (tr_symbols tr) @ es,
     proc_address_pointer := proc_address_pointer (tr_symbols tr) + k\<rparr>\<rparr>"

lemma label_step_law:
  assumes "plain_line (snd x)" and "label_fits x"
  shows "label_step x tr =
    (let es = label_entry (label_address_pointer (tr_symbols tr)) x; D = label_decls (tr_symbols tr) in
     if fst ` set es \<inter> fst ` set D \<noteq> {} then Some (Inl 1)
     else if es = [] \<or> length D < SYMBOL_LABEL_DECL_CAPACITY
     then Some (Inr (put_labels es (op_count [x]) tr)) else None)"
proof (cases "\<exists>n. snd x = AST_LABEL_DECL n")
  case True
  then obtain n where n: "snd x = AST_LABEL_DECL n" by blast
  with assms(2) obtain name where "scoped_name (fst x) n = Some name" by (auto simp: label_fits_def)
  with scoped_name_full [OF this] n show ?thesis
    by (simp add: declare_label_def sym_add_def label_entry_def put_labels_def sym_find_None_iff)
next
  case False
  with assms(1) show ?thesis by (cases "snd x") (simp_all add: label_entry_def put_labels_def)
qed

interpretation labels: symbol_pass label_step label_entry "\<lambda>x. op_count [x]" "\<lambda>x. plain_line (snd x)"
  label_fits SYMBOL_LABEL_DECL_CAPACITY "\<lambda>tr. label_decls (tr_symbols tr)"
  "\<lambda>tr. label_address_pointer (tr_symbols tr)" put_labels
proof unfold_locales
  fix x tr
  show "plain_line (snd x) \<Longrightarrow> label_fits x \<Longrightarrow> label_step x tr =
     (if fst ` set (label_entry (label_address_pointer (tr_symbols tr)) x) \<inter> fst ` set (label_decls (tr_symbols tr)) \<noteq> {}
      then Some (Inl 1)
      else if label_entry (label_address_pointer (tr_symbols tr)) x = [] \<or>
        length (label_decls (tr_symbols tr)) < SYMBOL_LABEL_DECL_CAPACITY
      then Some (Inr (put_labels (label_entry (label_address_pointer (tr_symbols tr)) x) (op_count [x]) tr))
      else None)" using label_step_law [of x tr] by (simp add: Let_def)
  show "plain_line (snd x) \<Longrightarrow> \<not> label_fits x \<Longrightarrow> label_step x tr = None"
    by (cases "snd x") (auto simp: label_fits_def declare_label_def)
qed (auto simp: put_labels_def label_entry_def add.assoc split: tasm_ast.splits)

text \<open>The procedure pass, over the lines of the file.\<close>

lemma resolve_procs_body:
  "list_all plain_line ls \<Longrightarrow>
     resolve_procs_lines tr ls = Some (Inr (put_procs [] (op_count (map (Pair p) ls)) tr))"
proof (induction ls arbitrary: tr)
  case (Cons l ls)
  have "tasm_resolve_procs tr l = Some (Inr (put_procs [] (if is_op l then 1 else 0) tr))"
    using Cons.prems by (cases l) (simp_all add: put_procs_def)
  with Cons show ?case by (simp add: put_procs_def add.assoc)
qed (simp add: put_procs_def)

lemma proc_step_law:
  assumes "wf_line l"
  shows "tasm_resolve_procs tr l =
    (let es = proc_entry (proc_address_pointer (tr_symbols tr)) l; D = proc_decls (tr_symbols tr) in
     if fst ` set es \<inter> fst ` set D \<noteq> {} then Some (Inl 1)
     else if es = [] \<or> length D < SYMBOL_PROC_DECL_CAPACITY
     then Some (Inr (put_procs es (op_count (flat_line l)) tr)) else None)"
  using assms
proof (cases rule: wf_line_cases)
  case (1 pname ls)
  then show ?thesis
    by (simp add: declare_proc_def sym_add_def resolve_procs_body [of _ _ "Some pname"] proc_entry_def
        put_procs_def sym_find_None_iff)
next
  case 2
  then show ?thesis by (cases l) (simp_all add: put_procs_def proc_entry_def)
qed

interpretation procs: symbol_pass "\<lambda>l tr. tasm_resolve_procs tr l" proc_entry
  "\<lambda>l. op_count (flat_line l)" wf_line "\<lambda>_. True" SYMBOL_PROC_DECL_CAPACITY
  "\<lambda>tr. proc_decls (tr_symbols tr)" "\<lambda>tr. proc_address_pointer (tr_symbols tr)" put_procs
proof unfold_locales
  fix l tr
  show "wf_line l \<Longrightarrow> True \<Longrightarrow> tasm_resolve_procs tr l =
     (if fst ` set (proc_entry (proc_address_pointer (tr_symbols tr)) l) \<inter> fst ` set (proc_decls (tr_symbols tr)) \<noteq> {}
      then Some (Inl 1)
      else if proc_entry (proc_address_pointer (tr_symbols tr)) l = [] \<or>
        length (proc_decls (tr_symbols tr)) < SYMBOL_PROC_DECL_CAPACITY
      then Some (Inr (put_procs (proc_entry (proc_address_pointer (tr_symbols tr)) l) (op_count (flat_line l)) tr))
      else None)" using proc_step_law [of l tr] by (simp add: Let_def)
qed (auto simp: put_procs_def proc_entry_def add.assoc split: tasm_ast.splits option.splits)

subsection \<open>The passes over a file\<close>

lemma fold_exit_map: "fold_exit f (map g xs) s = fold_exit (\<lambda>x. f (g x)) xs s"
  by (induction xs arbitrary: s) (auto simp: exit_bind_def split: option.splits sum.splits)

lemma fold_exit_Nil [simp]: "exit_bind r (fold_exit f []) = r"
  by (simp add: exit_bind_def split: option.splits sum.splits)

lemma resolve_labels_lines_fold:
  "resolve_labels_lines tr ls p = fold_exit label_step (map (Pair p) ls) tr"
  by (induction ls arbitrary: tr) (auto simp: exit_bind_def split: option.splits sum.splits)

lemma resolve_labels_flat:
  "list_all wf_line ls \<Longrightarrow> resolve_labels_lines tr ls None = fold_exit label_step (flat_lines ls) tr"
proof (induction ls arbitrary: tr)
  case (Cons l ls)
  then have "wf_line l" by simp
  then have "tasm_resolve_labels tr l None = fold_exit label_step (flat_line l) tr" for tr
    by (cases rule: wf_line_cases) (simp_all add: resolve_labels_lines_fold)
  with Cons show ?case
    by (auto simp: fold_exit_append exit_bind_def split: option.splits sum.splits)
qed simp

lemma resolve_procs_flat:
  "resolve_procs_lines tr ls = fold_exit (\<lambda>l tr. tasm_resolve_procs tr l) ls tr"
  by (induction ls arbitrary: tr) (auto simp: exit_bind_def split: option.splits sum.splits)

end
