(* ===== verification/Tasm_Reference.thy ===== *)
theory Tasm_Reference
  imports Tasm_Assembly
begin

text \<open>
  The reference assembler for the instructions of a flat file, given the symbol tables, and the
  proof that \<open>tasm_translate_unit\<close> computes it: the code emits exactly the reference program when
  every symbol is known, and sets the error flag exactly when one is not.
\<close>

definition assemble_op ::
  "symbols \<Rightarrow> symbols \<Rightarrow> bytes option \<Rightarrow> optype_t \<Rightarrow> tasm_ast option \<Rightarrow> opcode_t option" where
  "assemble_op L P prefix op oprnd =
     (if op = OP_PUSH then (case oprnd of
        Some (AST_NUMBER text v) \<Rightarrow> Some (operand_opcode OP_PUSH STACK_OBJ_TYPE_NUMBER v)
      | Some (AST_CHAR (Some text)) \<Rightarrow>
          Some (operand_opcode OP_PUSH STACK_OBJ_TYPE_CHARACTER (scast (first_char text)))
      | _ \<Rightarrow> None)
      else if op \<in> set jump_ops then (case oprnd of
        Some (AST_NUMBER text v) \<Rightarrow> Some (operand_opcode op STACK_OBJ_TYPE_VM_ADDRESS v)
      | Some (AST_LABEL_CALL n) \<Rightarrow> map_option (\<lambda>a. operand_opcode op STACK_OBJ_TYPE_VM_ADDRESS
          (word_of_nat a)) (sym_find L (full_name prefix n))
      | _ \<Rightarrow> None)
      else if op = OP_CALL then (case oprnd of
        Some (AST_LABEL_CALL n) \<Rightarrow> map_option (\<lambda>a. operand_opcode OP_CALL STACK_OBJ_TYPE_VM_ADDRESS
          (word_of_nat a)) (sym_find P n)
      | _ \<Rightarrow> None)
      else (case map_of number_ops op of
        Some t \<Rightarrow> (case oprnd of
          Some (AST_NUMBER text v) \<Rightarrow> Some (operand_opcode op t v)
        | _ \<Rightarrow> None)
      | None \<Rightarrow> Some (plain_opcode op)))"

definition assemble_line :: "symbols \<Rightarrow> symbols \<Rightarrow> bytes option \<times> tasm_ast \<Rightarrow> opcode_t list option" where
  "assemble_line L P x = (case snd x of
     AST_OP op iname oprnd \<Rightarrow> map_option (\<lambda>c. [c]) (assemble_op L P (fst x) op oprnd)
   | _ \<Rightarrow> Some [])"

primrec assemble :: "symbols \<Rightarrow> symbols \<Rightarrow> flat \<Rightarrow> opcode_t list option" where
  "assemble L P [] = Some []"
| "assemble L P (x # fl) = do {
     cs \<leftarrow> assemble_line L P x;
     ds \<leftarrow> assemble L P fl;
     Some (cs @ ds) }"

text \<open>Operands of the kind the instruction wants, as the parser delivers them when it reports no
  error: without one the code silently drops the instruction.\<close>

fun number_node :: "tasm_ast option \<Rightarrow> bool" where
  "number_node (Some (AST_NUMBER text v)) = True"
| "number_node _ = False"

fun char_node :: "tasm_ast option \<Rightarrow> bool" where
  "char_node (Some (AST_CHAR v)) = (v \<noteq> None)"
| "char_node _ = False"

fun label_node :: "tasm_ast option \<Rightarrow> bool" where
  "label_node (Some (AST_LABEL_CALL n)) = True"
| "label_node _ = False"

definition operand_fits :: "optype_t \<Rightarrow> tasm_ast option \<Rightarrow> bool" where
  "operand_fits op oprnd \<longleftrightarrow>
     (op = OP_PUSH \<longrightarrow> number_node oprnd \<or> char_node oprnd) \<and>
     (op \<in> set jump_ops \<longrightarrow> number_node oprnd \<or> label_node oprnd) \<and>
     (op = OP_CALL \<longrightarrow> label_node oprnd) \<and>
     (map_of number_ops op \<noteq> None \<longrightarrow> number_node oprnd)"

fun operands_ok :: "tasm_ast \<Rightarrow> bool" where
  "operands_ok (AST_OP op iname oprnd) = operand_fits op oprnd"
| "operands_ok _ = True"

subsection \<open>Translation of a flat file\<close>

primrec run_flat :: "tasm_translator_t \<Rightarrow> flat \<Rightarrow> tasm_translator_t option" where
  "run_flat tr [] = Some tr"
| "run_flat tr (x # fl) =
     Option.bind (tasm_translate_line tr (snd x) (fst x) False) (\<lambda>tr'. run_flat tr' fl)"

lemma run_flat_append: "run_flat tr (fl @ gl) = Option.bind (run_flat tr fl) (\<lambda>tr'. run_flat tr' gl)"
  by (induction fl arbitrary: tr) (auto split: bind_splits)

lemma translate_lines_flat: "translate_lines tr ls p = run_flat tr (map (Pair p) ls)"
  by (induction ls arbitrary: tr) (auto split: bind_splits)

lemma translate_file_flat:
  "list_all wf_line ls \<Longrightarrow> translate_file_lines tr ls = run_flat tr (flat_lines ls)"
proof (induction ls arbitrary: tr)
  case (Cons l ls)
  then have "wf_line l" by simp
  then have "tasm_translate_proc_and_line tr l = run_flat tr (flat_line l)" for tr
  proof (cases rule: wf_line_cases)
    case (1 pname body)
    then show ?thesis
      by (simp add: tasm_translate_proc_and_line_def tasm_translate_proc_def translate_lines_flat)
  next
    case 2
    then show ?thesis by (cases l) (auto simp: tasm_translate_proc_and_line_def split: bind_splits)
  qed
  with Cons show ?case by (auto simp: run_flat_append split: bind_splits)
qed simp

text \<open>The tables while the translation runs: every reference is a label or a procedure with its
  address.\<close>

definition refs_ok :: "tasm_translator_t \<Rightarrow> bool" where
  "refs_ok tr \<longleftrightarrow> (\<forall>(n, a) \<in> set (label_calls (tr_symbols tr)).
     sym_find (label_decls (tr_symbols tr)) n = Some a \<or> sym_find (proc_decls (tr_symbols tr)) n = Some a)"

definition names_apart :: "symbols \<Rightarrow> symbols \<Rightarrow> bool" where
  "names_apart L P \<longleftrightarrow> fst ` set L \<inter> fst ` set P = {}"

text \<open>What a step of the translation may change, and the instructions it emits.\<close>

definition emits :: "tasm_translator_t \<Rightarrow> opcode_t list \<Rightarrow> tasm_translator_t \<Rightarrow> bool" where
  "emits tr cs tr' \<longleftrightarrow>
     label_decls (tr_symbols tr') = label_decls (tr_symbols tr) \<and>
     proc_decls (tr_symbols tr') = proc_decls (tr_symbols tr) \<and>
     sym_err (tr_symbols tr') = sym_err (tr_symbols tr) \<and>
     prog_size (tr_program tr') = prog_size (tr_program tr) + length cs \<and>
     (\<forall>i. code (tr_program tr') i =
        (if prog_size (tr_program tr) \<le> i \<and> i < prog_size (tr_program tr) + length cs
         then cs ! (i - prog_size (tr_program tr)) else code (tr_program tr) i)) \<and>
     (refs_ok tr \<longrightarrow> refs_ok tr')"

lemma emits_Nil: "emits tr [] tr" by (auto simp: emits_def)

lemma emits_append: "emits tr cs tr1 \<Longrightarrow> emits tr1 ds tr2 \<Longrightarrow> emits tr (cs @ ds) tr2"
  by (auto simp: emits_def nth_append)

lemma push_emits: "program_push tr c = Some tr' \<Longrightarrow> emits tr [c] tr'"
  by (auto simp: program_push_def emits_def Let_def refs_ok_def split: if_splits)

definition lookup_ref :: "tasm_translator_t \<Rightarrow> bytes option \<Rightarrow> bool \<Rightarrow> bytes \<Rightarrow> nat option" where
  "lookup_ref tr prefix is_call name =
     (if prefix = None \<and> is_call then sym_find (proc_decls (tr_symbols tr)) name
      else sym_find (label_decls (tr_symbols tr)) name)"

lemma label_call_name:
  "translate_label_call tr lname prefix is_call = Some (name, tr') \<Longrightarrow> name = full_name prefix lname"
  by (auto simp: translate_label_call_def dest: scoped_name_full split: option.splits)

lemma label_call_cases:
  assumes "translate_label_call tr lname prefix is_call = Some (name, tr')"
  obtains (unknown) "lookup_ref tr prefix is_call name = None"
      "tr' = tr\<lparr>tr_symbols := (tr_symbols tr)\<lparr>sym_err := True\<rparr>\<rparr>"
    | (known) a where "lookup_ref tr prefix is_call name = Some a"
      "tr' = tr\<lparr>tr_symbols := (tr_symbols tr)\<lparr>label_calls := label_calls (tr_symbols tr) @ [(name, a)]\<rparr>\<rparr>"
proof -
  from assms obtain nm where nm: "scoped_name prefix lname = Some nm"
    by (auto simp: translate_label_call_def)
  have l: "(if prefix = None \<and> is_call then get_addr_from_proc_decl_symbol tr nm
      else get_addr_from_label_decl_symbol tr nm) = lookup_ref tr prefix is_call nm"
    by (simp add: lookup_ref_def get_addr_from_proc_decl_symbol_def get_addr_from_label_decl_symbol_def)
  show thesis
  proof (cases "lookup_ref tr prefix is_call nm")
    case None
    with assms nm unknown show thesis by (simp add: translate_label_call_def l)
  next
    case (Some a)
    with assms nm known show thesis
      by (auto simp: translate_label_call_def l sym_add_def split: if_splits)
  qed
qed

lemma refs_ok_add:
  "refs_ok tr \<Longrightarrow> lookup_ref tr prefix is_call name = Some a \<Longrightarrow>
   refs_ok (tr\<lparr>tr_symbols := (tr_symbols tr)\<lparr>label_calls := label_calls (tr_symbols tr) @ [(name, a)]\<rparr>\<rparr>)"
  by (auto simp: refs_ok_def lookup_ref_def split: if_splits)

lemma add_ref_emits:
  "lookup_ref tr prefix is_call name = Some a \<Longrightarrow>
   emits tr [] (tr\<lparr>tr_symbols := (tr_symbols tr)\<lparr>label_calls := label_calls (tr_symbols tr) @ [(name, a)]\<rparr>\<rparr>)"
  using refs_ok_add by (auto simp: emits_def)

text \<open>The address found in the table of references is the label's, when no procedure has its name.\<close>

lemma ref_address:
  assumes "refs_ok tr" and "names_apart (label_decls (tr_symbols tr)) (proc_decls (tr_symbols tr))"
    and "sym_find (label_decls (tr_symbols tr)) name = Some a"
    and "sym_find (label_calls (tr_symbols tr)) name = Some b"
  shows "b = a"
proof -
  have "(name, b) \<in> set (label_calls (tr_symbols tr))" by (rule sym_find_in_set [OF assms(4)])
  moreover have "sym_find (proc_decls (tr_symbols tr)) name = None"
    using assms(2) sym_find_in_set [OF assms(3)] by (force simp: names_apart_def sym_find_None_iff)
  ultimately show ?thesis using assms(1,3) by (auto simp: refs_ok_def)
qed

subsection \<open>The steps\<close>

text \<open>One instruction: either the reference instruction is emitted, or the symbol is unknown and the
  error flag is set.\<close>

definition step_ok :: "opcode_t option \<Rightarrow> tasm_translator_t \<Rightarrow> tasm_translator_t \<Rightarrow> bool" where
  "step_ok c tr tr' \<longleftrightarrow> (case c of
     Some c \<Rightarrow> emits tr [c] tr'
   | None \<Rightarrow> sym_err (tr_symbols tr'))"

lemma jump_step:
  assumes "translate_jump tr op (Some (AST_LABEL_CALL n)) prefix = Some tr'" and "refs_ok tr"
    and "names_apart (label_decls (tr_symbols tr)) (proc_decls (tr_symbols tr))"
  shows "step_ok (map_option (\<lambda>a. operand_opcode op STACK_OBJ_TYPE_VM_ADDRESS (word_of_nat a))
    (sym_find (label_decls (tr_symbols tr)) (full_name prefix n))) tr tr'"
proof -
  from assms(1) obtain name tr1 where c: "translate_label_call tr n prefix False = Some (name, tr1)"
    and r: "(case get_addr_from_label_call_symbol tr1 name of
       None \<Rightarrow> Some tr1
     | Some addr \<Rightarrow> program_push tr1 (operand_opcode op STACK_OBJ_TYPE_VM_ADDRESS (word_of_nat addr))) = Some tr'"
    by (auto simp: translate_jump_def)
  note name = label_call_name [OF c]
  from c show ?thesis
  proof (cases rule: label_call_cases)
    case unknown
    have "sym_err (tr_symbols tr')"
      using r unfolding unknown(2) by (auto simp: program_push_def Let_def split: option.splits if_splits)
    with unknown(1) show ?thesis by (simp add: step_ok_def lookup_ref_def name)
  next
    case (known a)
    have e: "emits tr [] tr1" unfolding known(2) by (rule add_ref_emits [OF known(1)])
    have a: "sym_find (label_decls (tr_symbols tr)) name = Some a"
      using known(1) by (simp add: lookup_ref_def)
    obtain b where b: "sym_find (label_calls (tr_symbols tr1)) name = Some b"
      by (cases "sym_find (label_calls (tr_symbols tr)) name") (auto simp: known(2) sym_find_append)
    have "b = a"
      by (rule ref_address [OF _ _ _ b]) (use e a assms(2,3) in \<open>auto simp: emits_def\<close>)
    with r b have "program_push tr1 (operand_opcode op STACK_OBJ_TYPE_VM_ADDRESS (word_of_nat a)) = Some tr'"
      by (simp add: get_addr_from_label_call_symbol_def)
    with emits_append [OF e push_emits] a show ?thesis by (simp add: step_ok_def name)
  qed
qed

lemma call_step:
  assumes "translate_call tr (Some (AST_LABEL_CALL n)) = Some tr'"
  shows "step_ok (map_option (\<lambda>a. operand_opcode OP_CALL STACK_OBJ_TYPE_VM_ADDRESS (word_of_nat a))
    (sym_find (proc_decls (tr_symbols tr)) n)) tr tr'"
proof -
  from assms obtain name tr1 where c: "translate_label_call tr n None True = Some (name, tr1)"
    and r: "(case get_addr_from_proc_decl_symbol tr1 name of
       None \<Rightarrow> Some tr1
     | Some addr \<Rightarrow> program_push tr1 (operand_opcode OP_CALL STACK_OBJ_TYPE_VM_ADDRESS (word_of_nat addr))) = Some tr'"
    by (auto simp: translate_call_def)
  have name: "name = n" using label_call_name [OF c] by simp
  from c show ?thesis
  proof (cases rule: label_call_cases)
    case unknown
    have "sym_err (tr_symbols tr')"
      using r unfolding unknown(2) by (auto simp: program_push_def Let_def split: option.splits if_splits)
    with unknown(1) show ?thesis by (simp add: step_ok_def lookup_ref_def name)
  next
    case (known a)
    have e: "emits tr [] tr1" unfolding known(2) by (rule add_ref_emits [OF known(1)])
    have a: "sym_find (proc_decls (tr_symbols tr)) name = Some a"
      using known(1) by (simp add: lookup_ref_def)
    with e r have "program_push tr1 (operand_opcode OP_CALL STACK_OBJ_TYPE_VM_ADDRESS (word_of_nat a)) = Some tr'"
      by (simp add: get_addr_from_proc_decl_symbol_def emits_def)
    with emits_append [OF e push_emits] a show ?thesis by (simp add: step_ok_def name)
  qed
qed

lemma op_step:
  assumes "translate_op tr op oprnd prefix = Some tr'" and "operand_fits op oprnd" and "refs_ok tr"
    and "names_apart (label_decls (tr_symbols tr)) (proc_decls (tr_symbols tr))"
  shows "step_ok (assemble_op (label_decls (tr_symbols tr)) (proc_decls (tr_symbols tr)) prefix op oprnd) tr tr'"
proof -
  consider (push) "op = OP_PUSH" | (jump) "op \<in> set jump_ops" | (call) "op = OP_CALL"
    | (other) "op \<noteq> OP_PUSH" "op \<notin> set jump_ops" "op \<noteq> OP_CALL" by blast
  then show ?thesis
  proof cases
    case push
    with assms(1,2) show ?thesis
      by (auto simp: translate_op_def translate_push_def assemble_op_def operand_fits_def step_ok_def
          intro: push_emits elim!: number_node.elims char_node.elims)
  next
    case jump
    then have op: "op \<noteq> OP_PUSH" by (auto simp: jump_ops_def)
    from jump assms(2) have "number_node oprnd \<or> label_node oprnd" by (simp add: operand_fits_def)
    then show ?thesis
    proof
      assume "number_node oprnd"
      with assms(1) jump op show ?thesis
        by (auto simp: translate_op_def translate_jump_def assemble_op_def step_ok_def
            intro: push_emits elim!: number_node.elims)
    next
      assume "label_node oprnd"
      then obtain n where n: "oprnd = Some (AST_LABEL_CALL n)" by (auto elim: label_node.elims)
      with assms(1) jump op have "translate_jump tr op (Some (AST_LABEL_CALL n)) prefix = Some tr'"
        by (simp add: translate_op_def)
      from jump_step [OF this assms(3,4)] show ?thesis using jump op by (simp add: assemble_op_def n)
    qed
  next
    case call
    then have op: "op \<noteq> OP_PUSH" "op \<notin> set jump_ops" by (auto simp: jump_ops_def)
    from call assms(2) obtain n where n: "oprnd = Some (AST_LABEL_CALL n)"
      by (auto simp: operand_fits_def elim: label_node.elims)
    with assms(1) call op have "translate_call tr (Some (AST_LABEL_CALL n)) = Some tr'"
      by (simp add: translate_op_def)
    from call_step [OF this] show ?thesis using call op by (simp add: assemble_op_def n)
  next
    case other
    with assms(1,2) show ?thesis
      by (cases "map_of number_ops op")
        (auto simp: translate_op_def translate_number_def assemble_op_def operand_fits_def step_ok_def
          intro: push_emits elim!: number_node.elims)
  qed
qed

lemma emits_same:
  "tr_symbols tr' = tr_symbols tr \<Longrightarrow> code (tr_program tr') = code (tr_program tr) \<Longrightarrow>
   prog_size (tr_program tr') = prog_size (tr_program tr) \<Longrightarrow> emits tr [] tr'"
  by (auto simp: emits_def refs_ok_def)

lemma data_emits: "tasm_translate_data tr v = Some tr' \<Longrightarrow> emits tr [] tr'"
  by (rule emits_same) (auto simp: tasm_translate_data_def split: prod.splits option.splits)

lemma cfunction_emits: "tasm_translate_cfunction tr ret args fname = Some tr' \<Longrightarrow> emits tr [] tr'"
  by (rule emits_same)
    (auto simp: tasm_translate_cfunction_def Let_def split: option.splits if_splits)

definition lines_ok :: "opcode_t list option \<Rightarrow> tasm_translator_t \<Rightarrow> tasm_translator_t \<Rightarrow> bool" where
  "lines_ok cs tr tr' \<longleftrightarrow> (case cs of
     Some cs \<Rightarrow> emits tr cs tr'
   | None \<Rightarrow> sym_err (tr_symbols tr'))"

lemma line_step:
  assumes "tasm_translate_line tr l p False = Some tr'" and "plain_line l" and "operands_ok l"
    and "refs_ok tr" and "names_apart (label_decls (tr_symbols tr)) (proc_decls (tr_symbols tr))"
  shows "lines_ok (assemble_line (label_decls (tr_symbols tr)) (proc_decls (tr_symbols tr)) (p, l)) tr tr'"
proof (cases l)
  case (AST_OP op iname oprnd)
  with assms have "translate_op tr op oprnd p = Some tr'" "operand_fits op oprnd"
    by (simp_all add: tasm_translate_line_def)
  from op_step [OF this assms(4,5)] AST_OP show ?thesis
    by (auto simp: lines_ok_def step_ok_def assemble_line_def split: option.splits)
qed (use assms in \<open>auto simp: tasm_translate_line_def lines_ok_def assemble_line_def
    intro: emits_Nil data_emits cfunction_emits\<close>)

text \<open>The error flag is never reset.\<close>

lemma push_symbols: "program_push tr c = Some tr' \<Longrightarrow> tr_symbols tr' = tr_symbols tr"
  by (auto simp: program_push_def Let_def split: if_splits)

lemma label_call_err:
  "translate_label_call tr n p b = Some (name, tr') \<Longrightarrow> sym_err (tr_symbols tr) \<Longrightarrow> sym_err (tr_symbols tr')"
  by (erule label_call_cases) simp_all

lemma op_err:
  assumes "translate_op tr op oprnd p = Some tr'" and "sym_err (tr_symbols tr)"
  shows "sym_err (tr_symbols tr')"
proof -
  note defs = translate_op_def translate_push_def translate_jump_def translate_call_def translate_number_def
  from assms show ?thesis
    by (cases "map_of number_ops op"; cases oprnd; (cases "the oprnd")?;
      auto simp: defs dest!: push_symbols split: if_splits option.splits; blast dest: label_call_err)
qed

lemma line_err:
  assumes "tasm_translate_line tr l p b = Some tr'" and "sym_err (tr_symbols tr)"
  shows "sym_err (tr_symbols tr')"
  using assms
proof (cases l)
  case (AST_OP op iname oprnd)
  with assms op_err show ?thesis by (auto simp: tasm_translate_line_def)
next
  case (AST_LABEL_CALL n)
  with assms label_call_err show ?thesis by (fastforce simp: tasm_translate_line_def)
next
  case (AST_CFUNCTION ret args n fname)
  with assms show ?thesis
    by (auto simp: tasm_translate_line_def dest!: cfunction_emits simp: emits_def)
next
  case (AST_DATA v)
  with assms show ?thesis by (auto simp: tasm_translate_line_def dest!: data_emits simp: emits_def)
qed (auto simp: tasm_translate_line_def)

lemma run_flat_err:
  "run_flat tr fl = Some tr' \<Longrightarrow> sym_err (tr_symbols tr) \<Longrightarrow> sym_err (tr_symbols tr')"
  by (induction fl arbitrary: tr) (auto dest: line_err)

lemma run_flat_ok:
  assumes "run_flat tr fl = Some tr'" and "list_all (\<lambda>x. plain_line (snd x)) fl"
    and "list_all (\<lambda>x. operands_ok (snd x)) fl" and "refs_ok tr"
    and "names_apart (label_decls (tr_symbols tr)) (proc_decls (tr_symbols tr))"
  shows "lines_ok (assemble (label_decls (tr_symbols tr)) (proc_decls (tr_symbols tr)) fl) tr tr'"
  using assms
proof (induction fl arbitrary: tr)
  case Nil
  then show ?case by (auto simp: lines_ok_def intro: emits_Nil)
next
  case (Cons x fl)
  let ?L = "label_decls (tr_symbols tr)" and ?P = "proc_decls (tr_symbols tr)"
  from Cons.prems(1) obtain tr1 where s: "tasm_translate_line tr (snd x) (fst x) False = Some tr1"
    and r: "run_flat tr1 fl = Some tr'" by auto
  have l: "lines_ok (assemble_line ?L ?P x) tr tr1"
    using line_step [OF s] Cons.prems by simp
  show ?case
  proof (cases "assemble_line ?L ?P x")
    case None
    with l have "sym_err (tr_symbols tr1)" by (simp add: lines_ok_def)
    from run_flat_err [OF r this] None show ?thesis by (simp add: lines_ok_def)
  next
    case (Some cs)
    with l have e: "emits tr cs tr1" by (simp add: lines_ok_def)
    have "lines_ok (assemble ?L ?P fl) tr1 tr'"
      using Cons.IH [OF r] Cons.prems e by (simp add: emits_def)
    with Some e show ?thesis
      by (cases "assemble ?L ?P fl") (auto simp: lines_ok_def intro: emits_append)
  qed
qed

lemma assemble_length:
  "assemble L P fl = Some cs \<Longrightarrow> length cs = op_count fl"
proof (induction fl arbitrary: cs)
  case (Cons x fl)
  then show ?case by (cases "snd x") (auto simp: assemble_line_def)
qed simp

text \<open>The instruction at the place of an operation in the file.\<close>

lemma assemble_append:
  "assemble L P (fl @ gl) = do {
     cs \<leftarrow> assemble L P fl; ds \<leftarrow> assemble L P gl; Some (cs @ ds) }"
  by (induction fl) (auto split: bind_splits)

lemma assemble_nth:
  assumes "assemble L P fl = Some cs" and "i < length fl" and "fl ! i = (p, AST_OP op iname oprnd)"
  shows "op_count (take i fl) < length cs \<and>
    assemble_op L P p op oprnd = Some (cs ! op_count (take i fl))"
proof -
  have "assemble L P (take i fl @ fl ! i # drop (Suc i) fl) = Some cs"
    using assms(1,2) by (simp only: id_take_nth_drop [symmetric])
  then obtain xs ys where x: "assemble L P (take i fl) = Some xs"
    and y: "assemble L P (fl ! i # drop (Suc i) fl) = Some ys" and cs: "cs = xs @ ys"
    unfolding assemble_append by (auto simp del: assemble.simps)
  from y assms(3) obtain c zs where "ys = c # zs" "assemble_op L P p op oprnd = Some c"
    by (auto simp: assemble_line_def)
  with assemble_length [OF x] cs show ?thesis by (simp add: nth_append)
qed

text \<open>The program never outgrows the code array.\<close>

lemma push_size: "program_push tr c = Some tr' \<Longrightarrow> prog_size (tr_program tr') \<le> MAX_PROGRAM_CAPACITY"
  by (auto simp: program_push_def Let_def split: if_splits)

lemma label_call_program:
  "translate_label_call tr n p b = Some (name, tr') \<Longrightarrow> tr_program tr' = tr_program tr"
  by (erule label_call_cases) simp_all

lemma op_size:
  assumes "translate_op tr op oprnd p = Some tr'" and "prog_size (tr_program tr) \<le> MAX_PROGRAM_CAPACITY"
  shows "prog_size (tr_program tr') \<le> MAX_PROGRAM_CAPACITY"
proof -
  note defs = translate_op_def translate_push_def translate_jump_def translate_call_def translate_number_def
  from assms show ?thesis
    by (cases "map_of number_ops op"; cases oprnd; (cases "the oprnd")?;
      auto simp: defs dest!: push_size label_call_program split: if_splits option.splits)
qed

lemma line_size:
  assumes "tasm_translate_line tr l p b = Some tr'" and "prog_size (tr_program tr) \<le> MAX_PROGRAM_CAPACITY"
  shows "prog_size (tr_program tr') \<le> MAX_PROGRAM_CAPACITY"
  using assms
proof (cases l)
  case (AST_OP op iname oprnd)
  with assms op_size show ?thesis by (auto simp: tasm_translate_line_def)
next
  case (AST_LABEL_CALL n)
  with assms label_call_program show ?thesis by (fastforce simp: tasm_translate_line_def)
next
  case (AST_CFUNCTION ret args n fname)
  with assms show ?thesis
    by (auto simp: tasm_translate_line_def dest!: cfunction_emits simp: emits_def)
next
  case (AST_DATA v)
  with assms show ?thesis by (auto simp: tasm_translate_line_def dest!: data_emits simp: emits_def)
qed (auto simp: tasm_translate_line_def)

lemma run_flat_size:
  "run_flat tr fl = Some tr' \<Longrightarrow> prog_size (tr_program tr) \<le> MAX_PROGRAM_CAPACITY \<Longrightarrow>
   prog_size (tr_program tr') \<le> MAX_PROGRAM_CAPACITY"
  by (induction fl arbitrary: tr) (auto dest: line_size)

end
