(* ===== verification/Tasm_Correct.thy ===== *)
theory Tasm_Correct
  imports Tasm_Reference
begin

text \<open>
  The whole back end of the assembler on one file: when it is defined, what it returns, and the
  table of constants it builds.
\<close>

subsection \<open>Room\<close>

fun refs_of :: "tasm_ast \<Rightarrow> nat" where
  "refs_of (AST_OP op iname (Some (AST_LABEL_CALL n))) = 1"
| "refs_of _ = 0"

fun cfuns_of :: "tasm_ast \<Rightarrow> nat" where
  "cfuns_of (AST_CFUNCTION ret args n fname) = 1"
| "cfuns_of _ = 0"

fun value_ok :: "tasm_ast \<Rightarrow> bool" where
  "value_ok (AST_DATA v) = (v \<noteq> None \<and> data_bytes (the v) \<noteq> None)"
| "value_ok (AST_CFUNCTION ret args n fname) = (fname \<noteq> None)"
| "value_ok _ = True"

fun ref_fits :: "bytes option \<Rightarrow> tasm_ast \<Rightarrow> bool" where
  "ref_fits p (AST_OP op iname (Some (AST_LABEL_CALL n))) = (scoped_name p n \<noteq> None)"
| "ref_fits p _ = True"

text \<open>What is free in the arrays of the translator.\<close>

definition room :: "tasm_translator_t \<Rightarrow> nat \<Rightarrow> nat \<Rightarrow> nat \<Rightarrow> bool" where
  "room tr k r c \<longleftrightarrow> prog_size (tr_program tr) + k \<le> MAX_PROGRAM_CAPACITY \<and>
     length (label_calls (tr_symbols tr)) + r \<le> SYMBOL_LABEL_CALL_CAPACITY \<and>
     cfun_count (modules (metadata (tr_program tr)) 0) + c \<le> TVM_METADATA_MAX_CFUN_CAPACITY"

lemma push_room:
  "room tr (Suc k) r c \<Longrightarrow> \<exists>tr'. program_push tr op = Some tr' \<and> room tr' k r c"
  by (auto simp: program_push_def room_def Let_def)

lemma room_mono: "room tr (k + a) (r + b) (c + d) \<Longrightarrow> room tr k r c"
  by (simp add: room_def)

lemma label_call_room:
  assumes "room tr k (Suc r) c" and "scoped_name prefix n \<noteq> None"
  shows "\<exists>name tr'. translate_label_call tr n prefix b = Some (name, tr') \<and> room tr' k r c"
proof -
  from assms(2) obtain name where "scoped_name prefix n = Some name" by blast
  with assms(1) show ?thesis
    by (cases "if prefix = None \<and> b then get_addr_from_proc_decl_symbol tr name
        else get_addr_from_label_decl_symbol tr name")
      (auto simp: translate_label_call_def sym_add_def room_def)
qed

lemma jump_room:
  assumes "room tr (Suc k) (Suc r) c" and "scoped_name prefix n \<noteq> None"
  shows "\<exists>tr'. translate_jump tr op (Some (AST_LABEL_CALL n)) prefix = Some tr' \<and> room tr' k r c"
proof -
  obtain name tr1 where t: "translate_label_call tr n prefix False = Some (name, tr1)" "room tr1 (Suc k) r c"
    using label_call_room [OF assms] by blast
  with push_room [OF t(2)] room_mono [of tr1 k 1 r 0 c 0] show ?thesis
    by (auto simp: translate_jump_def split: option.splits)
qed

lemma call_room:
  assumes "room tr (Suc k) (Suc r) c"
  shows "\<exists>tr'. translate_call tr (Some (AST_LABEL_CALL n)) = Some tr' \<and> room tr' k r c"
proof -
  obtain name tr1 where t: "translate_label_call tr n None True = Some (name, tr1)" "room tr1 (Suc k) r c"
    using label_call_room [OF assms, of None n True] by auto
  with push_room [OF t(2)] room_mono [of tr1 k 1 r 0 c 0] show ?thesis
    by (auto simp: translate_call_def split: option.splits)
qed

lemma op_room:
  assumes "room tr (Suc k) (refs_of (AST_OP op iname oprnd) + r) c" and "operand_fits op oprnd"
    and "ref_fits p (AST_OP op iname oprnd)"
  shows "\<exists>tr'. translate_op tr op oprnd p = Some tr' \<and> room tr' k r c"
proof (cases "label_node oprnd")
  case True
  then obtain n where n: "oprnd = Some (AST_LABEL_CALL n)" by (auto elim: label_node.elims)
  have nf: "\<not> number_node oprnd" "\<not> char_node oprnd" by (simp_all add: n)
  consider "op \<in> set jump_ops" | "op = OP_CALL" "op \<notin> set jump_ops"
    | "op \<noteq> OP_PUSH" "op \<notin> set jump_ops" "op \<noteq> OP_CALL" "map_of number_ops op = None"
    using assms(2) nf by (cases "map_of number_ops op") (auto simp: operand_fits_def)
  then show ?thesis
  proof cases
    case 1
    moreover from 1 have "op \<noteq> OP_PUSH" by (auto simp: jump_ops_def)
    ultimately show ?thesis using jump_room [of tr k r c p n op] assms(1,3) by (simp add: n translate_op_def)
  next
    case 2
    then show ?thesis using call_room [of tr k r c n] assms(1) by (simp add: n translate_op_def)
  next
    case 3
    with push_room [of tr k "Suc r" c] assms(1) room_mono [of _ k 0 r 1 c 0] show ?thesis
      by (fastforce simp: n translate_op_def)
  qed
next
  case False
  then have "refs_of (AST_OP op iname oprnd) = 0"
    by (cases oprnd; cases "the oprnd") auto
  with assms(1) have r: "room tr (Suc k) r c" by simp
  note defs = translate_op_def translate_push_def translate_jump_def translate_number_def operand_fits_def
  have "\<exists>w. translate_op tr op oprnd p = program_push tr w"
    using assms(2) False by (cases "map_of number_ops op")
      (auto simp: defs elim!: number_node.elims char_node.elims)
  with push_room [OF r] show ?thesis by auto
qed

lemma data_room:
  assumes "room tr k r c" and "value_ok (AST_DATA v)"
  shows "\<exists>tr'. tasm_translate_data tr v = Some tr' \<and> room tr' k r c"
proof -
  from assms(2) obtain node item where "v = Some node" "data_bytes node = Some item" by auto
  with assms(1) show ?thesis by (cases item) (simp_all add: tasm_translate_data_def room_def)
qed

lemma cfunction_room:
  assumes "room tr k r (Suc c)"
  shows "\<exists>tr'. tasm_translate_cfunction tr ret args (Some n) = Some tr' \<and> room tr' k r c"
  using assms by (auto simp: tasm_translate_cfunction_def room_def Let_def)

lemma line_room:
  assumes "room tr ((if is_op l then 1 else 0) + k) (refs_of l + r) (cfuns_of l + c)"
    and "plain_line l" and "operands_ok l" and "value_ok l" and "ref_fits p l"
  shows "\<exists>tr'. tasm_translate_line tr l p False = Some tr' \<and> room tr' k r c"
proof (cases l)
  case (AST_OP op iname oprnd)
  with assms op_room [of tr k op iname oprnd r c p] show ?thesis
    by (simp add: tasm_translate_line_def del: refs_of.simps ref_fits.simps)
next
  case (AST_DATA v)
  with assms data_room [of tr k r c v] show ?thesis by (simp add: tasm_translate_line_def)
next
  case (AST_CFUNCTION ret args n fname)
  with assms cfunction_room [of tr k r c] show ?thesis by (auto simp: tasm_translate_line_def)
qed (use assms in \<open>simp_all add: tasm_translate_line_def\<close>)

definition flat_ok :: "flat \<Rightarrow> bool" where
  "flat_ok fl \<longleftrightarrow> list_all (\<lambda>x. operands_ok (snd x) \<and> value_ok (snd x) \<and> ref_fits (fst x) (snd x) \<and>
     label_fits x) fl"

lemma flat_room:
  assumes "room tr (op_count fl) (\<Sum>x\<leftarrow>fl. refs_of (snd x)) (\<Sum>x\<leftarrow>fl. cfuns_of (snd x))"
    and "list_all (\<lambda>x. plain_line (snd x)) fl" and "flat_ok fl"
  shows "run_flat tr fl \<noteq> None"
  using assms
proof (induction fl arbitrary: tr)
  case (Cons x fl)
  then have l: "plain_line (snd x)" "operands_ok (snd x)" "value_ok (snd x)" "ref_fits (fst x) (snd x)"
    by (simp_all add: flat_ok_def)
  from Cons.prems(1) line_room [OF _ l, of tr "op_count fl"]
  obtain tr' where "tasm_translate_line tr (snd x) (fst x) False = Some tr'"
    "room tr' (op_count fl) (\<Sum>x\<leftarrow>fl. refs_of (snd x)) (\<Sum>x\<leftarrow>fl. cfuns_of (snd x))" by auto
  with Cons show ?case by (simp add: flat_ok_def)
qed simp

subsection \<open>One file\<close>

lemma init_simps_tr [simp]:
  "label_decls (tr_symbols tasm_translator_init) = []" "proc_decls (tr_symbols tasm_translator_init) = []"
  "label_calls (tr_symbols tasm_translator_init) = []" "\<not> sym_err (tr_symbols tasm_translator_init)"
  "label_address_pointer (tr_symbols tasm_translator_init) = 0"
  "proc_address_pointer (tr_symbols tasm_translator_init) = 0"
  "tr_program tasm_translator_init = zero_program" "beginning_address tasm_translator_init = 0"
  by (simp_all add: tasm_translator_init_def)

lemmas label_pass = labels.pass_sound [folded label_entries_def, unfolded sum_op_count]
  labels.pass_exit [folded label_entries_def]

lemmas proc_pass = procs.pass_sound [folded proc_entries_def, unfolded sum_op_count_lines]
  procs.pass_exit [folded proc_entries_def]

text \<open>The state the translation starts from.\<close>

definition resolved :: "tasm_ast list \<Rightarrow> tasm_translator_t" where
  "resolved ls = put_labels (label_entries 0 (flat_lines ls)) (op_count (flat_lines ls))
     (put_procs (proc_entries 0 ls) (op_count (flat_lines ls)) tasm_translator_init)"

lemma resolved_simps [simp]:
  "label_decls (tr_symbols (resolved ls)) = label_entries 0 (flat_lines ls)"
  "proc_decls (tr_symbols (resolved ls)) = proc_entries 0 ls"
  "label_calls (tr_symbols (resolved ls)) = []" "\<not> sym_err (tr_symbols (resolved ls))"
  "tr_program (resolved ls) = zero_program" "beginning_address (resolved ls) = 0" "refs_ok (resolved ls)"
  by (simp_all add: resolved_def put_labels_def put_procs_def refs_ok_def)

definition dup_names :: "tasm_ast list \<Rightarrow> bool" where
  "dup_names ls \<longleftrightarrow> \<not> distinct (map fst (label_entries 0 (flat_lines ls))) \<or>
     \<not> distinct (map fst (proc_entries 0 ls))"

lemma procs_file:
  assumes "list_all wf_line ls" and "tasm_resolve_procs tasm_translator_init (AST_FILE ls) = Some r"
  shows "r = Inl 1 \<and> \<not> distinct (map fst (proc_entries 0 ls)) \<or>
    r = Inr (put_procs (proc_entries 0 ls) (op_count (flat_lines ls)) tasm_translator_init) \<and>
    distinct (map fst (proc_entries 0 ls))"
proof -
  have "fold_exit (\<lambda>l tr. tasm_resolve_procs tr l) ls tasm_translator_init = Some r"
    using assms(2) by (simp add: resolve_procs_flat)
  with proc_pass [OF assms(1), of tasm_translator_init]
  show ?thesis by (cases r) (auto simp: procs.decls_put)
qed

lemma labels_file:
  assumes "list_all wf_line ls" and "label_decls (tr_symbols tr) = []" "label_address_pointer (tr_symbols tr) = 0"
    and "tasm_resolve_labels tr (AST_FILE ls) None = Some r"
  shows "r = Inl 1 \<and> \<not> distinct (map fst (label_entries 0 (flat_lines ls))) \<or>
    r = Inr (put_labels (label_entries 0 (flat_lines ls)) (op_count (flat_lines ls)) tr) \<and>
    distinct (map fst (label_entries 0 (flat_lines ls)))"
proof -
  note pl = flat_lines_plain [OF assms(1)]
  have "fold_exit label_step (flat_lines ls) tr = Some r"
    using assms(4) by (simp add: resolve_labels_flat [OF assms(1)])
  with label_pass [OF pl, of tr] assms(2,3)
  show ?thesis by (cases r) (auto simp: labels.decls_put)
qed

text \<open>The passes in order: a duplicate ends the process, else the translation runs on the resolved
  tables.\<close>

lemma assemble_file_cases:
  assumes "list_all wf_line ls" and "assemble_ast (AST_FILE ls) = Some r"
  shows "r = Inl 1 \<and> dup_names ls \<or>
    (\<exists>tr. r = Inr tr \<and> \<not> dup_names ls \<and> run_flat (resolved ls) (flat_lines ls) = Some tr)"
proof -
  let ?q = "put_procs (proc_entries 0 ls) (op_count (flat_lines ls)) tasm_translator_init"
  from assms(2) obtain r1 where r1: "tasm_resolve_procs tasm_translator_init (AST_FILE ls) = Some r1"
    by (cases "tasm_resolve_procs tasm_translator_init (AST_FILE ls)") (auto simp: assemble_ast_def)
  show ?thesis
  proof (cases r1)
    case (Inl n)
    with procs_file [OF assms(1) r1] assms(2) r1 show ?thesis by (auto simp: assemble_ast_def dup_names_def)
  next
    case (Inr tr1)
    with procs_file [OF assms(1) r1] have p: "tr1 = ?q" "distinct (map fst (proc_entries 0 ls))" by auto
    with assms(2) r1 Inr obtain r2 where r2: "tasm_resolve_labels ?q (AST_FILE ls) None = Some r2"
      by (cases "tasm_resolve_labels ?q (AST_FILE ls) None") (auto simp: assemble_ast_def)
    have "label_decls (tr_symbols ?q) = []" "label_address_pointer (tr_symbols ?q) = 0"
      by (simp_all add: put_procs_def)
    note l = labels_file [OF assms(1) this r2]
    show ?thesis
    proof (cases r2)
      case (Inl n)
      with l assms(2) r1 r2 Inr p show ?thesis by (auto simp: assemble_ast_def dup_names_def)
    next
      case (Inr tr2)
      with l have tr2: "tr2 = resolved ls" "distinct (map fst (label_entries 0 (flat_lines ls)))"
        by (auto simp: resolved_def)
      with assms(2) r1 r2 Inr \<open>r1 = Inr tr1\<close> p show ?thesis
        by (auto simp: assemble_ast_def dup_names_def tasm_translate_unit_def translate_file_flat [OF assms(1)])
    qed
  qed
qed

lemma assemble_file_defined:
  assumes "list_all wf_line ls" and "flat_ok (flat_lines ls)"
    and "op_count (flat_lines ls) \<le> MAX_PROGRAM_CAPACITY"
    and "length (label_entries 0 (flat_lines ls)) \<le> SYMBOL_LABEL_DECL_CAPACITY"
    and "length (proc_entries 0 ls) \<le> SYMBOL_PROC_DECL_CAPACITY"
    and "(\<Sum>x\<leftarrow>flat_lines ls. refs_of (snd x)) \<le> SYMBOL_LABEL_CALL_CAPACITY"
    and "(\<Sum>x\<leftarrow>flat_lines ls. cfuns_of (snd x)) \<le> TVM_METADATA_MAX_CFUN_CAPACITY"
  shows "assemble_ast (AST_FILE ls) \<noteq> None"
proof -
  let ?q = "put_procs (proc_entries 0 ls) (op_count (flat_lines ls)) tasm_translator_init"
  note pl = flat_lines_plain [OF assms(1)]
  have "fold_exit (\<lambda>l tr. tasm_resolve_procs tr l) ls tasm_translator_init \<noteq> None"
    by (rule procs.pass_defined [OF assms(1), folded proc_entries_def, of _ 0])
      (use assms(5) in \<open>simp_all add: list_all_iff\<close>)
  then obtain r1 where r1: "tasm_resolve_procs tasm_translator_init (AST_FILE ls) = Some r1"
    by (auto simp: resolve_procs_flat)
  have "fold_exit label_step (flat_lines ls) ?q \<noteq> None"
    by (rule labels.pass_defined [OF pl, folded label_entries_def, of _ 0])
      (use assms(2,4) in \<open>auto simp: list_all_iff flat_ok_def put_procs_def\<close>)
  then obtain r2 where r2: "tasm_resolve_labels ?q (AST_FILE ls) None = Some r2"
    by (auto simp: resolve_labels_flat [OF assms(1)])
  have "room (resolved ls) (op_count (flat_lines ls)) (\<Sum>x\<leftarrow>flat_lines ls. refs_of (snd x))
      (\<Sum>x\<leftarrow>flat_lines ls. cfuns_of (snd x))"
    using assms(3,6,7) by (simp add: room_def zero_program_def zero_module_def)
  from flat_room [OF this pl assms(2)] obtain tr where "run_flat (resolved ls) (flat_lines ls) = Some tr"
    by blast
  moreover have "label_decls (tr_symbols ?q) = []" "label_address_pointer (tr_symbols ?q) = 0"
    by (simp_all add: put_procs_def)
  ultimately show ?thesis
    using procs_file [OF assms(1) r1] labels_file [OF assms(1) _ _ r2] r1 r2
    by (auto simp: assemble_ast_def tasm_translate_unit_def translate_file_flat [OF assms(1)] resolved_def)
qed

subsection \<open>The constants\<close>

text \<open>The bytes of the constants of a file in order, and the table that holds them: each one directly
  behind the one before.\<close>

fun data_items :: "tasm_ast \<Rightarrow> bytes list" where
  "data_items (AST_DATA (Some v)) = (case data_bytes v of Some (Some bs) \<Rightarrow> [bs] | _ \<Rightarrow> [])"
| "data_items _ = []"

fun constant_line :: "tasm_ast \<Rightarrow> bool" where
  "constant_line (AST_DATA (Some v)) = (case data_bytes v of Some (Some bs) \<Rightarrow> True | _ \<Rightarrow> False)"
| "constant_line (AST_DATA None) = False"
| "constant_line _ = True"

primrec offsets :: "nat \<Rightarrow> bytes list \<Rightarrow> nat list" where
  "offsets k [] = []"
| "offsets k (bs # bss) = k # offsets (k + length bs) bss"

definition consts_of :: "bytes list \<Rightarrow> tvm_const_table" where
  "consts_of bss = \<lparr>referances = offsets 0 bss, referance_count = length bss,
     data = concat bss, data_size = length (concat bss)\<rparr>"

lemma offsets_append: "offsets k (as @ bs) = offsets k as @ offsets (k + length (concat as)) bs"
  by (induction as arbitrary: k) (simp_all add: add.assoc)

lemma length_offsets [simp]: "length (offsets k bss) = length bss"
  by (induction bss arbitrary: k) simp_all

lemma offsets_nth: "i < length bss \<Longrightarrow> offsets k bss ! i = k + length (concat (take i bss))"
proof (induction bss arbitrary: k i)
  case (Cons b bss)
  then show ?case by (cases i) (simp_all add: add.assoc)
qed simp

lemma consts_of_slice:
  assumes "i < length bss"
  shows "take (length (bss ! i)) (drop (referances (consts_of bss) ! i) (data (consts_of bss))) = bss ! i"
proof -
  have "concat bss = concat (take i bss) @ bss ! i @ concat (drop (Suc i) bss)"
    by (subst id_take_nth_drop [OF assms]) simp
  then show ?thesis by (simp add: consts_of_def offsets_nth [OF assms])
qed

definition holds_consts :: "bytes list \<Rightarrow> tasm_translator_t \<Rightarrow> bool" where
  "holds_consts bss tr \<longleftrightarrow> const_table (tr_program tr) = consts_of bss \<and>
     beginning_address tr = length (concat bss)"

lemma push_consts: "program_push tr c = Some tr' \<Longrightarrow> holds_consts bss tr' = holds_consts bss tr"
  by (auto simp: program_push_def holds_consts_def Let_def split: if_splits)

lemma label_call_consts:
  "translate_label_call tr n p b = Some (name, tr') \<Longrightarrow> holds_consts bss tr' = holds_consts bss tr"
  by (erule label_call_cases) (simp_all add: holds_consts_def)

lemma op_consts:
  assumes "translate_op tr op oprnd p = Some tr'"
  shows "holds_consts bss tr' = holds_consts bss tr"
proof -
  note defs = translate_op_def translate_push_def translate_jump_def translate_call_def translate_number_def
  from assms show ?thesis
    by (cases "map_of number_ops op"; cases oprnd; (cases "the oprnd")?;
      auto simp: defs dest!: push_consts label_call_consts split: if_splits option.splits)
qed

lemma data_consts:
  assumes "tasm_translate_data tr v = Some tr'" and "constant_line (AST_DATA v)" and "holds_consts bss tr"
  shows "holds_consts (bss @ data_items (AST_DATA v)) tr'"
proof -
  from assms(2) obtain node bs where n: "v = Some node" "data_bytes node = Some (Some bs)"
    by (cases v) (auto split: option.splits)
  with assms(1,3) show ?thesis
    by (auto simp: tasm_translate_data_def holds_consts_def consts_of_def offsets_append)
qed

lemma line_consts:
  assumes "tasm_translate_line tr l p False = Some tr'" and "constant_line l" and "holds_consts bss tr"
  shows "holds_consts (bss @ data_items l) tr'"
  using assms
proof (cases l)
  case (AST_OP op iname oprnd)
  with assms op_consts show ?thesis by (auto simp: tasm_translate_line_def)
next
  case (AST_LABEL_CALL n)
  with assms label_call_consts show ?thesis by (fastforce simp: tasm_translate_line_def)
next
  case (AST_CFUNCTION ret args n fname)
  with assms show ?thesis
    by (auto simp: tasm_translate_line_def tasm_translate_cfunction_def Let_def holds_consts_def
        split: option.splits if_splits)
next
  case (AST_DATA v)
  with assms data_consts show ?thesis by (simp add: tasm_translate_line_def)
qed (simp_all add: tasm_translate_line_def)

lemma flat_consts:
  assumes "run_flat tr fl = Some tr'" and "list_all (\<lambda>x. constant_line (snd x)) fl" and "holds_consts bss tr"
  shows "holds_consts (bss @ concat (map (\<lambda>x. data_items (snd x)) fl)) tr'"
  using assms
proof (induction fl arbitrary: tr bss)
  case (Cons x fl)
  then obtain tr1 where s: "tasm_translate_line tr (snd x) (fst x) False = Some tr1"
    and r: "run_flat tr1 fl = Some tr'" by auto
  from Cons.IH [OF r _ line_consts [OF s _ Cons.prems(3)]] Cons.prems(2) show ?case by simp
qed simp

text \<open>The table of an assembled file.\<close>

lemma assembled_consts:
  assumes "list_all wf_line ls" and "list_all (\<lambda>x. constant_line (snd x)) (flat_lines ls)"
    and "assemble_ast (AST_FILE ls) = Some (Inr tr)"
  shows "const_table (tr_program tr) = consts_of (concat (map (\<lambda>x. data_items (snd x)) (flat_lines ls)))"
proof -
  from assemble_file_cases [OF assms(1,3)] have r: "run_flat (resolved ls) (flat_lines ls) = Some tr" by auto
  have "holds_consts [] (resolved ls)" by (simp add: holds_consts_def consts_of_def zero_program_def)
  from flat_consts [OF r assms(2) this] show ?thesis by (simp add: holds_consts_def)
qed

end
