(* ===== verification/Tasm_Properties.thy ===== *)
theory Tasm_Properties
  imports Tasm_Correct Vm_Demo
begin

text \<open>
  The properties of the assembler's back end: the refinement of the reference assembler, where
  jumps and calls lead in the running machine, when the passes are defined, the constant table,
  and a file whose jump is resolved to the wrong address.
\<close>

lemma assembled:
  assumes "list_all wf_line ls" and "list_all (\<lambda>x. operands_ok (snd x)) (flat_lines ls)"
    and "names_apart (label_entries 0 (flat_lines ls)) (proc_entries 0 ls)"
    and "assemble_ast (AST_FILE ls) = Some (Inr tr)"
  shows "lines_ok (assemble (label_entries 0 (flat_lines ls)) (proc_entries 0 ls) (flat_lines ls))
    (resolved ls) tr" and "\<not> dup_names ls" and "prog_size (tr_program tr) \<le> MAX_PROGRAM_CAPACITY"
proof -
  from assemble_file_cases [OF assms(1,4)] have r: "run_flat (resolved ls) (flat_lines ls) = Some tr"
    and "\<not> dup_names ls" by auto
  then show "\<not> dup_names ls" by blast
  show "prog_size (tr_program tr) \<le> MAX_PROGRAM_CAPACITY"
    by (rule run_flat_size [OF r]) (simp add: zero_program_def)
  show "lines_ok (assemble (label_entries 0 (flat_lines ls)) (proc_entries 0 ls) (flat_lines ls))
      (resolved ls) tr"
    using run_flat_ok [OF r flat_lines_plain [OF assms(1)] assms(2)] assms(3) by simp
qed

lemma assembled_program:
  assumes "lines_ok (assemble L P fl) (resolved ls) tr" and "\<not> sym_err (tr_symbols tr)"
  obtains cs where "assemble L P fl = Some cs" "prog_size (tr_program tr) = length cs"
    "\<And>i. i < length cs \<Longrightarrow> code (tr_program tr) i = cs ! i"
  using assms by (cases "assemble L P fl") (auto simp: lines_ok_def emits_def zero_program_def)

text \<open>An assembled instruction in the machine.\<close>

definition vm_operand :: "stack_obj_type_t \<Rightarrow> u32 \<Rightarrow> object_t" where
  "vm_operand t w = \<lparr>obj_type = obj_type_code t, ui64 = ucast w\<rparr>"

lemma ui32_vm_operand [simp]: "ui32 (vm_operand t w) = w"
  by (rule bit_word_eqI) (simp add: vm_operand_def ui32_def bit_simps)

lemma exec_assembled:
  assumes "ip vm < TVM_PROGRAM_CAPACITY" and "code (program vm) (ip vm) = operand_opcode op t w"
  shows "tvm_exec_opcode env vm = exec_op op env (vm_operand t w) vm"
  using assms by (simp add: tvm_exec_opcode_def operand_opcode_def vm_operand_def del: optype_code.simps)

text \<open>Sample files: a loop that jumps backwards over a call of a procedure with a label of its own,
  and two constants.\<close>

definition lbl :: "string \<Rightarrow> tasm_ast" where "lbl s = AST_LABEL_DECL (bytes_of s)"

definition opn :: "optype_t \<Rightarrow> tasm_ast" where "opn op = AST_OP op [] None"

definition ref :: "optype_t \<Rightarrow> string \<Rightarrow> tasm_ast" where
  "ref op s = AST_OP op [] (Some (AST_LABEL_CALL (bytes_of s)))"

definition loop_file :: "tasm_ast list" where
  "loop_file = [AST_DATA (Some (AST_STRING (bytes_of ''hi''))), AST_DATA (Some (AST_NUMBER (bytes_of ''7'') 7)),
     opn OP_NOP, lbl ''a'', ref OP_CALL ''p'', ref OP_JMP ''a'', opn OP_HALT,
     AST_PROC (Some (bytes_of ''p'')) [opn OP_NOP, lbl ''a'', ref OP_JZ ''a'', opn OP_RET]]"

lemmas sample_defs = lbl_def opn_def ref_def bytes_of_def byte_of_char_def

lemma loop_file_ok:
  "list_all wf_line loop_file" "flat_ok (flat_lines loop_file)"
  "list_all (\<lambda>x. operands_ok (snd x)) (flat_lines loop_file)"
  "names_apart (label_entries 0 (flat_lines loop_file)) (proc_entries 0 loop_file)"
  "\<not> dup_names loop_file"
  by (simp_all add: loop_file_def sample_defs flat_ok_def operand_fits_def jump_ops_def number_ops_def
      label_fits_def scoped_name_def names_apart_def dup_names_def label_entries_def proc_entries_def
      label_entry_def proc_entry_def full_name_def data_bytes_def)

lemma loop_file_defined: "\<exists>r. assemble_ast (AST_FILE loop_file) = Some r"
  using assemble_file_defined [OF loop_file_ok(1,2)]
  by (simp add: loop_file_def sample_defs symbol_capacities capacities label_entries_def proc_entries_def
      label_entry_def proc_entry_def)

lemma loop_file_code:
  "assemble (label_entries 0 (flat_lines loop_file)) (proc_entries 0 loop_file) (flat_lines loop_file) =
     Some [plain_opcode OP_NOP, operand_opcode OP_CALL STACK_OBJ_TYPE_VM_ADDRESS 4,
       operand_opcode OP_JMP STACK_OBJ_TYPE_VM_ADDRESS 1, plain_opcode OP_HALT,
       plain_opcode OP_NOP, operand_opcode OP_JZ STACK_OBJ_TYPE_VM_ADDRESS 5, plain_opcode OP_RET]"
  by (simp add: loop_file_def sample_defs label_entries_def proc_entries_def label_entry_def proc_entry_def
      full_name_def assemble_line_def assemble_op_def jump_ops_def number_ops_def)

subsection \<open>The properties\<close>

text \<open>C8. The passes implement the reference assembler: for a file whose operands are of the kind
  their instructions want and whose labels and procedures have different names, the process ends
  exactly when a name is declared twice; otherwise the error flag is set exactly when a symbol is
  unknown, and without it the code array holds the reference program.\<close>

theorem assembler_refines_reference:
  assumes "list_all wf_line ls" and "list_all (\<lambda>x. operands_ok (snd x)) (flat_lines ls)"
    and "names_apart (label_entries 0 (flat_lines ls)) (proc_entries 0 ls)"
    and "assemble_ast (AST_FILE ls) = Some r"
  shows "case r of
      Inl n \<Rightarrow> n = 1 \<and> dup_names ls
    | Inr tr \<Rightarrow> \<not> dup_names ls \<and>
        (case assemble (label_entries 0 (flat_lines ls)) (proc_entries 0 ls) (flat_lines ls) of
           None \<Rightarrow> tasm_translator_is_err tr
         | Some cs \<Rightarrow> \<not> tasm_translator_is_err tr \<and> prog_size (tr_program tr) = length cs \<and>
             (\<forall>i < length cs. code (tr_program tr) i = cs ! i))"
proof (cases r)
  case (Inl n)
  with assemble_file_cases [OF assms(1,4)] show ?thesis by auto
next
  case (Inr tr)
  with assms(4) have "assemble_ast (AST_FILE ls) = Some (Inr tr)" by simp
  from assembled [OF assms(1,2,3) this] Inr show ?thesis
    by (auto simp: lines_ok_def emits_def tasm_translator_is_err_def zero_program_def split: option.splits)
qed

theorem assembler_refines_reference_witness:
  "\<exists>tr. assemble_ast (AST_FILE loop_file) = Some (Inr tr) \<and> \<not> tasm_translator_is_err tr \<and>
     prog_size (tr_program tr) = 7 \<and>
     code (tr_program tr) 5 = operand_opcode OP_JZ STACK_OBJ_TYPE_VM_ADDRESS 5"
proof -
  obtain r where r: "assemble_ast (AST_FILE loop_file) = Some r" using loop_file_defined by blast
  from assembler_refines_reference [OF loop_file_ok(1,3,4) r] loop_file_ok(5) r show ?thesis
    by (cases r) (auto simp: loop_file_code numeral_eq_Suc)
qed

text \<open>C33. A jump to a label of the same scope is assembled to the number of instructions before the
  label's declaration, and the virtual machine that executes it continues there.\<close>

theorem assembled_jump_lands:
  assumes "list_all wf_line ls" and "list_all (\<lambda>x. operands_ok (snd x)) (flat_lines ls)"
    and "names_apart (label_entries 0 (flat_lines ls)) (proc_entries 0 ls)"
    and "assemble_ast (AST_FILE ls) = Some (Inr tr)" and "\<not> tasm_translator_is_err tr"
    and "i < length (flat_lines ls)"
    and "flat_lines ls ! i = (p, AST_OP op iname (Some (AST_LABEL_CALL n)))" and "op \<in> set jump_ops"
    and "j < length (flat_lines ls)" and "flat_lines ls ! j = (p, AST_LABEL_DECL n)"
    and "op_count (take j (flat_lines ls)) < op_count (flat_lines ls)"
    and "program vm = tr_program tr" and "ip vm = op_count (take i (flat_lines ls))"
  shows "code (tr_program tr) (op_count (take i (flat_lines ls))) =
      operand_opcode op STACK_OBJ_TYPE_VM_ADDRESS (word_of_nat (op_count (take j (flat_lines ls)))) \<and>
    (op = OP_JMP \<longrightarrow> tvm_exec_opcode env vm =
      Some (EXCEPT_OK, vm\<lparr>ip := op_count (take j (flat_lines ls))\<rparr>))"
proof -
  note a = assembled [OF assms(1-4)]
  obtain cs where cs: "assemble (label_entries 0 (flat_lines ls)) (proc_entries 0 ls) (flat_lines ls) = Some cs"
    and sz: "prog_size (tr_program tr) = length cs"
    and nth: "\<And>i. i < length cs \<Longrightarrow> code (tr_program tr) i = cs ! i"
    using assembled_program [OF a(1)] assms(5) by (auto simp: tasm_translator_is_err_def)
  have d: "sym_find (label_entries 0 (flat_lines ls)) (full_name p n) = Some (op_count (take j (flat_lines ls)))"
    using sym_find_distinct label_entry_nth [OF assms(9,10)] a(2) by (auto simp: dup_names_def)
  have jp: "op \<noteq> OP_PUSH" using assms(8) by (auto simp: jump_ops_def)
  note at = assemble_nth [OF cs assms(6,7)]
  then have c: "code (tr_program tr) (op_count (take i (flat_lines ls))) =
      operand_opcode op STACK_OBJ_TYPE_VM_ADDRESS (word_of_nat (op_count (take j (flat_lines ls))))"
    using nth d assms(8) jp by (simp add: assemble_op_def)
  have l: "length cs = op_count (flat_lines ls)" by (rule assemble_length [OF cs])
  have "unat (word_of_nat (op_count (take j (flat_lines ls))) :: u32) = op_count (take j (flat_lines ls))"
    using a(3) assms(11) by (intro unat_of_nat_id) (simp add: sz l symbol_capacities)
  moreover have "ip vm < TVM_PROGRAM_CAPACITY"
    using at a(3) assms(13) by (simp add: sz symbol_capacities capacities)
  ultimately have "op = OP_JMP \<longrightarrow> tvm_exec_opcode env vm =
      Some (EXCEPT_OK, vm\<lparr>ip := op_count (take j (flat_lines ls))\<rparr>)"
    using exec_assembled [of vm OP_JMP] c assms(11-13) by (simp add: op_jmp_def ok_def sz l)
  with c show ?thesis by blast
qed

definition loop_vm :: machine where
  "loop_vm = (let vm = tvm_init empty_memory;
     tr = (case assemble_ast (AST_FILE loop_file) of Some (Inr tr) \<Rightarrow> tr | _ \<Rightarrow> tasm_translator_init)
   in vm\<lparr>program := tr_program tr, ip := 2\<rparr>)"

theorem assembled_jump_lands_witness:
  "tvm_exec_opcode demo_env loop_vm = Some (EXCEPT_OK, loop_vm\<lparr>ip := 1\<rparr>)"
proof -
  obtain r where r: "assemble_ast (AST_FILE loop_file) = Some r" using loop_file_defined by blast
  with assemble_file_cases [OF loop_file_ok(1) r] loop_file_ok(5)
  obtain tr where tr: "assemble_ast (AST_FILE loop_file) = Some (Inr tr)" by auto
  have ok: "\<not> tasm_translator_is_err tr"
    using assembled(1) [OF loop_file_ok(1,3,4) tr]
    by (simp add: loop_file_code lines_ok_def emits_def tasm_translator_is_err_def)
  have vm: "program loop_vm = tr_program tr" "ip loop_vm = 2" by (simp_all add: loop_vm_def tr)
  show ?thesis
    using assembled_jump_lands [OF loop_file_ok(1,3,4) tr ok, of 5 None OP_JMP "[]" "bytes_of ''a''" 3
        loop_vm demo_env] vm
    by (simp add: loop_file_def lbl_def ref_def opn_def jump_ops_def numeral_eq_Suc)
qed

text \<open>C34. A call is assembled to the number of instructions before the procedure, and the virtual
  machine that executes it enters there, with the following instruction as the return address.\<close>

theorem assembled_call_enters:
  assumes "list_all wf_line ls" and "list_all (\<lambda>x. operands_ok (snd x)) (flat_lines ls)"
    and "names_apart (label_entries 0 (flat_lines ls)) (proc_entries 0 ls)"
    and "assemble_ast (AST_FILE ls) = Some (Inr tr)" and "\<not> tasm_translator_is_err tr"
    and "i < length (flat_lines ls)"
    and "flat_lines ls ! i = (p, AST_OP OP_CALL iname (Some (AST_LABEL_CALL n)))"
    and "k < length ls" and "ls ! k = AST_PROC (Some n) body"
    and "op_count (flat_lines (take k ls)) < op_count (flat_lines ls)"
    and "program vm = tr_program tr" and "ip vm = op_count (take i (flat_lines ls))"
    and "rsp vm < RETURN_STACK_CAPACITY" and "tvm_frame_next (frames vm) (frame vm) = Some (fr, fs)"
  shows "\<exists>vm'. tvm_exec_opcode env vm = Some (EXCEPT_OK, vm') \<and>
    ip vm' = op_count (flat_lines (take k ls)) \<and> rsp vm' = rsp vm + 1 \<and>
    return_stack vm' (rsp vm) = op_count (take i (flat_lines ls)) + 1 \<and> frame vm' = fr"
proof -
  note a = assembled [OF assms(1-4)]
  obtain cs where cs: "assemble (label_entries 0 (flat_lines ls)) (proc_entries 0 ls) (flat_lines ls) = Some cs"
    and sz: "prog_size (tr_program tr) = length cs"
    and nth: "\<And>i. i < length cs \<Longrightarrow> code (tr_program tr) i = cs ! i"
    using assembled_program [OF a(1)] assms(5) by (auto simp: tasm_translator_is_err_def)
  have d: "sym_find (proc_entries 0 ls) n = Some (op_count (flat_lines (take k ls)))"
    using sym_find_distinct proc_entry_nth [OF assms(8,9)] a(2) by (auto simp: dup_names_def)
  note at = assemble_nth [OF cs assms(6,7)]
  then have c: "code (tr_program tr) (op_count (take i (flat_lines ls))) =
      operand_opcode OP_CALL STACK_OBJ_TYPE_VM_ADDRESS (word_of_nat (op_count (flat_lines (take k ls))))"
    using nth d by (simp add: assemble_op_def jump_ops_def)
  have l: "length cs = op_count (flat_lines ls)" by (rule assemble_length [OF cs])
  have "unat (word_of_nat (op_count (flat_lines (take k ls))) :: u32) = op_count (flat_lines (take k ls))"
    using a(3) assms(10) by (intro unat_of_nat_id) (simp add: sz l symbol_capacities)
  moreover have "ip vm < TVM_PROGRAM_CAPACITY"
    using at a(3) assms(12) by (simp add: sz symbol_capacities capacities)
  ultimately show ?thesis
    using exec_assembled [of vm OP_CALL] c assms(10-14) by (simp add: op_call_def ok_def sz l)
qed

theorem assembled_call_enters_witness:
  "\<exists>vm'. tvm_exec_opcode demo_env (loop_vm\<lparr>ip := 1\<rparr>) = Some (EXCEPT_OK, vm') \<and> ip vm' = 4"
proof -
  obtain r where r: "assemble_ast (AST_FILE loop_file) = Some r" using loop_file_defined by blast
  with assemble_file_cases [OF loop_file_ok(1) r] loop_file_ok(5)
  obtain tr where tr: "assemble_ast (AST_FILE loop_file) = Some (Inr tr)" by auto
  have ok: "\<not> tasm_translator_is_err tr"
    using assembled(1) [OF loop_file_ok(1,3,4) tr]
    by (simp add: loop_file_code lines_ok_def emits_def tasm_translator_is_err_def)
  let ?vm = "loop_vm\<lparr>ip := 1\<rparr>"
  have vm: "program loop_vm = tr_program tr" "rsp loop_vm = 0" "frame loop_vm = frame (boot [])"
    "frames loop_vm = frames (boot [])"
    by (simp_all add: loop_vm_def tr Let_def boot_def)
  obtain fr fs where fr: "tvm_frame_next (frames loop_vm) (frame loop_vm) = Some (fr, fs)"
    by (auto simp: vm tvm_frame_next_def fr_upd_def tvm_frame_init_def)
  show ?thesis
    using assembled_call_enters [OF loop_file_ok(1,3,4) tr ok, of 4 None "[]" "bytes_of ''p''" 7
        "[opn OP_NOP, lbl ''a'', ref OP_JZ ''a'', opn OP_RET]" ?vm fr fs demo_env] vm fr
    by (auto simp: loop_file_def lbl_def ref_def opn_def capacities numeral_eq_Suc)
qed

text \<open>C35. The back end returns, by success or by the exit for a duplicate, on every file whose names,
  values and operands are complete and which fits into the tables.\<close>

theorem assembler_returns:
  assumes "list_all wf_line ls" and "flat_ok (flat_lines ls)"
    and "op_count (flat_lines ls) \<le> MAX_PROGRAM_CAPACITY"
    and "length (label_entries 0 (flat_lines ls)) \<le> SYMBOL_LABEL_DECL_CAPACITY"
    and "length (proc_entries 0 ls) \<le> SYMBOL_PROC_DECL_CAPACITY"
    and "(\<Sum>x\<leftarrow>flat_lines ls. refs_of (snd x)) \<le> SYMBOL_LABEL_CALL_CAPACITY"
    and "(\<Sum>x\<leftarrow>flat_lines ls. cfuns_of (snd x)) \<le> TVM_METADATA_MAX_CFUN_CAPACITY"
  shows "\<exists>r. assemble_ast (AST_FILE ls) = Some r"
  using assemble_file_defined [OF assms] by blast

theorem assembler_returns_witness: "\<exists>r. assemble_ast (AST_FILE loop_file) = Some r"
  using assembler_returns [OF loop_file_ok(1,2)]
  by (simp add: loop_file_def sample_defs symbol_capacities capacities label_entries_def proc_entries_def
      label_entry_def proc_entry_def)

text \<open>C36. The constants of a file are laid out one directly behind the other, a string without a
  terminator: the reference of the i-th constant is where its bytes begin.\<close>

theorem constants_layout:
  assumes "list_all wf_line ls" and "list_all (\<lambda>x. constant_line (snd x)) (flat_lines ls)"
    and "assemble_ast (AST_FILE ls) = Some (Inr tr)"
    and "bss = concat (map (\<lambda>x. data_items (snd x)) (flat_lines ls))"
  shows "data (const_table (tr_program tr)) = concat bss \<and>
    data_size (const_table (tr_program tr)) = length (concat bss) \<and>
    referance_count (const_table (tr_program tr)) = length bss \<and>
    (\<forall>i < length bss. referances (const_table (tr_program tr)) ! i = length (concat (take i bss)) \<and>
       take (length (bss ! i)) (drop (referances (const_table (tr_program tr)) ! i)
         (data (const_table (tr_program tr)))) = bss ! i)"
proof -
  have "const_table (tr_program tr) = consts_of bss"
    using assembled_consts [OF assms(1-3)] by (simp add: assms(4))
  then show ?thesis using consts_of_slice [of _ bss] by (simp add: consts_of_def offsets_nth)
qed

theorem constants_layout_witness:
  "\<exists>tr. assemble_ast (AST_FILE loop_file) = Some (Inr tr) \<and>
     data (const_table (tr_program tr)) = [104, 105, 7, 0, 0, 0]"
proof -
  obtain r where r: "assemble_ast (AST_FILE loop_file) = Some r" using loop_file_defined by blast
  with assemble_file_cases [OF loop_file_ok(1) r] loop_file_ok(5)
  obtain tr where tr: "assemble_ast (AST_FILE loop_file) = Some (Inr tr)" by auto
  have c: "list_all (\<lambda>x. constant_line (snd x)) (flat_lines loop_file)"
    and items: "concat (map (\<lambda>x. data_items (snd x)) (flat_lines loop_file)) = [[104, 105], le_bytes 4 7]"
    by (simp_all add: loop_file_def sample_defs data_bytes_def)
  have "data (const_table (tr_program tr)) = concat [[104, 105], le_bytes 4 7]"
    using constants_layout [OF loop_file_ok(1) c tr items [symmetric]] by blast
  moreover have "le_bytes (Suc (Suc (Suc (Suc 0)))) 7 = [7, 0, 0, 0]" by simp
  then have "le_bytes 4 7 = [7, 0, 0, 0]" by (simp only: numeral_eq_Suc pred_numeral_simps BitM.simps)
  ultimately show ?thesis using tr by simp
qed

text \<open>A file in which a procedure and a label have the same name.\<close>

definition clash_file :: "bytes \<Rightarrow> tasm_ast list" where
  "clash_file f = [AST_PROC (Some f) [opn OP_RET], AST_OP OP_CALL [] (Some (AST_LABEL_CALL f)),
     AST_LABEL_DECL f, AST_OP OP_JMP [] (Some (AST_LABEL_CALL f)), opn OP_HALT]"

lemma clash_resolved:
  "assemble_ast (AST_FILE (clash_file f)) =
     map_option Inr (run_flat (resolved (clash_file f)) (flat_lines (clash_file f)))"
proof -
  have wf: "list_all wf_line (clash_file f)" by (simp add: clash_file_def opn_def)
  have "\<not> dup_names (clash_file f)"
    by (simp add: clash_file_def opn_def dup_names_def label_entries_def proc_entries_def label_entry_def
        proc_entry_def)
  moreover have "assemble_ast (AST_FILE (clash_file f)) \<noteq> None"
    by (rule assemble_file_defined [OF wf])
      (simp_all add: clash_file_def opn_def flat_ok_def operand_fits_def jump_ops_def number_ops_def
        label_fits_def symbol_capacities capacities label_entries_def proc_entries_def label_entry_def
        proc_entry_def)
  ultimately show ?thesis using assemble_file_cases [OF wf] by force
qed

lemma clash_run:
  "\<exists>tr. run_flat (resolved (clash_file f)) (flat_lines (clash_file f)) = Some tr \<and>
     \<not> tasm_translator_is_err tr \<and> get_addr_from_label_decl_symbol tr f = Some 2 \<and>
     code (tr_program tr) 2 = operand_opcode OP_JMP STACK_OBJ_TYPE_VM_ADDRESS 0"
proof -
  have tables: "label_entries 0 (flat_lines (clash_file f)) = [(f, 2)]" "proc_entries 0 (clash_file f) = [(f, 0)]"
    by (simp_all add: clash_file_def opn_def label_entries_def proc_entries_def label_entry_def proc_entry_def)
  define t where "t = resolved (clash_file f)"
  have t: "label_decls (tr_symbols t) = [(f, 2)]" "proc_decls (tr_symbols t) = [(f, 0)]"
    "label_calls (tr_symbols t) = []" "\<not> sym_err (tr_symbols t)" "tr_program t = zero_program"
    by (simp_all add: t_def tables)
  let ?s1 = "t\<lparr>tr_program := zero_program\<lparr>code := (\<lambda>_. zero_opcode)(0 := plain_opcode OP_RET), prog_size := 1\<rparr>\<rparr>"
  have s1: "tasm_translate_line t (opn OP_RET) (Some f) False = Some ?s1"
    by (simp add: opn_def tasm_translate_line_def translate_op_def jump_ops_def number_ops_def program_push_def
        t symbol_capacities Let_def zero_program_def)
  let ?s2 = "?s1\<lparr>tr_symbols := (tr_symbols t)\<lparr>label_calls := [(f, 0)]\<rparr>, tr_program := (tr_program ?s1)
    \<lparr>code := (code (tr_program ?s1))(1 := operand_opcode OP_CALL STACK_OBJ_TYPE_VM_ADDRESS 0), prog_size := 2\<rparr>\<rparr>"
  have s2: "tasm_translate_line ?s1 (AST_OP OP_CALL [] (Some (AST_LABEL_CALL f))) None False = Some ?s2"
    by (simp add: tasm_translate_line_def translate_op_def jump_ops_def translate_call_def
        translate_label_call_def get_addr_from_proc_decl_symbol_def t sym_add_def program_push_def
        symbol_capacities Let_def)
  let ?s3 = "?s2\<lparr>tr_symbols := (tr_symbols t)\<lparr>label_calls := [(f, 0), (f, 2)]\<rparr>, tr_program := (tr_program ?s2)
    \<lparr>code := (code (tr_program ?s2))(2 := operand_opcode OP_JMP STACK_OBJ_TYPE_VM_ADDRESS 0), prog_size := 3\<rparr>\<rparr>"
  have s3: "tasm_translate_line ?s2 (AST_OP OP_JMP [] (Some (AST_LABEL_CALL f))) None False = Some ?s3"
    by (simp add: tasm_translate_line_def translate_op_def jump_ops_def translate_jump_def
        translate_label_call_def get_addr_from_label_decl_symbol_def get_addr_from_label_call_symbol_def t
        sym_add_def program_push_def symbol_capacities Let_def)
  let ?s4 = "?s3\<lparr>tr_program := (tr_program ?s3)
    \<lparr>code := (code (tr_program ?s3))(3 := plain_opcode OP_HALT), prog_size := 4\<rparr>\<rparr>"
  have s4: "tasm_translate_line ?s3 (opn OP_HALT) None False = Some ?s4"
    by (simp add: opn_def tasm_translate_line_def translate_op_def jump_ops_def number_ops_def program_push_def
        symbol_capacities Let_def)
  have "run_flat t (flat_lines (clash_file f)) = Some ?s4"
    using s1 s2 s3 s4 by (simp add: clash_file_def opn_def tasm_translate_line_def [of _ "AST_LABEL_DECL f"])
  moreover have "\<not> tasm_translator_is_err ?s4" "get_addr_from_label_decl_symbol ?s4 f = Some 2"
    "code (tr_program ?s4) 2 = operand_opcode OP_JMP STACK_OBJ_TYPE_VM_ADDRESS 0"
    by (simp_all add: tasm_translator_is_err_def get_addr_from_label_decl_symbol_def t)
  ultimately show ?thesis unfolding t_def by blast
qed


end
