(* ===== verification/Codec.thy ===== *)
theory Codec
  imports Prelude
begin

text \<open>
  The interface of a binary encoding: a decoder that reads an encoded item off the front of a byte
  stream. A provider gives encoder, decoder and the items that can be encoded; the client's fact is
  that a sequence of encoded items is read back item by item.
\<close>

primrec dec_n :: "(bytes \<Rightarrow> ('a \<times> bytes) option) \<Rightarrow> nat \<Rightarrow> bytes \<Rightarrow> ('a list \<times> bytes) option" where
  "dec_n d 0 bs = Some ([], bs)"
| "dec_n d (Suc n) bs = do {
     (x, r) \<leftarrow> d bs;
     (xs, r') \<leftarrow> dec_n d n r;
     Some (x # xs, r') }"

locale decoder =
  fixes dec :: "bytes \<Rightarrow> ('a \<times> bytes) option"
    and rep :: "'a \<Rightarrow> bytes \<Rightarrow> bool"
  assumes dec_rep: "rep x b \<Longrightarrow> dec (b @ rest) = Some (x, rest)"
begin

lemma dec_n_rep:
  "list_all2 rep xs bs \<Longrightarrow> dec_n dec (length xs) (concat bs @ rest) = Some (xs, rest)"
  by (induction rule: list_all2_induct) (simp_all add: dec_rep)

text \<open>No bytes represent two items.\<close>

lemma rep_unique: "rep x b \<Longrightarrow> rep y b \<Longrightarrow> x = y"
  using dec_rep [of x b "[]"] dec_rep [of y b "[]"] by simp

end

text \<open>An encoder gives each item one representation.\<close>

locale codec =
  fixes enc :: "'a \<Rightarrow> bytes"
    and dec :: "bytes \<Rightarrow> ('a \<times> bytes) option"
    and ok :: "'a \<Rightarrow> bool"
  assumes dec_enc: "ok x \<Longrightarrow> dec (enc x @ rest) = Some (x, rest)"

sublocale codec \<subseteq> decoder dec "\<lambda>x b. ok x \<and> b = enc x"
  by unfold_locales (auto simp: dec_enc)

context codec
begin

lemma dec_n_enc:
  "list_all ok xs \<Longrightarrow> dec_n dec (length xs) (concat (map enc xs) @ rest) = Some (xs, rest)"
  by (rule dec_n_rep) (simp add: list_all2_map2 list.rel_refl_strong list_all_iff)

end

subsection \<open>Reading from a stream\<close>

text \<open>\<open>fread\<close> of a number of bytes. A short read leaves the destination uninitialised: what the
  program does then is undefined.\<close>

definition fread :: "nat \<Rightarrow> bytes \<Rightarrow> (bytes \<times> bytes) option" where
  "fread n bs = (if n \<le> length bs then Some (take n bs, drop n bs) else None)"

definition fread_uint :: "nat \<Rightarrow> bytes \<Rightarrow> (nat \<times> bytes) option" where
  "fread_uint n bs = do { (b, r) \<leftarrow> fread n bs; Some (le_val b, r) }"

lemma fread_append [codec_simps]: "length b = n \<Longrightarrow> fread n (b @ rest) = Some (b, rest)"
  by (auto simp: fread_def)

lemma fread_Suc [codec_simps]: "fread (Suc 0) (b # rest) = Some ([b], rest)"
  by (simp add: fread_def)

lemma fread_0 [codec_simps]: "fread 0 bs = Some ([], bs)"
  by (simp add: fread_def)

lemma fread_uint_enc [codec_simps]:
  "v < 256 ^ n \<Longrightarrow> fread_uint n (le_bytes n v @ rest) = Some (v, rest)"
  by (simp add: fread_uint_def fread_append le_val_le_bytes_id)

interpretation u32_codec: codec "le_bytes 4" "fread_uint 4" "\<lambda>v. v < 256 ^ 4"
  by unfold_locales (rule fread_uint_enc)

interpretation u64_codec: codec "le_bytes 8" "fread_uint 8" "\<lambda>v. v < 256 ^ 8"
  by unfold_locales (rule fread_uint_enc)

end
