(* ===== verification/Tasm_Binary.thy ===== *)
theory Tasm_Binary
  imports Tasm_Translator
begin

text \<open>
  The file the assembler writes, \<open>tasm_translator_generate_bin\<close> of
  \<open>include/tasm/tasm_translator.h\<close>: the metadata of the native functions, the constant table and the
  instructions, as a list of bytes. An instruction is written as it lies in memory, 24 bytes with the
  members at 0, 8 and 16; what the bytes between them hold is not specified by C and is a parameter
  (\<open>pad\<close>, a byte for every position of the structure of an instruction).
\<close>

definition opcode_size :: nat where "opcode_size = 24"

definition opcode_bytes :: "(nat \<Rightarrow> u8) \<Rightarrow> opcode_t \<Rightarrow> bytes" where
  "opcode_bytes pad c =
     [op_type c] @ map pad [1..<8] @ [obj_type (operand c)] @ map pad [9..<16] @
     le_bytes 8 (unat (ui64 (operand c)))"

text \<open>The name's length is cut to a byte, and as much of the name is written.\<close>

definition name_bytes :: "bytes \<Rightarrow> bytes" where
  "name_bytes s = word_of_nat (length s) # take (length s mod 256) s"

definition cfun_bytes :: "tvm_program_cfun_t \<Rightarrow> bytes option" where
  "cfun_bytes c =
     (if unat (acount c) \<le> length (atypes c)
      then Some (name_bytes (symbol_name c) @ le_bytes 2 (unat (acount c)) @ [rtype c] @
             take (unat (acount c)) (atypes c))
      else None)"

fun cfuns_bytes :: "(nat \<Rightarrow> tvm_program_cfun_t) \<Rightarrow> nat list \<Rightarrow> bytes option" where
  "cfuns_bytes fs [] = Some []"
| "cfuns_bytes fs (i # is) = do {
     guard_c (i < TVM_METADATA_MAX_CFUN_CAPACITY);
     b \<leftarrow> cfun_bytes (fs i);
     bs \<leftarrow> cfuns_bytes fs is;
     Some (b @ bs) }"

text \<open>The modules get the names given on the command line.\<close>

fun modules_bytes ::
  "tvm_program_metadata_t \<Rightarrow> bytes list \<Rightarrow> nat \<Rightarrow> (bytes \<times> tvm_program_metadata_t) option" where
  "modules_bytes md [] k = Some ([], md)"
| "modules_bytes md (name # names) k = do {
     guard_c (k < TVM_METADATA_MAX_MODULE_CAPACITY);
     let m = (modules md k)\<lparr>mod_name := name\<rparr>;
     fs \<leftarrow> cfuns_bytes (cfuns m) [0..<cfun_count m];
     (bs, md') \<leftarrow> modules_bytes (md\<lparr>modules := (modules md)(k := m)\<rparr>) names (k + 1);
     Some (name_bytes name @ le_bytes 4 (cfun_count m) @ fs @ bs, md') }"

definition const_bytes :: "tvm_const_table \<Rightarrow> bytes option" where
  "const_bytes ct =
     (let h = le_bytes 8 (referance_count ct) @ le_bytes 8 (data_size ct) in
      if referance_count ct = 0 then Some h
      else if referance_count ct \<le> length (referances ct) \<and> data_size ct \<le> length (data ct)
      then Some (h @ concat (map (le_bytes 8) (take (referance_count ct) (referances ct))) @
             take (data_size ct) (data ct))
      else None)"

definition code_bytes :: "(nat \<Rightarrow> nat \<Rightarrow> u8) \<Rightarrow> tvm_program_t \<Rightarrow> bytes option" where
  "code_bytes pad p =
     (if prog_size p \<le> TVM_PROGRAM_CAPACITY
      then Some (concat (map (\<lambda>i. opcode_bytes (pad i) (code p i)) [0..<prog_size p]))
      else None)"

definition tasm_translator_generate_bin ::
  "(nat \<Rightarrow> nat \<Rightarrow> u8) \<Rightarrow> tasm_translator_t \<Rightarrow> bytes list \<Rightarrow> (bytes \<times> tasm_translator_t) option" where
  "tasm_translator_generate_bin pad tr clib_names = do {
     let md = (metadata (tr_program tr))\<lparr>module_count := length clib_names\<rparr>;
     (ms, md') \<leftarrow> modules_bytes md clib_names 0;
     let p = (tr_program tr)\<lparr>metadata := md'\<rparr>;
     cs \<leftarrow> const_bytes (const_table p);
     is \<leftarrow> code_bytes pad p;
     Some (le_bytes 4 (length clib_names) @ ms @ cs @ is, tr\<lparr>tr_program := p\<rparr>) }"

end
