(* ===== verification/Tvm_Loader.thy ===== *)
theory Tvm_Loader
  imports Codec Arena Tvm_Exec
begin

text \<open>
  Loading of a program file into the machine, \<open>tvm_load_program_from_file\<close> of
  \<open>include/tvm/tvm.h\<close>. The file is the list of its bytes. The numbers in it are trusted: a module,
  function or instruction count beyond the array it indexes, and a constant table larger than the
  1024 bytes of the program's arena, make the code write outside an object (\<open>None\<close>), and so does
  every read behind the end of the file, whose result is used without a check.

  Names and tables are allocated in the program's arena; only the address of the constant data is
  observable by a program, and only this allocation is made in the modelled memory.
\<close>

definition program_arena_capacity :: nat where "program_arena_capacity = 1024"

text \<open>A name is stored with a terminator; what it means is its bytes up to the first zero.\<close>

definition fread_name :: "bytes \<Rightarrow> (bytes \<times> bytes) option" where
  "fread_name bs = do {
     (n, r) \<leftarrow> fread_uint 1 bs;
     (s, r) \<leftarrow> fread n r;
     Some (takeWhile (\<lambda>b. b \<noteq> 0) s, r) }"

definition fread_cfun :: "bytes \<Rightarrow> (tvm_program_cfun_t \<times> bytes) option" where
  "fread_cfun bs = do {
     (name, r) \<leftarrow> fread_name bs;
     (acnt, r) \<leftarrow> fread_uint 2 r;
     (rt, r) \<leftarrow> fread_uint 1 r;
     guard_c (acnt \<le> program_arena_capacity);
     (ats, r) \<leftarrow> fread acnt r;
     Some (\<lparr>rtype = word_of_nat rt, atypes = ats, acount = word_of_nat acnt, symbol_name = name\<rparr>, r) }"

definition fread_module :: "bytes \<Rightarrow> ((bytes \<times> tvm_program_cfun_t list) \<times> bytes) option" where
  "fread_module bs = do {
     (name, r) \<leftarrow> fread_name bs;
     (n, r) \<leftarrow> fread_uint 4 r;
     guard_c (n \<le> TVM_METADATA_MAX_CFUN_CAPACITY);
     (fs, r) \<leftarrow> dec_n fread_cfun n r;
     Some ((name, fs), r) }"

definition set_module ::
  "bytes \<times> tvm_program_cfun_t list \<Rightarrow> tvm_program_metadata_module_t \<Rightarrow> tvm_program_metadata_module_t" where
  "set_module nf m = m\<lparr>mod_name := fst nf, cfun_count := length (snd nf),
     cfuns := (\<lambda>i. if i < length (snd nf) then snd nf ! i else cfuns m i)\<rparr>"

definition set_modules ::
  "(bytes \<times> tvm_program_cfun_t list) list \<Rightarrow> tvm_program_metadata_t \<Rightarrow> tvm_program_metadata_t" where
  "set_modules ms md = md\<lparr>module_count := length ms,
     modules := (\<lambda>k. if k < length ms then set_module (ms ! k) (modules md k) else modules md k)\<rparr>"

definition fread_consts :: "tvm_const_table \<Rightarrow> bytes \<Rightarrow> (tvm_const_table \<times> bytes) option" where
  "fread_consts ct bs = do {
     (n, r) \<leftarrow> fread_uint 8 bs;
     (sz, r) \<leftarrow> fread_uint 8 r;
     if n = 0 then Some (ct\<lparr>referance_count := n, data_size := sz\<rparr>, r)
     else do {
       guard_c (8 * n \<le> program_arena_capacity);
       (refs, r) \<leftarrow> dec_n (fread_uint 8) n r;
       guard_c (sz \<le> program_arena_capacity);
       (d, r) \<leftarrow> fread sz r;
       Some (ct\<lparr>referances := refs, referance_count := n, data := d, data_size := sz\<rparr>, r) } }"

text \<open>An instruction as it lies in memory: members at 0, 8 and 16 of 24 bytes.\<close>

definition fread_opcode :: "bytes \<Rightarrow> (opcode_t \<times> bytes) option" where
  "fread_opcode bs = do {
     (b, r) \<leftarrow> fread 24 bs;
     Some (\<lparr>op_type = b ! 0, operand = \<lparr>obj_type = b ! 8, ui64 = word_of_nat (le_val (drop 16 b))\<rparr>\<rparr>, r) }"

definition load_program :: "bytes \<Rightarrow> tvm_program_t \<Rightarrow> tvm_program_t option" where
  "load_program bs p = do {
     (mc, r) \<leftarrow> fread_uint 4 bs;
     guard_c (mc \<le> TVM_METADATA_MAX_MODULE_CAPACITY);
     (ms, r) \<leftarrow> dec_n fread_module mc r;
     (ct, r) \<leftarrow> fread_consts (const_table p) r;
     guard_c (length r div 24 \<le> TVM_PROGRAM_CAPACITY);
     (ops, _) \<leftarrow> dec_n fread_opcode (length r div 24) r;
     Some (p\<lparr>metadata := set_modules ms (metadata p), const_table := ct, prog_size := length r div 24,
             code := (\<lambda>i. if i < length ops then ops ! i else code p i)\<rparr>) }"

definition tvm_load_program_from_file ::
  "vm_env \<Rightarrow> bytes \<Rightarrow> arena_t \<Rightarrow> machine \<Rightarrow> (machine \<times> arena_t) option" where
  "tvm_load_program_from_file env bs ar vm = do {
     p \<leftarrow> load_program bs (program vm);
     if referance_count (const_table p) = 0 then Some (vm\<lparr>program := p\<rparr>, ar)
     else do {
       (a, ar', m) \<leftarrow> arena_alloc (policy_of env) (junk_of env) (mem vm) ar (data_size (const_table p));
       m' \<leftarrow> mem_write m a (data (const_table p));
       Some (vm\<lparr>program := p, data_ptr := a, mem := m'\<rparr>, ar') } }"

end
