(* ===== verification/Program_File.thy ===== *)
theory Program_File
  imports Tvm_Loader Tasm_Binary
begin

text \<open>
  Writer and loader of program files fit together: every part of the file is a codec, and what the
  assembler writes within the loader's bounds is what the machine gets.
\<close>

definition name_ok :: "bytes \<Rightarrow> bool" where
  "name_ok s \<longleftrightarrow> length s < 256 \<and> 0 \<notin> set s"

lemma fread_name_bytes [codec_simps]: "name_ok s \<Longrightarrow> fread_name (name_bytes s @ rest) = Some (s, rest)"
proof -
  assume ok: "name_ok s"
  then have l: "unat (word_of_nat (length s) :: u8) = length s"
    by (intro unat_of_nat_id) (simp add: name_ok_def)
  have "takeWhile (\<lambda>b. b \<noteq> 0) s = s" using ok by (auto simp: name_ok_def takeWhile_eq_all_conv)
  with ok l show ?thesis
    by (simp add: fread_name_def name_bytes_def fread_uint_def fread_Suc fread_append name_ok_def)
qed

interpretation name_codec: codec name_bytes fread_name name_ok
  by unfold_locales (rule fread_name_bytes)

definition cfun_ok :: "tvm_program_cfun_t \<Rightarrow> bool" where
  "cfun_ok c \<longleftrightarrow> name_ok (symbol_name c) \<and> length (atypes c) = unat (acount c) \<and>
     length (atypes c) \<le> program_arena_capacity"

definition cfun_enc :: "tvm_program_cfun_t \<Rightarrow> bytes" where
  "cfun_enc c = name_bytes (symbol_name c) @ le_bytes 2 (unat (acount c)) @ [rtype c] @ atypes c"

lemma cfun_bytes_enc: "cfun_ok c \<Longrightarrow> cfun_bytes c = Some (cfun_enc c)"
  by (simp add: cfun_ok_def cfun_bytes_def cfun_enc_def)

interpretation cfun_codec: codec cfun_enc fread_cfun cfun_ok
proof unfold_locales
  fix c rest
  assume ok: "cfun_ok c"
  have "unat (acount c) < 256 ^ 2" using unat_u16_less [of "acount c"] by simp
  with ok show "fread_cfun (cfun_enc c @ rest) = Some (c, rest)"
    by (simp add: cfun_ok_def fread_cfun_def cfun_enc_def fread_name_bytes fread_uint_enc
        fread_uint_def [of "Suc 0"] fread_Suc fread_append)
qed

definition module_ok :: "bytes \<times> tvm_program_cfun_t list \<Rightarrow> bool" where
  "module_ok nf \<longleftrightarrow> name_ok (fst nf) \<and> list_all cfun_ok (snd nf) \<and>
     length (snd nf) \<le> TVM_METADATA_MAX_CFUN_CAPACITY"

definition module_enc :: "bytes \<times> tvm_program_cfun_t list \<Rightarrow> bytes" where
  "module_enc nf = name_bytes (fst nf) @ le_bytes 4 (length (snd nf)) @ concat (map cfun_enc (snd nf))"

interpretation module_codec: codec module_enc fread_module module_ok
proof unfold_locales
  fix nf rest
  assume ok: "module_ok nf"
  then have "length (snd nf) < 256 ^ 4" by (simp add: module_ok_def capacities)
  with ok show "fread_module (module_enc nf @ rest) = Some (nf, rest)"
    by (simp add: module_ok_def fread_module_def module_enc_def fread_name_bytes fread_uint_enc
        cfun_codec.dec_n_enc)
qed

lemma opcode_bytes_length [simp]: "length (opcode_bytes pad c) = 24"
  by (simp add: opcode_bytes_def)

interpretation opcode_decoder: decoder fread_opcode "\<lambda>c b. \<exists>pad. b = opcode_bytes pad c"
proof unfold_locales
  fix c :: opcode_t and b rest
  assume "\<exists>pad. b = opcode_bytes pad c"
  then obtain pad where b: "b = opcode_bytes pad c" by blast
  have "unat (ui64 (operand c)) < 256 ^ 8" using unat_u64_less [of "ui64 (operand c)"] by simp
  moreover have "b ! 0 = op_type c" "b ! 8 = obj_type (operand c)"
    "drop 16 b = le_bytes 8 (unat (ui64 (operand c)))" "length b = 24"
    by (simp_all add: b opcode_bytes_def nth_append)
  ultimately show "fread_opcode (b @ rest) = Some (c, rest)"
    by (simp add: fread_opcode_def fread_append le_val_le_bytes_id)
qed

lemma read_code:
  "dec_n fread_opcode n (concat (map (\<lambda>i. opcode_bytes (pad i) (cs i)) [0..<n]) @ rest) =
     Some (map cs [0..<n], rest)"
proof -
  have "list_all2 (\<lambda>c b. \<exists>pad. b = opcode_bytes pad c) (map cs [0..<n])
      (map (\<lambda>i. opcode_bytes (pad i) (cs i)) [0..<n])"
    by (auto simp: list_all2_conv_all_nth)
  from opcode_decoder.dec_n_rep [OF this] show ?thesis by simp
qed

subsection \<open>The parts of the file\<close>

definition const_ok :: "tvm_const_table \<Rightarrow> bool" where
  "const_ok ct \<longleftrightarrow> length (referances ct) = referance_count ct \<and> length (data ct) = data_size ct \<and>
     8 * referance_count ct \<le> program_arena_capacity \<and> data_size ct \<le> program_arena_capacity \<and>
     list_all (\<lambda>v. v < 256 ^ 8) (referances ct)"

lemma read_consts:
  assumes "const_ok ct" and "const_bytes ct = Some bs"
  shows "\<exists>ct'. fread_consts ct0 (bs @ rest) = Some (ct', rest) \<and>
    referance_count ct' = referance_count ct \<and> data_size ct' = data_size ct \<and>
    (referance_count ct \<noteq> 0 \<longrightarrow> ct' = ct0\<lparr>referances := referances ct, referance_count := referance_count ct,
       data := data ct, data_size := data_size ct\<rparr>)"
proof -
  from assms(1) have b: "referance_count ct < 256 ^ 8" "data_size ct < 256 ^ 8"
    by (auto simp: const_ok_def program_arena_capacity_def)
  show ?thesis
  proof (cases "referance_count ct = 0")
    case True
    with assms(2) b show ?thesis
      by (auto simp: const_bytes_def Let_def fread_consts_def fread_uint_enc)
  next
    case False
    have "dec_n (fread_uint 8) (referance_count ct) (concat (map (le_bytes 8) (referances ct)) @ r) =
        Some (referances ct, r)" for r
      using u64_codec.dec_n_enc [of "referances ct" r] assms(1) by (simp add: const_ok_def)
    with False assms b show ?thesis
      by (auto simp: const_bytes_def Let_def const_ok_def fread_consts_def fread_uint_enc fread_append)
  qed
qed

lemma cfuns_bytes_enc:
  "list_all (\<lambda>i. i < TVM_METADATA_MAX_CFUN_CAPACITY \<and> cfun_ok (fs i)) is \<Longrightarrow>
     cfuns_bytes fs is = Some (concat (map (\<lambda>i. cfun_enc (fs i)) is))"
  by (induction "is") (simp_all add: cfun_bytes_enc)

text \<open>The modules of a program under their command-line names, as the loader sees them.\<close>

definition named_modules :: "tvm_program_metadata_t \<Rightarrow> bytes list \<Rightarrow> nat \<Rightarrow>
    (bytes \<times> tvm_program_cfun_t list) list" where
  "named_modules md names k =
     map (\<lambda>j. (names ! j, map (cfuns (modules md (k + j))) [0..<cfun_count (modules md (k + j))]))
       [0..<length names]"

lemma named_modules_Cons:
  "named_modules md (nm # names) k =
     (nm, map (cfuns (modules md k)) [0..<cfun_count (modules md k)]) # named_modules md names (Suc k)"
  by (simp add: named_modules_def map_upt_Suc del: upt_Suc)

lemma named_modules_upd:
  "named_modules (md\<lparr>modules := (modules md)(k := m)\<rparr>) names (Suc k) = named_modules md names (Suc k)"
  by (simp add: named_modules_def)

lemma modules_bytes_enc:
  assumes "list_all module_ok (named_modules md names k)"
    and "k + length names \<le> TVM_METADATA_MAX_MODULE_CAPACITY"
  shows "\<exists>md'. modules_bytes md names k = Some (concat (map module_enc (named_modules md names k)), md')"
  using assms
proof (induction names arbitrary: md k)
  case Nil
  then show ?case by (simp add: named_modules_def)
next
  case (Cons nm names)
  let ?m = "(modules md k)\<lparr>mod_name := nm\<rparr>"
  let ?md = "md\<lparr>modules := (modules md)(k := ?m)\<rparr>"
  from Cons.prems have ok: "module_ok (nm, map (cfuns (modules md k)) [0..<cfun_count (modules md k)])"
    and rest: "list_all module_ok (named_modules ?md names (Suc k))"
    by (simp_all add: named_modules_Cons named_modules_upd)
  from Cons.IH [OF rest] Cons.prems(2) obtain md' where
    ih: "modules_bytes ?md names (Suc k) = Some (concat (map module_enc (named_modules md names (Suc k))), md')"
    by (auto simp: named_modules_upd)
  have "cfuns_bytes (cfuns ?m) [0..<cfun_count ?m] =
      Some (concat (map (\<lambda>i. cfun_enc (cfuns ?m i)) [0..<cfun_count ?m]))"
    using ok by (intro cfuns_bytes_enc) (auto simp: module_ok_def list_all_iff)
  with ih Cons.prems(2) show ?case
    by (simp add: named_modules_Cons module_enc_def [of "(nm, fs)" for fs] comp_def)
qed

subsection \<open>The round trip\<close>

definition program_ok :: "tvm_program_t \<Rightarrow> bytes list \<Rightarrow> bool" where
  "program_ok p names \<longleftrightarrow> length names \<le> TVM_METADATA_MAX_MODULE_CAPACITY \<and>
     list_all module_ok (named_modules (metadata p) names 0) \<and> const_ok (const_table p) \<and>
     prog_size p \<le> TVM_PROGRAM_CAPACITY"

lemma length_code [simp]:
  "length (concat (map (\<lambda>i. opcode_bytes (pad i) (cs i)) [0..<n])) = 24 * n"
  by (induction n) simp_all

lemma program_file:
  assumes "program_ok (tr_program tr) names"
  shows "\<exists>bs tr' q. tasm_translator_generate_bin pad tr names = Some (bs, tr') \<and> load_program bs p0 = Some q \<and>
    prog_size q = prog_size (tr_program tr) \<and>
    (\<forall>i < prog_size q. code q i = code (tr_program tr) i) \<and>
    metadata q = set_modules (named_modules (metadata (tr_program tr)) names 0) (metadata p0) \<and>
    referance_count (const_table q) = referance_count (const_table (tr_program tr)) \<and>
    (referance_count (const_table q) \<noteq> 0 \<longrightarrow>
       referances (const_table q) = referances (const_table (tr_program tr)) \<and>
       data (const_table q) = data (const_table (tr_program tr)) \<and>
       data_size (const_table q) = data_size (const_table (tr_program tr)))"
proof -
  let ?p = "tr_program tr" and ?md = "(metadata (tr_program tr))\<lparr>module_count := length names\<rparr>"
  let ?ms = "named_modules (metadata ?p) names 0"
  from assms have ok: "length names \<le> TVM_METADATA_MAX_MODULE_CAPACITY" "list_all module_ok ?ms"
    "const_ok (const_table ?p)" "prog_size ?p \<le> TVM_PROGRAM_CAPACITY" by (simp_all add: program_ok_def)
  have nm: "named_modules ?md names 0 = ?ms" by (simp add: named_modules_def)
  obtain md' where md': "modules_bytes ?md names 0 = Some (concat (map module_enc ?ms), md')"
    using modules_bytes_enc [of ?md names 0] ok(1,2) by (auto simp: nm)
  have "\<exists>cb. const_bytes (const_table ?p) = Some cb"
    using ok(3) by (simp add: const_bytes_def const_ok_def Let_def)
  then obtain cb where cb: "const_bytes (const_table ?p) = Some cb" ..
  let ?code = "concat (map (\<lambda>i. opcode_bytes (pad i) (code ?p i)) [0..<prog_size ?p])"
  have w: "tasm_translator_generate_bin pad tr names =
      Some (le_bytes 4 (length names) @ concat (map module_enc ?ms) @ cb @ ?code,
        tr\<lparr>tr_program := ?p\<lparr>metadata := md'\<rparr>\<rparr>)"
    using md' cb ok(4) by (simp add: tasm_translator_generate_bin_def code_bytes_def)
  obtain ct where ct: "fread_consts (const_table p0) (cb @ ?code) = Some (ct, ?code)"
    "referance_count ct = referance_count (const_table ?p)"
    "referance_count (const_table ?p) \<noteq> 0 \<longrightarrow> ct = (const_table p0)\<lparr>referances := referances (const_table ?p),
       referance_count := referance_count (const_table ?p), data := data (const_table ?p),
       data_size := data_size (const_table ?p)\<rparr>"
    using read_consts [OF ok(3) cb, of "const_table p0" ?code] by blast
  have lm: "length ?ms = length names" by (simp add: named_modules_def)
  have "length names < 256 ^ 4" using ok(1) by (simp add: capacities)
  then have "load_program (le_bytes 4 (length names) @ concat (map module_enc ?ms) @ cb @ ?code) p0 =
      Some (p0\<lparr>metadata := set_modules ?ms (metadata p0), const_table := ct, prog_size := prog_size ?p,
        code := (\<lambda>i. if i < prog_size ?p then code ?p i else code p0 i)\<rparr>)"
    using ok ct(1) module_codec.dec_n_enc [OF ok(2), of "cb @ ?code"] read_code [of "prog_size ?p" pad "code ?p" "[]"]
    by (simp add: load_program_def fread_uint_enc lm cong: if_cong)
  with w ct(2,3) show ?thesis by auto
qed

end
