(* ===== verification/Tasm_Natives.thy ===== *)
theory Tasm_Natives
  imports Program_File Tasm_Correct
begin

text \<open>
  The declarations of native functions: the lines \<open>@cfun\<close> of a file become, in their order, the
  functions of the program's first module, which takes the name of the first library on the command
  line; every other library is a module without functions.
\<close>

fun cfun_items :: "tasm_ast \<Rightarrow> tvm_program_cfun_t list" where
  "cfun_items (AST_CFUNCTION ret args n (Some name)) =
     [\<lparr>rtype = ret, atypes = args, acount = word_of_nat (length args), symbol_name = name\<rparr>]"
| "cfun_items _ = []"

definition declared_functions :: "tasm_ast list \<Rightarrow> tvm_program_cfun_t list" where
  "declared_functions ls = concat (map (\<lambda>x. cfun_items (snd x)) (flat_lines ls))"

definition native_modules :: "bytes list \<Rightarrow> tvm_program_cfun_t list \<Rightarrow> (bytes \<times> tvm_program_cfun_t list) list" where
  "native_modules libs fs = (case libs of [] \<Rightarrow> [] | l # ls \<Rightarrow> (l, fs) # map (\<lambda>m. (m, [])) ls)"

subsection \<open>Translation\<close>

definition holds_cfuns :: "tvm_program_cfun_t list \<Rightarrow> tvm_program_metadata_t \<Rightarrow> bool" where
  "holds_cfuns fs md \<longleftrightarrow> cfun_count (modules md 0) = length fs \<and> (\<forall>i < length fs. cfuns (modules md 0) i = fs ! i) \<and>
     (\<forall>k > 0. modules md k = zero_module)"

lemma push_metadata: "program_push tr c = Some tr' \<Longrightarrow> metadata (tr_program tr') = metadata (tr_program tr)"
  by (auto simp: program_push_def Let_def split: if_splits)

lemma op_metadata:
  assumes "translate_op tr op oprnd p = Some tr'"
  shows "metadata (tr_program tr') = metadata (tr_program tr)"
proof -
  note defs = translate_op_def translate_push_def translate_jump_def translate_call_def translate_number_def
  from assms show ?thesis
    by (cases "map_of number_ops op"; cases oprnd; (cases "the oprnd")?;
      auto simp: defs dest!: push_metadata label_call_program split: if_splits option.splits)
qed

lemma data_metadata: "tasm_translate_data tr v = Some tr' \<Longrightarrow> metadata (tr_program tr') = metadata (tr_program tr)"
  by (auto simp: tasm_translate_data_def Let_def split: option.splits)

lemma cfunction_cfuns:
  assumes "tasm_translate_cfunction tr ret args fname = Some tr'" and "holds_cfuns fs (metadata (tr_program tr))"
  shows "holds_cfuns (fs @ cfun_items (AST_CFUNCTION ret args n fname)) (metadata (tr_program tr'))"
  using assms by (auto simp: tasm_translate_cfunction_def holds_cfuns_def Let_def nth_append less_Suc_eq
      split: option.splits if_splits)

lemma line_cfuns:
  assumes "tasm_translate_line tr l p False = Some tr'" and "holds_cfuns fs (metadata (tr_program tr))"
  shows "holds_cfuns (fs @ cfun_items l) (metadata (tr_program tr'))"
  using assms
proof (cases l)
  case (AST_OP op iname oprnd)
  with assms op_metadata show ?thesis by (fastforce simp: tasm_translate_line_def)
next
  case (AST_LABEL_CALL n)
  with assms label_call_program show ?thesis by (fastforce simp: tasm_translate_line_def)
next
  case (AST_CFUNCTION ret args n fname)
  with assms cfunction_cfuns show ?thesis by (simp add: tasm_translate_line_def)
next
  case (AST_DATA v)
  with assms data_metadata show ?thesis by (fastforce simp: tasm_translate_line_def)
qed (simp_all add: tasm_translate_line_def)

lemma flat_cfuns:
  assumes "run_flat tr fl = Some tr'" and "holds_cfuns fs (metadata (tr_program tr))"
  shows "holds_cfuns (fs @ concat (map (\<lambda>x. cfun_items (snd x)) fl)) (metadata (tr_program tr'))"
  using assms
proof (induction fl arbitrary: tr fs)
  case (Cons x fl)
  then obtain tr1 where s: "tasm_translate_line tr (snd x) (fst x) False = Some tr1"
    and r: "run_flat tr1 fl = Some tr'" by auto
  from Cons.IH [OF r line_cfuns [OF s Cons.prems(2)]] show ?case by simp
qed simp

text \<open>The modules of an assembled file.\<close>

lemma assembled_cfuns:
  assumes "list_all wf_line ls" and "assemble_ast (AST_FILE ls) = Some (Inr tr)"
  shows "holds_cfuns (declared_functions ls) (metadata (tr_program tr))"
proof -
  from assemble_file_cases [OF assms] have r: "run_flat (resolved ls) (flat_lines ls) = Some tr" by auto
  have "holds_cfuns [] (metadata (tr_program (resolved ls)))" by (simp add: holds_cfuns_def zero_program_def zero_module_def)
  from flat_cfuns [OF r this] show ?thesis by (simp add: declared_functions_def)
qed

lemma named_native_modules:
  assumes "holds_cfuns fs md"
  shows "named_modules md libs 0 = native_modules libs fs"
proof (cases libs)
  case (Cons l ls)
  have first: "map (cfuns (modules md 0)) [0..<cfun_count (modules md 0)] = fs"
    using assms by (intro nth_equalityI) (simp_all add: holds_cfuns_def)
  have "named_modules md (l # ls) 0 ! k = native_modules (l # ls) fs ! k" if "k < length (l # ls)" for k
    using assms that first by (cases k) (auto simp: named_modules_def native_modules_def holds_cfuns_def zero_module_def simp del: upt_Suc)
  then show ?thesis unfolding Cons by (intro nth_equalityI) (auto simp: named_modules_def native_modules_def)
qed (simp add: named_modules_def native_modules_def)

end
