(* ===== verification/File_Properties.thy ===== *)
theory File_Properties
  imports Tasm_Natives Tasm_Properties
begin

text \<open>
  The properties of program files, and of the whole way from the lines of an assembly file to the
  machine that runs it.
\<close>

definition halt_tr :: tasm_translator_t where
  "halt_tr = tasm_translator_init\<lparr>tr_program := zero_program\<lparr>prog_size := 2,
     code := (\<lambda>_. zero_opcode)(0 := operand_opcode OP_PUSH STACK_OBJ_TYPE_NUMBER 7, 1 := plain_opcode OP_HALT),
     const_table := consts_of [[104, 105], [33]]\<rparr>\<rparr>"

text \<open>C10. What the assembler writes, the loader reads: within the loader's bounds a program file
  gives the machine the instructions, the functions of the modules under their command-line names,
  and the constant table.\<close>

theorem program_file_roundtrip:
  assumes "program_ok (tr_program tr) names"
  shows "\<exists>bs tr' q. tasm_translator_generate_bin pad tr names = Some (bs, tr') \<and> load_program bs p0 = Some q \<and>
    prog_size q = prog_size (tr_program tr) \<and>
    (\<forall>i < prog_size q. code q i = code (tr_program tr) i) \<and>
    metadata q = set_modules (named_modules (metadata (tr_program tr)) names 0) (metadata p0) \<and>
    referance_count (const_table q) = referance_count (const_table (tr_program tr)) \<and>
    (referance_count (const_table q) \<noteq> 0 \<longrightarrow>
       referances (const_table q) = referances (const_table (tr_program tr)) \<and>
       data (const_table q) = data (const_table (tr_program tr)) \<and>
       data_size (const_table q) = data_size (const_table (tr_program tr)))"
  by (rule program_file [OF assms])

theorem program_file_roundtrip_witness:
  "\<exists>bs tr' q. tasm_translator_generate_bin (\<lambda>_ _. 0) halt_tr [[97]] = Some (bs, tr') \<and>
     load_program bs zero_program = Some q \<and> prog_size q = 2 \<and> data (const_table q) = [104, 105, 33]"
proof -
  have "program_ok (tr_program halt_tr) [[97]]"
    by (simp add: halt_tr_def program_ok_def named_modules_def module_ok_def name_ok_def const_ok_def
        consts_of_def zero_program_def zero_module_def capacities program_arena_capacity_def)
  from program_file_roundtrip [OF this, of "\<lambda>_ _. 0" zero_program] show ?thesis
    by (auto simp: halt_tr_def consts_of_def)
qed

lemma offsets_bound: "v \<in> set (offsets k bss) \<Longrightarrow> v \<le> k + length (concat bss)"
  by (induction bss arbitrary: k) fastforce+

lemma consts_of_ok:
  assumes "8 * length bss \<le> program_arena_capacity" and "length (concat bss) \<le> program_arena_capacity"
  shows "const_ok (consts_of bss)"
  using assms offsets_bound [of _ 0 bss]
  by (fastforce simp: const_ok_def consts_of_def list_all_iff program_arena_capacity_def)

text \<open>The file of an assembled program without libraries, as the loader reads it into a program.\<close>

lemma assembled_program_libs:
  assumes "list_all wf_line ls" and "list_all (\<lambda>x. operands_ok (snd x)) (flat_lines ls)"
    and "list_all (\<lambda>x. constant_line (snd x)) (flat_lines ls)"
    and "names_apart (label_entries 0 (flat_lines ls)) (proc_entries 0 ls)"
    and "assemble_ast (AST_FILE ls) = Some (Inr tr)" and "\<not> tasm_translator_is_err tr"
    and "bss = concat (map (\<lambda>x. data_items (snd x)) (flat_lines ls))"
    and "8 * length bss \<le> program_arena_capacity" and "length (concat bss) \<le> program_arena_capacity"
    and "tasm_translator_generate_bin pad tr libs = Some (file, tr')"
    and "length libs \<le> TVM_METADATA_MAX_MODULE_CAPACITY"
    and "list_all module_ok (native_modules libs (declared_functions ls))"
  shows "\<exists>cs q. assemble (label_entries 0 (flat_lines ls)) (proc_entries 0 ls) (flat_lines ls) = Some cs \<and>
    length cs \<le> TVM_PROGRAM_CAPACITY \<and> load_program file p0 = Some q \<and> prog_size q = length cs \<and>
    (\<forall>i < length cs. code q i = cs ! i) \<and> metadata q = set_modules (native_modules libs (declared_functions ls)) (metadata p0) \<and>
    referance_count (const_table q) = length bss \<and> (bss \<noteq> [] \<longrightarrow> const_table q = consts_of bss)"
proof -
  note a = assembled [OF assms(1,2,4,5)]
  obtain cs where cs: "assemble (label_entries 0 (flat_lines ls)) (proc_entries 0 ls) (flat_lines ls) = Some cs"
    and sz: "prog_size (tr_program tr) = length cs"
    and nth: "\<And>i. i < length cs \<Longrightarrow> code (tr_program tr) i = cs ! i"
    using assembled_program [OF a(1)] assms(6) by (auto simp: tasm_translator_is_err_def)
  have ct: "const_table (tr_program tr) = consts_of bss"
    using assembled_consts [OF assms(1,3,5)] assms(7) by simp
  have mods: "named_modules (metadata (tr_program tr)) libs 0 = native_modules libs (declared_functions ls)"
    by (rule named_native_modules [OF assembled_cfuns [OF assms(1,5)]])
  have "program_ok (tr_program tr) libs"
    using consts_of_ok [OF assms(8,9)] a(3) assms(11,12)
    by (simp add: program_ok_def ct mods symbol_capacities capacities)
  from program_file [OF this, of pad p0] assms(10) obtain q where
    q: "load_program file p0 = Some q" "prog_size q = length cs"
    "\<forall>i < prog_size q. code q i = code (tr_program tr) i" "referance_count (const_table q) = length bss"
    "metadata q = set_modules (native_modules libs (declared_functions ls)) (metadata p0)"
    "bss \<noteq> [] \<longrightarrow> const_table q = consts_of bss"
    by (auto simp: sz ct consts_of_def mods)
  have "length cs \<le> TVM_PROGRAM_CAPACITY" using a(3) by (simp add: sz symbol_capacities capacities)
  with cs q nth show ?thesis by auto
qed

lemma assembled_program_file:
  assumes "list_all wf_line ls" and "list_all (\<lambda>x. operands_ok (snd x)) (flat_lines ls)"
    and "list_all (\<lambda>x. constant_line (snd x)) (flat_lines ls)"
    and "names_apart (label_entries 0 (flat_lines ls)) (proc_entries 0 ls)"
    and "assemble_ast (AST_FILE ls) = Some (Inr tr)" and "\<not> tasm_translator_is_err tr"
    and "bss = concat (map (\<lambda>x. data_items (snd x)) (flat_lines ls))"
    and "8 * length bss \<le> program_arena_capacity" and "length (concat bss) \<le> program_arena_capacity"
    and "tasm_translator_generate_bin pad tr [] = Some (file, tr')"
  shows "\<exists>cs q. assemble (label_entries 0 (flat_lines ls)) (proc_entries 0 ls) (flat_lines ls) = Some cs \<and>
    length cs \<le> TVM_PROGRAM_CAPACITY \<and> load_program file p0 = Some q \<and> prog_size q = length cs \<and>
    (\<forall>i < length cs. code q i = cs ! i) \<and> metadata q = set_modules [] (metadata p0) \<and>
    referance_count (const_table q) = length bss \<and> (bss \<noteq> [] \<longrightarrow> const_table q = consts_of bss)"
  using assembled_program_libs [OF assms, of p0] by (simp add: native_modules_def)

lemma assembled_file_loads:
  assumes "list_all wf_line ls" and "list_all (\<lambda>x. operands_ok (snd x)) (flat_lines ls)"
    and "list_all (\<lambda>x. constant_line (snd x)) (flat_lines ls)"
    and "names_apart (label_entries 0 (flat_lines ls)) (proc_entries 0 ls)"
    and "assemble_ast (AST_FILE ls) = Some (Inr tr)" and "\<not> tasm_translator_is_err tr"
    and "bss = concat (map (\<lambda>x. data_items (snd x)) (flat_lines ls))"
    and "8 * length bss \<le> program_arena_capacity" and "length (concat bss) \<le> program_arena_capacity"
    and "tasm_translator_generate_bin pad tr [] = Some (file, tr')"
    and "tvm_load_program_from_file env file ar vm = Some (vm', ar')"
  shows "\<exists>cs. assemble (label_entries 0 (flat_lines ls)) (proc_entries 0 ls) (flat_lines ls) = Some cs \<and>
    length cs \<le> TVM_PROGRAM_CAPACITY \<and> load_program file (program vm) = Some (program vm') \<and>
    prog_size (program vm') = length cs \<and> (\<forall>i < length cs. code (program vm') i = cs ! i) \<and>
    metadata (program vm') = set_modules [] (metadata (program vm)) \<and>
    (bss \<noteq> [] \<longrightarrow> const_table (program vm') = consts_of bss \<and>
       mem_read (mem vm') (data_ptr vm') (length (concat bss)) = Some (concat bss))"
proof -
  from assembled_program_file [OF assms(1-10), of "program vm"] obtain cs q where
    q: "assemble (label_entries 0 (flat_lines ls)) (proc_entries 0 ls) (flat_lines ls) = Some cs"
    "length cs \<le> TVM_PROGRAM_CAPACITY" "load_program file (program vm) = Some q" "prog_size q = length cs"
    "\<forall>i < length cs. code q i = cs ! i" "metadata q = set_modules [] (metadata (program vm))"
    "referance_count (const_table q) = length bss" "bss \<noteq> [] \<longrightarrow> const_table q = consts_of bss" by blast
  have vm': "program vm' = q" using assms(11) q(3)
    by (auto simp: tvm_load_program_from_file_def split: if_splits)
  have "mem_read (mem vm') (data_ptr vm') (length (concat bss)) = Some (concat bss)" if "bss \<noteq> []"
  proof -
    from that q(8) have "data (const_table q) = concat bss" by (simp add: consts_of_def)
    with assms(11) q(3,7) that show ?thesis
      by (auto simp: tvm_load_program_from_file_def split: if_splits dest: mem_read_write_same)
  qed
  with q vm' show ?thesis by auto
qed

text \<open>From source to machine: the machine that loads the file of an assembled program has the
  reference program as its code, and the constants of the source, in order, at its data address.\<close>

theorem source_to_machine:
  assumes "list_all wf_line ls" and "list_all (\<lambda>x. operands_ok (snd x)) (flat_lines ls)"
    and "list_all (\<lambda>x. constant_line (snd x)) (flat_lines ls)"
    and "names_apart (label_entries 0 (flat_lines ls)) (proc_entries 0 ls)"
    and "assemble_ast (AST_FILE ls) = Some (Inr tr)" and "\<not> tasm_translator_is_err tr"
    and "bss = concat (map (\<lambda>x. data_items (snd x)) (flat_lines ls))"
    and "8 * length bss \<le> program_arena_capacity" and "length (concat bss) \<le> program_arena_capacity"
    and "tasm_translator_generate_bin pad tr [] = Some (file, tr')"
    and "tvm_load_program_from_file env file ar vm = Some (vm', ar')"
  shows "\<exists>cs. assemble (label_entries 0 (flat_lines ls)) (proc_entries 0 ls) (flat_lines ls) = Some cs \<and>
    prog_size (program vm') = length cs \<and> (\<forall>i < length cs. code (program vm') i = cs ! i) \<and>
    (bss \<noteq> [] \<longrightarrow> mem_read (mem vm') (data_ptr vm') (length (concat bss)) = Some (concat bss))"
  using assembled_file_loads [OF assms] by blast

lemma loop_file_items:
  "concat (map (\<lambda>x. data_items (snd x)) (flat_lines loop_file)) = [[104, 105], le_bytes 4 7]"
  "list_all (\<lambda>x. constant_line (snd x)) (flat_lines loop_file)"
  by (simp_all add: loop_file_def sample_defs data_bytes_def)

text \<open>Loading into a machine whose arena has one buffer of 8 bytes.\<close>

lemma load_into_demo_arena:
  assumes "load_program file zero_program = Some q" and "referance_count (const_table q) \<noteq> 0"
    and "length (data (const_table q)) = 6" and "data_size (const_table q) = 6"
  shows "\<exists>r. tvm_load_program_from_file demo_env file (fst demo_arena) (tvm_init (snd demo_arena)) = Some r"
proof -
  have al: "arena_alloc (policy_of demo_env) (junk_of demo_env) (snd demo_arena) (fst demo_arena) 6 =
      Some (16, [\<lparr>ar_size = 6, ar_capacity = 8, ar_memory = 16\<rparr>], snd demo_arena)"
    by (simp add: arena_alloc_def demo_arena_eq)
  have "mem_ok_range (snd demo_arena) 16 8"
    using arena_ok_mapped [OF demo_arena_ok] by (simp add: demo_arena_eq)
  then have "mem_ok_range (snd demo_arena) 16 6" by (rule mem_ok_range_mono) simp_all
  with assms al show ?thesis
    by (simp add: tvm_load_program_from_file_def mem_write_def)
qed

theorem source_to_machine_witness:
  "\<exists>tr fbs tr' vm' ar'. assemble_ast (AST_FILE loop_file) = Some (Inr tr) \<and>
     tasm_translator_generate_bin (\<lambda>_ _. 0) tr [] = Some (fbs, tr') \<and>
     tvm_load_program_from_file demo_env fbs (fst demo_arena) (tvm_init (snd demo_arena)) = Some (vm', ar') \<and>
     prog_size (program vm') = 7"
proof -
  obtain r where r: "assemble_ast (AST_FILE loop_file) = Some r" using loop_file_defined by blast
  with assemble_file_cases [OF loop_file_ok(1) r] loop_file_ok(5)
  obtain tr where tr: "assemble_ast (AST_FILE loop_file) = Some (Inr tr)" by auto
  have ok: "\<not> tasm_translator_is_err tr"
    using assembled(1) [OF loop_file_ok(1,3,4) tr]
    by (simp add: loop_file_code lines_ok_def emits_def tasm_translator_is_err_def)
  let ?bss = "[[104, 105], le_bytes 4 7]"
  have ct: "const_table (tr_program tr) = consts_of ?bss"
    using assembled_consts [OF loop_file_ok(1) loop_file_items(2) tr] loop_file_items(1) by simp
  have b: "8 * length ?bss \<le> program_arena_capacity" "length (concat ?bss) \<le> program_arena_capacity"
    by (simp_all add: program_arena_capacity_def)
  have "program_ok (tr_program tr) []"
    using consts_of_ok [OF b] assembled(3) [OF loop_file_ok(1,3,4) tr]
    by (simp add: program_ok_def ct named_modules_def symbol_capacities capacities)
  from program_file [OF this, of "\<lambda>_ _. 0" zero_program] obtain fbs tr' q where
    f: "tasm_translator_generate_bin (\<lambda>_ _. 0) tr [] = Some (fbs, tr')"
    "load_program fbs zero_program = Some q" "referance_count (const_table q) = 2"
    "data (const_table q) = concat ?bss" "data_size (const_table q) = 6"
    by (auto simp: ct consts_of_def)
  obtain vm' ar' where l: "tvm_load_program_from_file demo_env fbs (fst demo_arena) (tvm_init (snd demo_arena)) =
      Some (vm', ar')"
    using load_into_demo_arena [OF f(2)] f(3-5) by auto
  from source_to_machine [OF loop_file_ok(1,3) loop_file_items(2) loop_file_ok(4) tr ok
      loop_file_items(1) [symmetric] b f(1) l] tr f(1) l show ?thesis
    by (auto simp: loop_file_code)
qed

text \<open>The loader trusts the size of the file: a file with more than 1024 instructions is read
  over the end of the code array, which the model has no result for.\<close>

theorem oversized_file_overruns:
  assumes "TVM_PROGRAM_CAPACITY < n"
  shows "load_program (le_bytes 4 0 @ le_bytes 8 0 @ le_bytes 8 0 @ replicate (24 * n) 0) p = None"
proof -
  have "fread_uint 4 (le_bytes 4 0 @ r) = Some (0, r)" "fread_uint 8 (le_bytes 8 0 @ r) = Some (0, r)" for r
    by (simp_all add: fread_uint_enc)
  with assms show ?thesis by (simp add: load_program_def fread_consts_def)
qed

theorem oversized_file_overruns_witness:
  "load_program (le_bytes 4 0 @ le_bytes 8 0 @ le_bytes 8 0 @ replicate (24 * 1025) 0) zero_program = None"
  by (rule oversized_file_overruns) (simp add: capacities)

end
