(* ===== verification/Tdef.thy ===== *)
theory Tdef
  imports Prelude
begin

text \<open>
  Byte order, \<open>include/common/tdef.h\<close>: the run-time test for a little-endian machine and the byte
  swap of 32 bit integers. The built-in the source prefers computes what its shifts and masks do.
\<close>

definition is_little_endian :: u8 where
  "is_little_endian = (if hd (le_bytes 4 0x01234567) = 0x67 then 1 else 0)"

definition swap_endian_uint32 :: "u32 \<Rightarrow> u32" where
  "swap_endian_uint32 val =
     ((drop_bit 24 val AND 0x000000FF) OR (drop_bit 8 val AND 0x0000FF00)) OR
     ((push_bit 8 val AND 0x00FF0000) OR (push_bit 24 val AND 0xFF000000))"

definition swap_endian_int32 :: "u32 \<Rightarrow> u32" where
  "swap_endian_int32 val = swap_endian_uint32 val"

lemma little_endian [simp]: "is_little_endian = 1"
proof -
  have hd: "0 < k \<Longrightarrow> hd (le_bytes k n) = word_of_nat n" for k n by (cases k) simp_all
  show ?thesis by (simp add: is_little_endian_def hd)
qed

text \<open>The swap mirrors the four bytes of an integer, so it is its own inverse.\<close>

lemma byte_masks:
  "(0x000000FF :: u32) = mask 8" "(0x0000FF00 :: u32) = push_bit 8 (mask 8)"
  "(0x00FF0000 :: u32) = push_bit 16 (mask 8)" "(0xFF000000 :: u32) = push_bit 24 (mask 8)"
  by (simp_all add: mask_eq_exp_minus_1 push_bit_eq_mult)

lemma bit_swap_endian:
  assumes "n < 32"
  shows "bit (swap_endian_uint32 v) n \<longleftrightarrow> bit v (8 * (3 - n div 8) + n mod 8)"
proof -
  consider "n < 8" | "8 \<le> n" "n < 16" | "16 \<le> n" "n < 24" | "24 \<le> n" "n < 32" using assms by linarith
  then show ?thesis
  proof cases
    case 1
    then have "n div 8 = 0" "n mod 8 = n" by simp_all
    with 1 show ?thesis unfolding swap_endian_uint32_def byte_masks by (simp add: bit_simps)
  next
    case 2
    then have "n div 8 = 1" "n mod 8 = n - 8" by (simp_all add: div_eq_dividend_iff) presburger+
    with 2 show ?thesis unfolding swap_endian_uint32_def byte_masks by (auto simp: bit_simps)
  next
    case 3
    then have "n div 8 = 2" "n mod 8 = n - 16" by presburger+
    with 3 show ?thesis unfolding swap_endian_uint32_def byte_masks by (auto simp: bit_simps)
  next
    case 4
    then have "n div 8 = 3" "n mod 8 = n - 24" by presburger+
    with 4 show ?thesis unfolding swap_endian_uint32_def byte_masks by (auto simp: bit_simps)
  qed
qed

lemma swap_endian_swap [simp]: "swap_endian_uint32 (swap_endian_uint32 v) = v"
proof (rule bit_word_eqI)
  fix n :: nat
  assume "n < LENGTH(32)"
  then have n: "n < 32" by simp
  let ?m = "8 * (3 - n div 8) + n mod 8"
  have m: "?m < 32" "?m div 8 = 3 - n div 8" "?m mod 8 = n mod 8" using n by auto
  have "8 * (3 - (3 - n div 8)) + n mod 8 = n" using n by presburger
  with n m show "bit (swap_endian_uint32 (swap_endian_uint32 v)) n = bit v n"
    by (simp add: bit_swap_endian)
qed

end
