(* ===== verification/Cli.thy ===== *)
theory Cli
  imports Prelude
begin

text \<open>
  The command lines of the two programs, \<open>include/common/cli.h\<close>. The argument vector is the list of
  the strings that are left, the program's name first. Shifting an empty vector prints with a
  missing \<open>printf\<close> argument, and a 33rd library name is stored behind the array of 32: both are
  undefined. Usage messages, and the name of the current option that only the first of these two
  messages shows, are left out.
\<close>

definition MAX_LIB_COUNT :: nat where "MAX_LIB_COUNT = 32"

text \<open>The count of the library names is the length of their list.\<close>

record cli_parsed_args_t =
  file_name :: "bytes option"
  output_name :: "bytes option"
  clib_names :: "bytes list"
  ast_show :: bool
  compile :: bool

definition no_args :: cli_parsed_args_t where
  "no_args = \<lparr>file_name = None, output_name = None, clib_names = [], ast_show = False, compile = False\<rparr>"

fun cli_shift :: "bytes list \<Rightarrow> (bytes \<times> bytes list) option" where
  "cli_shift [] = None"
| "cli_shift (a # argv) = Some (a, argv)"

definition cli_tasm_usage :: "nat \<Rightarrow> bool" where
  "cli_tasm_usage argc \<longleftrightarrow> \<not> argc < 2"

definition cli_tvm_usage :: "nat \<Rightarrow> bool" where
  "cli_tvm_usage argc \<longleftrightarrow> \<not> argc < 2"

text \<open>One turn of the loop over the arguments: the argument \<open>arg\<close>, then what is left. The flag says
  whether an output name was given.\<close>

definition cli_tasm_option ::
  "bytes \<Rightarrow> bytes list \<Rightarrow> bool \<Rightarrow> cli_parsed_args_t \<Rightarrow> (bytes list \<times> bool \<times> cli_parsed_args_t) option" where
  "cli_tasm_option arg argv given args =
     (if arg = bytes_of ''-o'' then do {
        (v, argv1) \<leftarrow> cli_shift argv;
        Some (argv1, True, args\<lparr>output_name := Some v\<rparr>) }
      else if arg = bytes_of ''-c'' then Some (argv, given, args\<lparr>compile := True\<rparr>)
      else if arg = bytes_of ''-l'' then do {
        (v, argv1) \<leftarrow> cli_shift argv;
        guard_c (length (clib_names args) < MAX_LIB_COUNT);
        Some (argv1, given, args\<lparr>clib_names := clib_names args @ [v]\<rparr>) }
      else if arg = bytes_of ''-ast'' then Some (argv, given, args\<lparr>ast_show := True\<rparr>)
      else Some (argv, given, args\<lparr>file_name := Some arg\<rparr>))"

lemma cli_tasm_option_shorter:
  "cli_tasm_option arg argv given args = Some (argv1, r) \<Longrightarrow> length argv1 \<le> length argv"
  by (cases argv) (auto simp: cli_tasm_option_def split: if_splits)

function cli_tasm_loop :: "bytes list \<Rightarrow> bool \<Rightarrow> cli_parsed_args_t \<Rightarrow> (bool \<times> cli_parsed_args_t) option" where
  "cli_tasm_loop [] given args = Some (given, args)"
| "cli_tasm_loop (arg # argv) given args =
     (case cli_tasm_option arg argv given args of
        None \<Rightarrow> None
      | Some (argv1, given1, args1) \<Rightarrow> cli_tasm_loop argv1 given1 args1)"
  by pat_completeness auto
termination
  by (relation "measure (\<lambda>(argv, given, args). length argv)") (auto dest: cli_tasm_option_shorter)

definition cli_tasm_parse_command_line ::
  "cli_parsed_args_t \<Rightarrow> bytes list \<Rightarrow> (bool \<times> cli_parsed_args_t) option" where
  "cli_tasm_parse_command_line args argv =
     (if \<not> cli_tasm_usage (length argv) then Some (False, args) else do {
        (p, argv1) \<leftarrow> cli_shift argv;
        (given, args1) \<leftarrow> cli_tasm_loop argv1 False args;
        if file_name args1 = None then Some (False, args1)
        else Some (True, if given then args1 else args1\<lparr>output_name := Some (bytes_of ''out.bin'')\<rparr>) })"

fun cli_tvm_loop :: "bytes list \<Rightarrow> cli_parsed_args_t \<Rightarrow> cli_parsed_args_t" where
  "cli_tvm_loop [] args = args"
| "cli_tvm_loop (arg # argv) args = cli_tvm_loop argv (args\<lparr>file_name := Some arg\<rparr>)"

definition cli_tvm_parse_command_line ::
  "cli_parsed_args_t \<Rightarrow> bytes list \<Rightarrow> (bool \<times> cli_parsed_args_t) option" where
  "cli_tvm_parse_command_line args argv =
     (if \<not> cli_tvm_usage (length argv) then Some (False, args) else do {
        (p, argv1) \<leftarrow> cli_shift argv;
        let args1 = cli_tvm_loop argv1 args;
        Some (file_name args1 \<noteq> None, args1) })"

subsection \<open>What a command line is parsed to\<close>

lemma cli_tvm_loop_last: "argv \<noteq> [] \<Longrightarrow> cli_tvm_loop argv args = args\<lparr>file_name := Some (last argv)\<rparr>"
  by (induction argv args rule: cli_tvm_loop.induct) auto

text \<open>An accepted assembler command line has an input file, an output file and at most 32 libraries.\<close>

lemma cli_tasm_loop_libs:
  "cli_tasm_loop argv given args = Some (given1, args1) \<Longrightarrow> length (clib_names args) \<le> MAX_LIB_COUNT \<Longrightarrow>
     (given \<longrightarrow> output_name args \<noteq> None) \<Longrightarrow>
     length (clib_names args1) \<le> MAX_LIB_COUNT \<and> (given1 \<longrightarrow> output_name args1 \<noteq> None)"
proof (induction argv given args rule: cli_tasm_loop.induct)
  case (2 arg argv given args)
  then obtain argv2 given2 args2 where s: "cli_tasm_option arg argv given args = Some (argv2, given2, args2)"
    "cli_tasm_loop argv2 given2 args2 = Some (given1, args1)" by (auto split: option.splits)
  from s(1) "2.prems" have "length (clib_names args2) \<le> MAX_LIB_COUNT \<and> (given2 \<longrightarrow> output_name args2 \<noteq> None)"
    by (auto simp: cli_tasm_option_def split: if_splits)
  with "2.IH" [OF s(1)] s show ?case by simp
qed simp

lemma cli_tasm_accepts:
  assumes "cli_tasm_parse_command_line no_args argv = Some (True, args)"
  shows "file_name args \<noteq> None" and "output_name args \<noteq> None" and "length (clib_names args) \<le> MAX_LIB_COUNT"
proof -
  from assms obtain argv1 given args1 where l: "cli_tasm_loop argv1 False no_args = Some (given, args1)"
    "file_name args1 \<noteq> None" "args = (if given then args1 else args1\<lparr>output_name := Some (bytes_of ''out.bin'')\<rparr>)"
    by (auto simp: cli_tasm_parse_command_line_def split: if_splits)
  with cli_tasm_loop_libs [OF l(1)]
  show "file_name args \<noteq> None" "output_name args \<noteq> None" "length (clib_names args) \<le> MAX_LIB_COUNT"
    by (auto simp: no_args_def)
qed

subsection \<open>A command line for every choice of options\<close>

text \<open>The words that ask for given arguments. A word that is an option cannot be the input file.\<close>

definition cli_options :: "bytes list" where
  "cli_options = map bytes_of [''-o'', ''-c'', ''-l'', ''-ast'']"

definition cli_tasm_words :: "bytes \<Rightarrow> cli_parsed_args_t \<Rightarrow> bytes \<Rightarrow> bytes \<Rightarrow> bytes list" where
  "cli_tasm_words prog args input output = prog # (if compile args then [bytes_of ''-c''] else []) @
     (if ast_show args then [bytes_of ''-ast''] else []) @
     concat (map (\<lambda>l. [bytes_of ''-l'', l]) (clib_names args)) @ [bytes_of ''-o'', output, input]"

lemma cli_options_differ:
  "bytes_of ''-o'' \<noteq> bytes_of ''-c''" "bytes_of ''-o'' \<noteq> bytes_of ''-l''" "bytes_of ''-o'' \<noteq> bytes_of ''-ast''"
  "bytes_of ''-c'' \<noteq> bytes_of ''-l''" "bytes_of ''-c'' \<noteq> bytes_of ''-ast''" "bytes_of ''-l'' \<noteq> bytes_of ''-ast''"
  by (simp_all add: bytes_of_def byte_of_char_def)

lemma cli_libs_loop:
  "length (clib_names args) + length libs \<le> MAX_LIB_COUNT \<Longrightarrow>
     cli_tasm_loop (concat (map (\<lambda>l. [bytes_of ''-l'', l]) libs) @ argv) given args =
     cli_tasm_loop argv given (args\<lparr>clib_names := clib_names args @ libs\<rparr>)"
  by (induction libs arbitrary: args) (simp_all add: cli_tasm_option_def cli_options_differ [symmetric])

text \<open>C40. A command line for every choice of options: the words that name given libraries, flags, an output
  file and an input file, in this order, are parsed to exactly these, the libraries in their order.\<close>

theorem command_line_roundtrip:
  assumes "file_name args = Some input" and "output_name args = Some output"
    and "length (clib_names args) \<le> MAX_LIB_COUNT" and "input \<notin> set cli_options"
  shows "cli_tasm_parse_command_line no_args (cli_tasm_words prog args input output) = Some (True, args)"
proof -
  let ?first = "no_args\<lparr>compile := compile args, ast_show := ast_show args\<rparr>"
  let ?libs = "concat (map (\<lambda>l. [bytes_of ''-l'', l]) (clib_names args))"
  have flags: "cli_tasm_loop ((if compile args then [bytes_of ''-c''] else []) @
      (if ast_show args then [bytes_of ''-ast''] else []) @ argv) False no_args = cli_tasm_loop argv False ?first" for argv
    by (simp add: cli_tasm_option_def cli_options_differ cli_options_differ [symmetric] no_args_def)
  have libs: "cli_tasm_loop (?libs @ argv) False ?first = cli_tasm_loop argv False (?first\<lparr>clib_names := clib_names args\<rparr>)" for argv
    using cli_libs_loop [of ?first "clib_names args"] assms(3) by (simp add: no_args_def)
  have files: "cli_tasm_loop [bytes_of ''-o'', output, input] False (?first\<lparr>clib_names := clib_names args\<rparr>) = Some (True, args)"
    using assms by (simp add: cli_tasm_option_def cli_options_def no_args_def)
  have "cli_tasm_loop (tl (cli_tasm_words prog args input output)) False no_args = Some (True, args)"
    using flags libs files by (simp add: cli_tasm_words_def del: cli_tasm_loop.simps)
  moreover have "\<not> length (cli_tasm_words prog args input output) < 2" by (simp add: cli_tasm_words_def)
  ultimately show ?thesis
    using assms(1) by (simp add: cli_tasm_parse_command_line_def cli_tasm_usage_def cli_tasm_words_def del: cli_tasm_loop.simps)
qed

theorem command_line_roundtrip_witness:
  "cli_tasm_parse_command_line no_args (map bytes_of [''tasm'', ''-c'', ''-l'', ''libm.so'', ''-o'', ''a.bin'', ''a.tasm'']) =
     Some (True, \<lparr>file_name = Some (bytes_of ''a.tasm''), output_name = Some (bytes_of ''a.bin''),
       clib_names = [bytes_of ''libm.so''], ast_show = False, compile = True\<rparr>)"
  using command_line_roundtrip [of "\<lparr>file_name = Some (bytes_of ''a.tasm''), output_name = Some (bytes_of ''a.bin''),
       clib_names = [bytes_of ''libm.so''], ast_show = False, compile = True\<rparr>" "bytes_of ''a.tasm''" "bytes_of ''a.bin''"
       "bytes_of ''tasm''"]
  by (simp add: cli_tasm_words_def cli_options_def MAX_LIB_COUNT_def bytes_of_def byte_of_char_def)

end
