(* ===== verification/Tasm_Lexer.thy ===== *)
theory Tasm_Lexer
  imports Tvm_Types
begin

text \<open>
  Tokens and the lexer of the assembler, \<open>include/tasm/tasm_token.h\<close> and
  \<open>include/tasm/tasm_lexer.h\<close>. The source is a C string (the list of its bytes before the
  terminator) that ends with the byte 255 which \<open>read_file_content\<close> puts behind it and which, read
  as a \<open>char\<close>, is \<open>EOF\<close>. A read behind the terminator is undefined, and so is a token of more than
  127 bytes, which overruns the buffer \<open>temp_val\<close>. The function-static counter of the peeking
  function is the field \<open>peeked\<close>. A loop that does not end has no result: \<open>None\<close>.

  The messages, and the arena the token texts are stored in (of 2048 bytes, so that every token
  fits), are left out. The 63 mnemonic and 12 type tokens are one constructor each, applied to what
  they name.
\<close>

subsection \<open>Tokens\<close>

datatype token_type_t =
    TOKEN_NONE | TOKEN_ID | TOKEN_PROC | TOKEN_ENDP | TOKEN_COLON | TOKEN_APOST | TOKEN_QUOTA | TOKEN_AT
  | TOKEN_MINUS | TOKEN_CFUNCTION | TOKEN_CSTRUCT | TOKEN_DATA
  | TOKEN_TCI tvm_ctype
  | TOKEN_OP optype_t
  | TOKEN_STRING | TOKEN_CHAR | TOKEN_DECIMAL_NUMBER | TOKEN_FLOAT_NUMBER | TOKEN_HEX_NUMBER
  | TOKEN_BINARY_NUMBER | TOKEN_COMMENT | TOKEN_ENDLINE | TOKEN_EOF

record tasm_token_t =
  tok_type :: token_type_t
  tok_value :: "bytes option"   \<comment> \<open>\<open>None\<close> is the null pointer\<close>

definition tasm_token_create :: "token_type_t \<Rightarrow> bytes option \<Rightarrow> tasm_token_t" where
  "tasm_token_create t v = \<lparr>tok_type = t, tok_value = v\<rparr>"

subsection \<open>Characters\<close>

definition c_isdigit :: "u8 \<Rightarrow> bool" where "c_isdigit c \<longleftrightarrow> 48 \<le> c \<and> c \<le> 57"

definition c_isalpha :: "u8 \<Rightarrow> bool" where
  "c_isalpha c \<longleftrightarrow> 65 \<le> c \<and> c \<le> 90 \<or> 97 \<le> c \<and> c \<le> 122"

definition c_isalnum :: "u8 \<Rightarrow> bool" where "c_isalnum c \<longleftrightarrow> c_isalpha c \<or> c_isdigit c"

definition c_isxdigit :: "u8 \<Rightarrow> bool" where
  "c_isxdigit c \<longleftrightarrow> c_isdigit c \<or> 65 \<le> c \<and> c \<le> 70 \<or> 97 \<le> c \<and> c \<le> 102"

definition c_eof :: u8 where "c_eof = 255"
definition c_newline :: u8 where "c_newline = 10"
definition c_quote :: u8 where "c_quote = 34"
definition c_apost :: u8 where "c_apost = 39"

lemmas char_defs = c_isdigit_def c_isalpha_def c_isalnum_def c_isxdigit_def c_eof_def c_newline_def
  c_quote_def c_apost_def

definition isbinprefix :: "u8 \<Rightarrow> u8 \<Rightarrow> bool" where
  "isbinprefix a b \<longleftrightarrow> a = 48 \<and> (b = 98 \<or> b = 66)"

definition ishexprefix :: "u8 \<Rightarrow> u8 \<Rightarrow> bool" where
  "ishexprefix a b \<longleftrightarrow> a = 48 \<and> (b = 120 \<or> b = 88)"

subsection \<open>The cursor\<close>

record tasm_lexer_t =
  cursor :: nat
  prev_char :: u8
  current_char :: u8
  next_char :: u8
  source_code :: bytes
  loc_row :: nat
  loc_col :: nat
  peeked :: nat

definition src_at :: "bytes \<Rightarrow> nat \<Rightarrow> u8 option" where
  "src_at s i = (if i < length s then Some (s ! i) else if i = length s then Some 0 else None)"

definition tasm_lexer_init :: "bytes \<Rightarrow> tasm_lexer_t option" where
  "tasm_lexer_init src = do {
     a \<leftarrow> src_at src 0;
     b \<leftarrow> src_at src 1;
     Some \<lparr>cursor = 0, prev_char = a, current_char = a, next_char = b, source_code = src,
       loc_row = 1, loc_col = 0, peeked = 0\<rparr> }"

definition tasm_lexer_advance :: "tasm_lexer_t \<Rightarrow> tasm_lexer_t option" where
  "tasm_lexer_advance lx =
     (let lx1 = (if current_char lx = c_newline then lx\<lparr>loc_row := loc_row lx + 1, loc_col := 0\<rparr> else lx) in
      if current_char lx \<noteq> c_eof \<and> cursor lx < length (source_code lx) then do {
        n \<leftarrow> src_at (source_code lx) (cursor lx + 2);
        Some (lx1\<lparr>prev_char := current_char lx, current_char := next_char lx, next_char := n,
                  cursor := cursor lx + 1, loc_col := loc_col lx1 + 1\<rparr>) }
      else Some lx1)"

text \<open>The reset happens only when the counter has not reached the end of the source.\<close>

definition tasm_lexer_peek_upgraded :: "tasm_lexer_t \<Rightarrow> bool \<Rightarrow> (u8 \<times> tasm_lexer_t) option" where
  "tasm_lexer_peek_upgraded lx reset =
     (if length (source_code lx) \<le> peeked lx + cursor lx then Some (0, lx)
      else let p = (if reset then 0 else peeked lx + 1) in
        if cursor lx + p = 0 then None
        else do { c \<leftarrow> src_at (source_code lx) (cursor lx + p - 1); Some (c, lx\<lparr>peeked := p\<rparr>) })"

definition tasm_lexer_peek :: "tasm_lexer_t \<Rightarrow> (u8 \<times> tasm_lexer_t) option" where
  "tasm_lexer_peek lx = tasm_lexer_peek_upgraded lx False"

definition tasm_lexer_peek_reset :: "tasm_lexer_t \<Rightarrow> tasm_lexer_t option" where
  "tasm_lexer_peek_reset lx = map_option snd (tasm_lexer_peek_upgraded lx True)"

partial_function (option) tasm_lexer_skip_whitespace :: "tasm_lexer_t \<Rightarrow> tasm_lexer_t option" where
  "tasm_lexer_skip_whitespace lx =
     (if current_char lx = 32 \<or> current_char lx = 9
      then Option.bind (tasm_lexer_advance lx) tasm_lexer_skip_whitespace
      else Some lx)"

partial_function (option) tasm_lexer_skip_line :: "tasm_lexer_t \<Rightarrow> tasm_lexer_t option" where
  "tasm_lexer_skip_line lx =
     (if current_char lx \<noteq> c_newline \<and> current_char lx \<noteq> c_eof
      then Option.bind (tasm_lexer_advance lx) tasm_lexer_skip_line
      else Some lx)"

subsection \<open>Collecting tokens\<close>

text \<open>The loop shared by names and numbers: characters of a class go into \<open>temp_val\<close>, from the
  given index on.\<close>

partial_function (option) collect_while ::
  "(u8 \<Rightarrow> bool) \<Rightarrow> nat \<Rightarrow> tasm_lexer_t \<Rightarrow> (bytes \<times> tasm_lexer_t) option" where
  "collect_while P n lx =
     (if P (current_char lx)
      then if n < 128 then do {
        lx1 \<leftarrow> tasm_lexer_advance lx;
        (bs, lx2) \<leftarrow> collect_while P (n + 1) lx1;
        Some (current_char lx # bs, lx2) }
      else None
      else Some ([], lx))"

definition inst_strings_lower :: "string list" where
  "inst_strings_lower =
    [''nop'', ''push'', ''pop'', ''add'', ''sub'', ''mult'', ''div'', ''mod'',
     ''dup'', ''cln'', ''swap'', ''addf'', ''subf'', ''multf'', ''divf'', ''inc'',
     ''incf'', ''dec'', ''decf'', ''jmp'', ''jz'', ''jnz'', ''call'', ''ret'',
     ''ci2f'', ''ci2u'', ''cf2i'', ''cf2u'', ''cu2i'', ''cu2f'', ''gt'', ''gtf'',
     ''lt'', ''ltf'', ''eq'', ''eqf'', ''ge'', ''gef'', ''le'', ''lef'',
     ''and'', ''or'', ''not'', ''band'', ''bor'', ''bnot'', ''lshft'', ''rshft'',
     ''loadc'', ''aloadc'', ''load'', ''store'', ''gload'', ''gstore'', ''halloc'', ''deref'',
     ''derefb'', ''hset'', ''hsetof'', ''puts'', ''putc'', ''native'', ''hlt'']"

definition inst_strings_upper :: "string list" where
  "inst_strings_upper =
    [''NOP'', ''PUSH'', ''POP'', ''ADD'', ''SUB'', ''MULT'', ''DIV'', ''MOD'',
     ''DUP'', ''CLN'', ''SWAP'', ''ADDF'', ''SUBF'', ''MULTF'', ''DIVF'', ''INC'',
     ''INCF'', ''DEC'', ''DECF'', ''JMP'', ''JZ'', ''JNZ'', ''CALL'', ''RET'',
     ''CI2F'', ''CI2U'', ''CF2I'', ''CF2U'', ''CU2I'', ''CU2F'', ''GT'', ''GTF'',
     ''LT'', ''LTF'', ''EQ'', ''EQF'', ''GE'', ''GEF'', ''LE'', ''LEF'',
     ''AND'', ''OR'', ''NOT'', ''BAND'', ''BOR'', ''BNOT'', ''LSHFT'', ''RSHFT'',
     ''LOADC'', ''ALOADC'', ''LOAD'', ''STORE'', ''GLOAD'', ''GSTORE'', ''HALLOC'', ''DEREF'',
     ''DEREFB'', ''HSET'', ''HSETOF'', ''PUTS'', ''PUTC'', ''NATIVE'', ''HLT'']"

definition tci_ctypes :: "string list" where
  "tci_ctypes =
    [''u8'', ''u16'', ''u32'', ''u64'', ''i8'', ''i16'', ''i32'', ''i64'', ''f32'', ''f64'', ''ptr'', ''void'']"

text \<open>The keyword_table in the order in which a name is compared with them.\<close>

definition keyword_table :: "(string \<times> token_type_t) list" where
  "keyword_table =
     concat (map (\<lambda>(l, u, t). [(l, TOKEN_OP t), (u, TOKEN_OP t)])
       (zip inst_strings_lower (zip inst_strings_upper all_optypes))) @
     [(''proc'', TOKEN_PROC), (''endp'', TOKEN_ENDP)] @
     map (\<lambda>(s, t). (s, TOKEN_TCI t)) (zip tci_ctypes all_ctypes) @
     [(''cfun'', TOKEN_CFUNCTION), (''data'', TOKEN_DATA)]"

definition char_of_byte :: "u8 \<Rightarrow> char" where
  "char_of_byte b = char_of (unat b)"

definition id_type :: "bytes \<Rightarrow> token_type_t" where
  "id_type v = (case map_of keyword_table (map char_of_byte v) of None \<Rightarrow> TOKEN_ID | Some t \<Rightarrow> t)"

definition is_id_char :: "u8 \<Rightarrow> bool" where
  "is_id_char c \<longleftrightarrow> c_isalnum c \<or> c = 95"

type_synonym lex_result = "(tasm_token_t \<times> tasm_lexer_t) option"

definition tasm_lexer_collect_id :: "tasm_lexer_t \<Rightarrow> lex_result" where
  "tasm_lexer_collect_id lx = do {
     (v, lx1) \<leftarrow> collect_while is_id_char 0 lx;
     guard_c (length v < 128);
     Some (tasm_token_create (id_type v) (Some v), lx1) }"

definition tasm_lexer_collect_number :: "tasm_lexer_t \<Rightarrow> lex_result" where
  "tasm_lexer_collect_number lx = do {
     (v, lx1) \<leftarrow> collect_while c_isdigit 0 lx;
     if current_char lx1 = 46 then do {
       guard_c (length v < 128);
       lx2 \<leftarrow> tasm_lexer_advance lx1;
       (w, lx3) \<leftarrow> collect_while c_isdigit (length v + 1) lx2;
       guard_c (length v + 1 + length w < 128);
       Some (tasm_token_create TOKEN_FLOAT_NUMBER (Some (v @ 46 # w)), lx3) }
     else do {
       guard_c (length v < 128);
       Some (tasm_token_create TOKEN_DECIMAL_NUMBER (Some v), lx1) } }"

definition tasm_lexer_collect_hex_number :: "tasm_lexer_t \<Rightarrow> lex_result" where
  "tasm_lexer_collect_hex_number lx = do {
     lx1 \<leftarrow> tasm_lexer_advance lx;
     lx2 \<leftarrow> tasm_lexer_advance lx1;
     (v, lx3) \<leftarrow> collect_while c_isxdigit 0 lx2;
     guard_c (length v < 128);
     Some (tasm_token_create TOKEN_HEX_NUMBER (Some v), lx3) }"

definition tasm_lexer_collect_binary_number :: "tasm_lexer_t \<Rightarrow> lex_result" where
  "tasm_lexer_collect_binary_number lx = do {
     lx1 \<leftarrow> tasm_lexer_advance lx;
     lx2 \<leftarrow> tasm_lexer_advance lx1;
     (v, lx3) \<leftarrow> collect_while (\<lambda>c. c = 48 \<or> c = 49) 0 lx2;
     guard_c (length v < 128);
     Some (tasm_token_create TOKEN_BINARY_NUMBER (Some v), lx3) }"

text \<open>Strings: the length of the rest of the line bounds the loop that looks for the closing quote.\<close>

partial_function (option) peek_line :: "nat \<Rightarrow> tasm_lexer_t \<Rightarrow> (nat \<times> tasm_lexer_t) option" where
  "peek_line n lx = do {
     (c, lx1) \<leftarrow> tasm_lexer_peek lx;
     if c \<noteq> c_newline \<and> c \<noteq> c_eof then peek_line (n + 1) lx1 else Some (n, lx1) }"

definition escape :: "u8 \<Rightarrow> u8 option" where
  "escape c = map_of [(110, 10), (116, 9), (114, 13), (92, 92), (34, 34), (48, 0)] c"

partial_function (option) collect_str_from ::
  "nat \<Rightarrow> bytes \<Rightarrow> tasm_lexer_t \<Rightarrow> (bytes \<times> tasm_lexer_t) option" where
  "collect_str_from line_end acc lx =
     (if current_char lx = c_quote \<or> line_end < length acc then Some (acc, lx)
      else if current_char lx = 92 then do {
        lx1 \<leftarrow> tasm_lexer_advance lx;
        acc1 \<leftarrow> (case escape (current_char lx1) of
            None \<Rightarrow> Some acc
          | Some b \<Rightarrow> if length acc < 128 then Some (acc @ [b]) else None);
        lx2 \<leftarrow> tasm_lexer_advance lx1;
        collect_str_from line_end acc1 lx2 }
      else if length acc < 128 then do {
        lx1 \<leftarrow> tasm_lexer_advance lx;
        collect_str_from line_end (acc @ [current_char lx]) lx1 }
      else None)"

definition tasm_lexer_collect_str :: "tasm_lexer_t \<Rightarrow> lex_result" where
  "tasm_lexer_collect_str lx = do {
     (line_end, lx1) \<leftarrow> peek_line 0 lx;
     lx2 \<leftarrow> tasm_lexer_peek_reset lx1;
     (v, lx3) \<leftarrow> collect_str_from line_end [] lx2;
     guard_c (length v < 128);
     Some (tasm_token_create TOKEN_STRING (Some (takeWhile (\<lambda>b. b \<noteq> 0) v)), lx3) }"

definition tasm_lexer_collect_char :: "tasm_lexer_t \<Rightarrow> lex_result" where
  "tasm_lexer_collect_char lx = do {
     lx1 \<leftarrow> tasm_lexer_advance lx;
     if current_char lx1 \<noteq> c_apost then do {
       lx2 \<leftarrow> tasm_lexer_advance lx1;
       Some (tasm_token_create TOKEN_NONE None, lx2) }
     else Some (tasm_token_create TOKEN_CHAR (Some (takeWhile (\<lambda>b. b \<noteq> 0) [current_char lx])), lx1) }"

definition lexer_collect_one_chars :: "tasm_lexer_t \<Rightarrow> lex_result" where
  "lexer_collect_one_chars lx =
     (let c = current_char lx in
      if c = 59 then do {
        lx1 \<leftarrow> tasm_lexer_skip_line lx;
        Some (tasm_token_create TOKEN_COMMENT (Some [59]), lx1) }
      else do {
        lx1 \<leftarrow> tasm_lexer_advance lx;
        Some (if c = c_newline then tasm_token_create TOKEN_ENDLINE (Some (bytes_of ''endl''))
          else if c = 58 then tasm_token_create TOKEN_COLON (Some [58])
          else if c = c_apost then tasm_token_create TOKEN_APOST (Some [39])
          else if c = c_quote then tasm_token_create TOKEN_QUOTA (Some [34])
          else if c = 64 then tasm_token_create TOKEN_AT (Some [64])
          else if c = 45 then tasm_token_create TOKEN_MINUS (Some [45])
          else if c = c_eof then tasm_token_create TOKEN_EOF (Some (bytes_of ''eof''))
          else tasm_token_create TOKEN_NONE None, lx1) })"

definition tasm_lexer_get_next_token :: "tasm_lexer_t \<Rightarrow> lex_result" where
  "tasm_lexer_get_next_token lx =
     (let c = current_char lx in
      if prev_char lx = c_quote \<and> c \<noteq> c_quote \<and> c \<noteq> c_newline \<and> c \<noteq> c_eof \<and> c \<noteq> c_apost
      then tasm_lexer_collect_str lx
      else if prev_char lx = c_apost \<and> c \<noteq> c_newline \<and> c \<noteq> c_eof \<and> c \<noteq> c_quote
      then tasm_lexer_collect_char lx
      else do {
        lx1 \<leftarrow> tasm_lexer_skip_whitespace lx;
        let c1 = current_char lx1;
        if c_isalpha c1 \<or> c1 = 95 then tasm_lexer_collect_id lx1
        else if isbinprefix c1 (next_char lx1) then tasm_lexer_collect_binary_number lx1
        else if ishexprefix c1 (next_char lx1) then tasm_lexer_collect_hex_number lx1
        else if c_isdigit c1 then tasm_lexer_collect_number lx1
        else lexer_collect_one_chars lx1 })"

text \<open>The equations of the loops are the code they are evaluated with.\<close>

declare tasm_lexer_skip_whitespace.simps [code]
  tasm_lexer_skip_line.simps [code]
  collect_while.simps [code]
  peek_line.simps [code]
  collect_str_from.simps [code]

end
