(* ===== verification/Tasm_Parser.thy ===== *)
theory Tasm_Parser
  imports Tasm_Lexer Tdef Tasm_Ast Float32
begin

text \<open>
  The parser of the assembler, \<open>include/tasm/tasm_parser.h\<close>. It keeps a window of three tokens over
  the lexer; its operations change the parser they are given, so they return it, and a loop that
  does not end has no result. What it reports is kept as a list of values, each with the row and
  column the message shows, instead of the text printed. The switch over the instruction tokens is a
  table: which operand an instruction takes, and the error it reports without one.

  \<open>atoi\<close> outside the range of an int is undefined in C, \<open>strtoll\<close> saturates, and \<open>strtof\<close> rounds to
  the nearest float. The numbers the lexer delivers have digits only, so that the prefixes these
  functions skip do not occur.
\<close>

subsection \<open>State\<close>

datatype diagnostic =
    Unexpected_token nat nat "bytes option" token_type_t "token_type_t + nat"
      \<comment> \<open>row, column, text and type of the token, what was expected\<close>
  | Parse_error nat nat string "string option"
      \<comment> \<open>row, column, message, name of the error code\<close>
  | Parse_warning nat nat string

record tasm_parser_t =
  current_token :: tasm_token_t
  prev_token :: tasm_token_t
  next_token :: tasm_token_t
  lexer :: tasm_lexer_t
  is_err :: bool
  proc_return_warning :: bool
  global_hlt_warning :: bool
  diags :: "diagnostic list"

definition tok :: "tasm_parser_t \<Rightarrow> token_type_t" where
  "tok ps = tok_type (current_token ps)"

definition tasm_parser_init :: "tasm_lexer_t \<Rightarrow> tasm_parser_t option" where
  "tasm_parser_init lx = do {
     (t, lx1) \<leftarrow> tasm_lexer_get_next_token lx;
     Some \<lparr>current_token = tasm_token_create TOKEN_NONE None, prev_token = tasm_token_create TOKEN_NONE None,
       next_token = t, lexer = lx1, is_err = False, proc_return_warning = True, global_hlt_warning = True,
       diags = []\<rparr> }"

subsection \<open>Errors\<close>

text \<open>The error codes and the name printed for each; the codes below 1000 print nothing.\<close>

definition COMPOSITE_TYPE_ERR_CODE :: nat where "COMPOSITE_TYPE_ERR_CODE = 1000"

definition composite_errors :: "(nat \<times> string) list" where
  "composite_errors =
    [(1200, ''COMPSITE_ERR_FILE_LINE_UNEXPECTED_ID_OR_NUMBER_OR_SYMBOL''),
     (1201, ''COMPSITE_ERR_PROC_LINE_UNEXPECTED_ID_OR_NUMBER_OR_SYMBOL''),
     (2002, ''COMPSITE_ERR_PUSH_WRONG_OPERAND''),
     (2102, ''COMPSITE_ERR_CLN_WRONG_OPERAND''),
     (2202, ''COMPSITE_ERR_SWAP_WRONG_OPERAND''),
     (2302, ''COMPSITE_ERR_JMP_WRONG_OPERAND''),
     (2402, ''COMPSITE_ERR_JZ_WRONG_OPERAND''),
     (2502, ''COMPSITE_ERR_JNZ_WRONG_OPERAND''),
     (2602, ''COMPSITE_ERR_CALL_WRONG_OPERAND''),
     (2702, ''COMPSITE_ERR_LOAD_WRONG_OPERAND''),
     (2802, ''COMPSITE_ERR_STORE_WRONG_OPERAND''),
     (2902, ''COMPSITE_ERR_NATIVE_WRONG_OPERAND''),
     (3002, ''COMPSITE_ERR_DEREFB_WRONG_OPERAND''),
     (3401, ''COMPSITE_ERR_PROC_INSIDE_PROC''),
     (3601, ''COMPSITE_ERR_META_INSIDE_PROC''),
     (4000, ''COMPSITE_ERR_CINTERFACE_RET_TYPE_ERR''),
     (4100, ''COMPSITE_ERR_CINTERFACE_ARG_TYPE_ERR''),
     (5100, ''COMPSITE_ERR_FILE_LINE_UNEXPECTED_CINTERFACE_TOKEN_TYPE''),
     (5101, ''COMPSITE_ERR_PROC_LINE_UNEXPECTED_CINTERFACE_TOKEN_TYPE'')]"

definition tasm_parser_eat_err_msg :: "nat \<Rightarrow> string option" where
  "tasm_parser_eat_err_msg c =
     (if c < COMPOSITE_TYPE_ERR_CODE then None
      else Some (case map_of composite_errors c of None \<Rightarrow> ''NOT IMPLEMENTED ERR TYPE'' | Some s \<Rightarrow> s))"

text \<open>The window moves by one token.\<close>

definition next_window :: "tasm_parser_t \<Rightarrow> tasm_parser_t option" where
  "next_window ps = do {
     (t, lx) \<leftarrow> tasm_lexer_get_next_token (lexer ps);
     Some (ps\<lparr>prev_token := current_token ps, current_token := next_token ps, next_token := t,
              lexer := lx\<rparr>) }"

text \<open>\<open>tasm_parser_eat\<close> is called with a token type or with one of the error codes, which no token
  has as its type.\<close>

definition tasm_parser_eat :: "tasm_parser_t \<Rightarrow> token_type_t + nat \<Rightarrow> tasm_parser_t option" where
  "tasm_parser_eat ps want =
     (if Inl (tok ps) \<noteq> want
      then Some (ps\<lparr>is_err := True, diags := diags ps @
        [Unexpected_token (loc_row (lexer ps)) (loc_col (lexer ps)) (tok_value (current_token ps)) (tok ps) want]\<rparr>)
      else next_window ps)"

abbreviation eat :: "tasm_parser_t \<Rightarrow> token_type_t \<Rightarrow> tasm_parser_t option" where
  "eat ps t \<equiv> tasm_parser_eat ps (Inl t)"

definition eat_if :: "tasm_parser_t \<Rightarrow> token_type_t \<Rightarrow> tasm_parser_t option" where
  "eat_if ps t = (if tok ps = t then eat ps t else Some ps)"

definition tasm_parser_warn :: "tasm_parser_t \<Rightarrow> string \<Rightarrow> tasm_parser_t" where
  "tasm_parser_warn ps text =
     ps\<lparr>diags := diags ps @ [Parse_warning (loc_row (lexer ps)) (loc_col (lexer ps)) text]\<rparr>"

definition tasm_parser_err :: "tasm_parser_t \<Rightarrow> nat \<Rightarrow> string \<Rightarrow> tasm_parser_t option" where
  "tasm_parser_err ps c text = do {
     ps1 \<leftarrow> next_window (ps\<lparr>diags := diags ps @
       [Parse_error (loc_row (lexer ps)) (loc_col (lexer ps)) text (tasm_parser_eat_err_msg c)]\<rparr>);
     Some (ps1\<lparr>is_err := True\<rparr>) }"

definition err_if :: "bool \<Rightarrow> tasm_parser_t \<Rightarrow> nat \<Rightarrow> string \<Rightarrow> tasm_parser_t option" where
  "err_if b ps c text = (if b then tasm_parser_err ps c text else Some ps)"

subsection \<open>Literals and operands\<close>

definition digit_val :: "u8 \<Rightarrow> nat" where
  "digit_val c = (if c_isdigit c then unat c - 48
     else if 65 \<le> c \<and> c \<le> 70 then unat c - 55
     else if 97 \<le> c \<and> c \<le> 102 then unat c - 87 else 16)"

definition digits_val :: "nat \<Rightarrow> bytes \<Rightarrow> nat" where
  "digits_val base s = foldl (\<lambda>n c. base * n + digit_val c) 0 (takeWhile (\<lambda>c. digit_val c < base) s)"

definition is_minus :: "bytes \<Rightarrow> bool" where
  "is_minus s \<longleftrightarrow> s \<noteq> [] \<and> hd s = 45"

definition signed_val :: "nat \<Rightarrow> bytes \<Rightarrow> int" where
  "signed_val base s = (if is_minus s then - int (digits_val base (tl s)) else int (digits_val base s))"

definition c_atoi :: "bytes \<Rightarrow> u32 option" where
  "c_atoi s = (let v = signed_val 10 s in
     if - (2 ^ 31) \<le> v \<and> v < 2 ^ 31 then Some (word_of_int v) else None)"

definition c_strtoll :: "bytes \<Rightarrow> nat \<Rightarrow> int" where
  "c_strtoll s base = max (- (2 ^ 63)) (min (2 ^ 63 - 1) (signed_val base s))"

definition c_strtof :: "bytes \<Rightarrow> u32" where
  "c_strtof s =
     (let t = (if is_minus s then tl s else s);
          whole = takeWhile c_isdigit t;
          rest = dropWhile c_isdigit t;
          frac = (if rest \<noteq> [] \<and> hd rest = 46 then takeWhile c_isdigit (tl rest) else [])
      in f32_round (is_minus s) (digits_val 10 (whole @ frac) * 2 ^ 149) (10 ^ length frac))"

definition radix_value :: "bytes \<Rightarrow> nat \<Rightarrow> u32" where
  "radix_value s base =
     (let val = word_of_int (c_strtoll s base) in
      if is_little_endian \<noteq> 0 then swap_endian_uint32 val else val)"

type_synonym parse_result = "(tasm_ast \<times> tasm_parser_t) option"
type_synonym parse_opt_result = "(tasm_ast option \<times> tasm_parser_t) option"

definition tasm_parse_num_lit :: "tasm_parser_t \<Rightarrow> bool \<Rightarrow> parse_result" where
  "tasm_parse_num_lit ps negative = do {
     v \<leftarrow> tok_value (current_token ps);
     let text = (if negative then 45 # v else v);
     val \<leftarrow> (case tok ps of
         TOKEN_DECIMAL_NUMBER \<Rightarrow> c_atoi text
       | TOKEN_FLOAT_NUMBER \<Rightarrow> Some (c_strtof text)
       | TOKEN_HEX_NUMBER \<Rightarrow> Some (radix_value text 16)
       | TOKEN_BINARY_NUMBER \<Rightarrow> Some (radix_value text 2)
       | _ \<Rightarrow> None);
     ps1 \<leftarrow> eat ps (tok ps);
     Some (AST_NUMBER text val, ps1) }"

definition tasm_parse_char_lit :: "tasm_parser_t \<Rightarrow> parse_result" where
  "tasm_parse_char_lit ps = do {
     ps1 \<leftarrow> eat ps TOKEN_APOST;
     ps2 \<leftarrow> eat ps1 TOKEN_CHAR;
     ps3 \<leftarrow> eat ps2 TOKEN_APOST;
     Some (AST_CHAR (tok_value (current_token ps1)), ps3) }"

definition tasm_parse_str_lit :: "tasm_parser_t \<Rightarrow> parse_result" where
  "tasm_parse_str_lit ps = do {
     ps1 \<leftarrow> eat ps TOKEN_QUOTA;
     ps2 \<leftarrow> eat ps1 TOKEN_STRING;
     ps3 \<leftarrow> eat ps2 TOKEN_QUOTA;
     v \<leftarrow> tok_value (current_token ps1);
     Some (AST_STRING v, ps3) }"

definition tasm_parse_label_call :: "tasm_parser_t \<Rightarrow> parse_result" where
  "tasm_parse_label_call ps = do {
     name \<leftarrow> tok_value (current_token ps);
     ps1 \<leftarrow> eat ps TOKEN_ID;
     Some (AST_LABEL_CALL name, ps1) }"

definition is_operand_number :: "tasm_parser_t \<Rightarrow> bool" where
  "is_operand_number ps \<longleftrightarrow> tok ps = TOKEN_DECIMAL_NUMBER \<or> tok ps = TOKEN_FLOAT_NUMBER \<or>
     tok ps = TOKEN_HEX_NUMBER \<or> tok ps = TOKEN_BINARY_NUMBER"

definition is_operand_int :: "tasm_parser_t \<Rightarrow> bool" where
  "is_operand_int ps \<longleftrightarrow> tok ps = TOKEN_DECIMAL_NUMBER \<or> tok ps = TOKEN_HEX_NUMBER"

definition is_operand_char :: "tasm_parser_t \<Rightarrow> bool" where
  "is_operand_char ps \<longleftrightarrow> tok ps = TOKEN_APOST"

definition is_operand_label_call :: "tasm_parser_t \<Rightarrow> bool" where
  "is_operand_label_call ps \<longleftrightarrow> tok ps = TOKEN_ID"

definition found :: "parse_result \<Rightarrow> parse_opt_result" where
  "found r = map_option (\<lambda>(a, ps). (Some a, ps)) r"

definition tasm_parse_number_operand :: "tasm_parser_t \<Rightarrow> parse_opt_result" where
  "tasm_parse_number_operand ps = do {
     ps1 \<leftarrow> eat_if ps TOKEN_MINUS;
     if is_operand_number ps1 then found (tasm_parse_num_lit ps1 (tok ps = TOKEN_MINUS))
     else Some (None, ps1) }"

definition tasm_parse_int_operand :: "tasm_parser_t \<Rightarrow> parse_opt_result" where
  "tasm_parse_int_operand ps =
     (if is_operand_int ps then found (tasm_parse_num_lit ps False) else Some (None, ps))"

definition tasm_parse_label_operand :: "tasm_parser_t \<Rightarrow> parse_opt_result" where
  "tasm_parse_label_operand ps =
     (if is_operand_label_call ps then found (tasm_parse_label_call ps) else Some (None, ps))"

definition tasm_parse_jmp_operand :: "tasm_parser_t \<Rightarrow> parse_opt_result" where
  "tasm_parse_jmp_operand ps =
     (if is_operand_int ps then found (tasm_parse_num_lit ps False)
      else if is_operand_label_call ps then found (tasm_parse_label_call ps)
      else Some (None, ps))"

definition tasm_parse_push_operand :: "tasm_parser_t \<Rightarrow> parse_opt_result" where
  "tasm_parse_push_operand ps =
     (if is_operand_char ps then found (tasm_parse_char_lit ps) else tasm_parse_number_operand ps)"

subsection \<open>Instructions\<close>

datatype operand_kind = Push_operand | Int_operand | Jmp_operand | Label_operand

definition operand_table :: "(optype_t \<times> operand_kind \<times> nat \<times> string) list" where
  "operand_table =
    [(OP_PUSH, Push_operand, 2002, ''Wrong operand for push instruction''),
     (OP_CLN, Int_operand, 2102, ''Wrong operand for cln instruction''),
     (OP_SWAP, Int_operand, 2202, ''Wrong operand for swap instruction''),
     (OP_JMP, Jmp_operand, 2302, ''Wrong operand for jmp instruction''),
     (OP_JZ, Jmp_operand, 2402, ''Wrong operand for jz instruction''),
     (OP_JNZ, Jmp_operand, 2502, ''Wrong operand for jnz instruction''),
     (OP_CALL, Label_operand, 2602, ''Wrong operand for call instruction''),
     (OP_LOADC, Int_operand, 2702, ''Wrong operand for loadc insturction''),
     (OP_ALOADC, Int_operand, 2702, ''Wrong operand for aloadc insturction''),
     (OP_LOAD, Int_operand, 2702, ''Wrong operand for load insturction''),
     (OP_STORE, Int_operand, 2802, ''Wrong operand for store insturction''),
     (OP_GLOAD, Int_operand, 2702, ''Wrong operand for gload insturction''),
     (OP_GSTORE, Int_operand, 2802, ''Wrong operand for gstore insturction''),
     (OP_DEREFB, Int_operand, 3002, ''Wrong operand for derefb insturction''),
     (OP_NATIVE, Int_operand, 2902, ''Wrong operand for native insturction'')]"

fun parse_operand_kind :: "operand_kind \<Rightarrow> tasm_parser_t \<Rightarrow> parse_opt_result" where
  "parse_operand_kind Push_operand ps = tasm_parse_push_operand ps"
| "parse_operand_kind Int_operand ps = tasm_parse_int_operand ps"
| "parse_operand_kind Jmp_operand ps = tasm_parse_jmp_operand ps"
| "parse_operand_kind Label_operand ps = tasm_parse_label_operand ps"

definition parse_operand :: "optype_t \<Rightarrow> tasm_parser_t \<Rightarrow> parse_opt_result" where
  "parse_operand op ps = (case map_of operand_table op of
     None \<Rightarrow> Some (None, ps)
   | Some (kind, c, text) \<Rightarrow> do {
       (a, ps1) \<leftarrow> parse_operand_kind kind ps;
       ps2 \<leftarrow> err_if (a = None) ps1 c text;
       Some (a, ps2) })"

definition end_of_line :: "tasm_parser_t \<Rightarrow> tasm_parser_t option" where
  "end_of_line ps = do {
     ps1 \<leftarrow> eat_if ps TOKEN_COMMENT;
     if tok ps1 = TOKEN_EOF then eat ps1 TOKEN_EOF else eat ps1 TOKEN_ENDLINE }"

definition tasm_parse_instruction :: "tasm_parser_t \<Rightarrow> parse_result" where
  "tasm_parse_instruction ps = (case tok ps of
     TOKEN_OP op \<Rightarrow> do {
       name \<leftarrow> tok_value (current_token ps);
       ps1 \<leftarrow> eat ps (tok ps);
       (oprnd, ps2) \<leftarrow> parse_operand op ps1;
       ps3 \<leftarrow> end_of_line ps2;
       Some (AST_OP op name oprnd, ps3) }
   | _ \<Rightarrow> None)"

subsection \<open>Declarations\<close>

definition tasm_parse_label_decl :: "tasm_parser_t \<Rightarrow> parse_result" where
  "tasm_parse_label_decl ps = do {
     name \<leftarrow> tok_value (current_token ps);
     ps1 \<leftarrow> eat ps TOKEN_ID;
     ps2 \<leftarrow> eat ps1 TOKEN_COLON;
     Some (AST_LABEL_DECL name, ps2) }"

definition is_token_ctype :: "tasm_parser_t \<Rightarrow> bool" where
  "is_token_ctype ps \<longleftrightarrow> (case tok ps of TOKEN_TCI t \<Rightarrow> True | _ \<Rightarrow> False)"

text \<open>The position of a token type in the enumeration, which the type of an argument is computed
  from, for a wrong token too.\<close>

definition plain_tokens :: "(token_type_t \<times> nat) list" where
  "plain_tokens = zip
     [TOKEN_NONE, TOKEN_ID, TOKEN_PROC, TOKEN_ENDP, TOKEN_COLON, TOKEN_APOST, TOKEN_QUOTA, TOKEN_AT,
      TOKEN_MINUS, TOKEN_CFUNCTION, TOKEN_CSTRUCT, TOKEN_DATA] [0..<12] @
     zip [TOKEN_STRING, TOKEN_CHAR, TOKEN_DECIMAL_NUMBER, TOKEN_FLOAT_NUMBER, TOKEN_HEX_NUMBER,
      TOKEN_BINARY_NUMBER, TOKEN_COMMENT, TOKEN_ENDLINE, TOKEN_EOF] [91..<100]"

definition token_number :: "token_type_t \<Rightarrow> nat" where
  "token_number t = (case t of
     TOKEN_TCI c \<Rightarrow> 13 + unat (ctype_code c)
   | TOKEN_OP op \<Rightarrow> 27 + unat (optype_code op)
   | _ \<Rightarrow> the (map_of plain_tokens t))"

definition ctype_number :: "tasm_parser_t \<Rightarrow> u8" where
  "ctype_number ps = word_of_int (int (token_number (tok ps)) - 12 - 1)"

definition cfunction_stop :: "tasm_parser_t \<Rightarrow> bool" where
  "cfunction_stop ps \<longleftrightarrow> tok ps = TOKEN_ENDLINE \<or> tok ps = TOKEN_EOF \<or> tok ps = TOKEN_COMMENT"

text \<open>One C type: anything else is reported, and skipped too.\<close>

definition parse_ctype :: "nat \<Rightarrow> tasm_parser_t \<Rightarrow> (u8 \<times> tasm_parser_t) option" where
  "parse_ctype c ps = do {
     ps1 \<leftarrow> (if is_token_ctype ps then Some ps else tasm_parser_eat ps (Inr c));
     ps2 \<leftarrow> eat ps1 (tok ps1);
     Some (ctype_number ps, ps2) }"

partial_function (option) parse_cfunction_args :: "tasm_parser_t \<Rightarrow> (u8 list \<times> tasm_parser_t) option" where
  "parse_cfunction_args ps =
     (if cfunction_stop ps then Some ([], ps) else do {
        (t, ps1) \<leftarrow> parse_ctype 4100 ps;
        (ts, ps2) \<leftarrow> parse_cfunction_args ps1;
        Some (t # ts, ps2) })"

definition tasm_parse_cfunction :: "tasm_parser_t \<Rightarrow> parse_result" where
  "tasm_parse_cfunction ps = do {
     ps1 \<leftarrow> eat ps TOKEN_CFUNCTION;
     (rt, ps2) \<leftarrow> parse_ctype 4000 ps1;
     ps3 \<leftarrow> eat ps2 TOKEN_ID;
     (args, ps4) \<leftarrow> parse_cfunction_args ps3;
     Some (AST_CFUNCTION rt args (word_of_nat (length args)) (tok_value (current_token ps2)), ps4) }"

definition tasm_parse_cstruct :: "tasm_parser_t \<Rightarrow> parse_result" where
  "tasm_parse_cstruct ps = do {
     ps1 \<leftarrow> eat ps TOKEN_CSTRUCT;
     Some (AST_CSTRUCT, ps1) }"

definition tasm_parse_data :: "tasm_parser_t \<Rightarrow> parse_result" where
  "tasm_parse_data ps = do {
     ps1 \<leftarrow> eat ps TOKEN_DATA;
     (v, ps2) \<leftarrow> (if tok ps1 = TOKEN_QUOTA then found (tasm_parse_str_lit ps1)
       else if tok ps1 = TOKEN_APOST then found (tasm_parse_char_lit ps1)
       else tasm_parse_number_operand ps1);
     Some (AST_DATA v, ps2) }"

definition tasm_parse_metadata :: "tasm_parser_t \<Rightarrow> parse_opt_result" where
  "tasm_parse_metadata ps = do {
     ps1 \<leftarrow> eat ps TOKEN_AT;
     if tok ps1 = TOKEN_CFUNCTION then found (tasm_parse_cfunction ps1)
     else if tok ps1 = TOKEN_CSTRUCT then found (tasm_parse_cstruct ps1)
     else if tok ps1 = TOKEN_DATA then found (tasm_parse_data ps1)
     else do {
       ps2 \<leftarrow> tasm_parser_eat ps1 (Inr 8000);
       Some (None, ps2) } }"

subsection \<open>Lines\<close>

definition is_line_label_decl :: "tasm_parser_t \<Rightarrow> bool" where
  "is_line_label_decl ps \<longleftrightarrow> tok ps = TOKEN_ID \<and> tok_type (next_token ps) = TOKEN_COLON"

definition is_line_proc :: "tasm_parser_t \<Rightarrow> bool" where
  "is_line_proc ps \<longleftrightarrow> tok ps = TOKEN_PROC"

definition is_line_endp :: "tasm_parser_t \<Rightarrow> bool" where
  "is_line_endp ps \<longleftrightarrow> tok ps = TOKEN_ENDP"

definition is_line_instruction :: "tasm_parser_t \<Rightarrow> bool" where
  "is_line_instruction ps \<longleftrightarrow> (case tok ps of TOKEN_OP op \<Rightarrow> True | _ \<Rightarrow> False)"

definition is_line_meta :: "tasm_parser_t \<Rightarrow> bool" where
  "is_line_meta ps \<longleftrightarrow> tok ps = TOKEN_AT"

definition is_line_cinterface_token :: "tasm_parser_t \<Rightarrow> bool" where
  "is_line_cinterface_token ps \<longleftrightarrow> tok ps = TOKEN_CFUNCTION \<or> tok ps = TOKEN_CSTRUCT \<or> is_token_ctype ps"

definition is_stray :: "tasm_parser_t \<Rightarrow> bool" where
  "is_stray ps \<longleftrightarrow> tok ps \<in> set [TOKEN_ID, TOKEN_STRING, TOKEN_CHAR, TOKEN_DECIMAL_NUMBER, TOKEN_HEX_NUMBER,
     TOKEN_FLOAT_NUMBER, TOKEN_BINARY_NUMBER, TOKEN_COLON, TOKEN_APOST, TOKEN_QUOTA, TOKEN_NONE]"

text \<open>The end of both line functions: stray tokens are reported and skipped, then what may end a
  line. The two differ in the error codes.\<close>

definition skip_strays :: "nat \<Rightarrow> nat \<Rightarrow> tasm_parser_t \<Rightarrow> tasm_parser_t option" where
  "skip_strays stray_code cinterface_code ps = do {
     ps1 \<leftarrow> err_if (is_stray ps) ps stray_code ''Unexpected identifier or number or symbol'';
     ps2 \<leftarrow> err_if (is_line_cinterface_token ps1) ps1 cinterface_code ''Unexpected C interface token'';
     ps3 \<leftarrow> err_if (is_line_endp ps2) ps2 COMPOSITE_TYPE_ERR_CODE ''Unexpected endp'';
     ps4 \<leftarrow> eat_if ps3 TOKEN_ENDLINE;
     ps5 \<leftarrow> eat_if ps4 TOKEN_COMMENT;
     eat_if ps5 TOKEN_EOF }"

definition tasm_parse_proc_line :: "tasm_parser_t \<Rightarrow> parse_opt_result" where
  "tasm_parse_proc_line ps =
     (if is_line_label_decl ps then found (tasm_parse_label_decl ps)
      else if is_line_instruction ps then found (tasm_parse_instruction ps)
      else do {
        ps1 \<leftarrow> err_if (is_line_proc ps) ps 3401 ''A proc cannot be defined in anothe proc'';
        ps2 \<leftarrow> err_if (is_line_meta ps1) ps1 3601 ''Meta decleration must be declared at global scope'';
        ps3 \<leftarrow> err_if (tok ps2 = TOKEN_DATA) ps2 3601 ''@data decleration must be declared at global scope'';
        ps4 \<leftarrow> skip_strays 1201 5101 ps3;
        Some (None, ps4) })"

definition note_line :: "tasm_ast option \<Rightarrow> tasm_parser_t \<Rightarrow> tasm_parser_t" where
  "note_line l ps = (case l of Some (AST_OP OP_RET name oprnd) \<Rightarrow> ps\<lparr>proc_return_warning := False\<rparr> | _ \<Rightarrow> ps)"

partial_function (option) parse_proc_lines :: "tasm_parser_t \<Rightarrow> (tasm_ast list \<times> tasm_parser_t) option" where
  "parse_proc_lines ps =
     (if tok ps = TOKEN_ENDP \<or> tok ps = TOKEN_EOF then Some ([], ps) else do {
        (l, ps1) \<leftarrow> tasm_parse_proc_line ps;
        (ls, ps2) \<leftarrow> parse_proc_lines (note_line l ps1);
        Some (case l of None \<Rightarrow> ls | Some a \<Rightarrow> a # ls, ps2) })"

definition tasm_parse_proc :: "tasm_parser_t \<Rightarrow> parse_result" where
  "tasm_parse_proc ps = do {
     ps1 \<leftarrow> eat ps TOKEN_PROC;
     ps2 \<leftarrow> eat ps1 TOKEN_ID;
     (ls, ps3) \<leftarrow> parse_proc_lines ps2;
     ps4 \<leftarrow> eat ps3 TOKEN_ENDP;
     let ps5 = (if proc_return_warning ps4
       then tasm_parser_warn ps4 ''procedure: there is no ret opcode. It may cause possible unpredicted behaivours''
       else ps4);
     ps6 \<leftarrow> end_of_line (ps5\<lparr>proc_return_warning := True\<rparr>);
     Some (AST_PROC (tok_value (current_token ps1)) ls, ps6) }"

definition tasm_parse_line :: "tasm_parser_t \<Rightarrow> parse_opt_result" where
  "tasm_parse_line ps =
     (if is_line_label_decl ps then found (tasm_parse_label_decl ps)
      else if is_line_proc ps then found (tasm_parse_proc ps)
      else if is_line_instruction ps then found (tasm_parse_instruction ps)
      else if is_line_meta ps then tasm_parse_metadata ps
      else do {
        ps1 \<leftarrow> skip_strays 1200 5100 ps;
        Some (None, ps1) })"

definition note_file_line :: "tasm_ast option \<Rightarrow> tasm_parser_t \<Rightarrow> tasm_parser_t" where
  "note_file_line l ps = (case l of Some (AST_OP OP_HALT name oprnd) \<Rightarrow> ps\<lparr>global_hlt_warning := False\<rparr> | _ \<Rightarrow> ps)"

partial_function (option) parse_file_lines :: "tasm_parser_t \<Rightarrow> (tasm_ast list \<times> tasm_parser_t) option" where
  "parse_file_lines ps =
     (if tok ps = TOKEN_EOF then Some ([], ps) else do {
        (l, ps1) \<leftarrow> tasm_parse_line ps;
        (ls, ps2) \<leftarrow> parse_file_lines (note_file_line l ps1);
        Some (case l of None \<Rightarrow> ls | Some a \<Rightarrow> a # ls, ps2) })"

definition tasm_parse_file :: "tasm_parser_t \<Rightarrow> parse_result" where
  "tasm_parse_file ps = do {
     ps1 \<leftarrow> eat ps TOKEN_NONE;
     (ls, ps2) \<leftarrow> parse_file_lines ps1;
     let ps3 = (if global_hlt_warning ps2
       then tasm_parser_warn ps2 ''file: there is no hlt opcode. It may cause possible unpredicted behaivours''
       else ps2);
     ps4 \<leftarrow> end_of_line (ps3\<lparr>global_hlt_warning := True\<rparr>);
     Some (AST_FILE ls, ps4) }"

definition tasm_parser_is_err :: "tasm_parser_t \<Rightarrow> bool" where
  "tasm_parser_is_err ps = is_err ps"

text \<open>The equations of the loops are the code they are evaluated with.\<close>

declare parse_cfunction_args.simps [code]
  parse_proc_lines.simps [code]
  parse_file_lines.simps [code]

end
