(* ===== verification/Tasmc.thy ===== *)
theory Tasmc
  imports Tasm_Correct
begin

text \<open>
  The back end for the option \<open>-c\<close>, \<open>src/tasmc.c\<close> and \<open>include/tasmc/tasmc_target.h\<close>: assembler text
  for nasm, written while the syntax tree is walked. What a function does is the text it writes to
  the file \<open>out.asm\<close>, and what it prints. The tags without a case end in a failed assertion, which
  aborts the process (\<open>None\<close>), as does a null pointer that is read.
\<close>

type_synonym nasm_out = "bytes \<times> bytes"   \<comment> \<open>the file's text, the standard output\<close>

definition emit :: "bytes \<Rightarrow> nasm_out" where "emit t = (t, [])"

definition echo :: "bytes \<Rightarrow> nasm_out" where "echo t = ([], t)"

definition then_out :: "nasm_out \<Rightarrow> nasm_out \<Rightarrow> nasm_out" where
  "then_out a b = (fst a @ fst b, snd a @ snd b)"

definition text_line :: "string \<Rightarrow> bytes" where "text_line s = bytes_of s @ [10]"

text \<open>A line that starts with a tab, \<open>_T\<close>.\<close>

definition tab_line :: "string \<Rightarrow> bytes" where "tab_line s = 9 # text_line s"

subsection \<open>The text of the instructions\<close>

definition TASMC_TARGET_x86_64_WIN32 :: bytes where
  "TASMC_TARGET_x86_64_WIN32 = concat (map text_line
     [''STD_OUTPUT_HANDLE equ -11'', '''', ''extern GetStdHandle'', ''extern WriteFile'',
      ''extern ExitProcess'', ''''])"

definition TASMC_TARGET_STACK :: bytes where
  "TASMC_TARGET_STACK = concat (map text_line
     ['''', ''section .data'', ''stack_top:'', ''stack db 1024 dup(0)''])"

definition nasm_file :: bytes where
  "nasm_file = text_line ''BITS 64'' @ TASMC_TARGET_x86_64_WIN32 @
     concat (map text_line [''section .text'', ''global _start'', '''', ''_start:'']) @
     concat (map tab_line [''xor rsi, rsi'', ''mov rbp, stack''])"

definition nasm_stack :: bytes where "nasm_stack = TASMC_TARGET_STACK"

definition nasm_nop :: bytes where "nasm_nop = concat (map tab_line [''; nop'', ''nop''])"

definition nasm_push :: "bytes \<Rightarrow> nasm_out" where
  "nasm_push oprnd = then_out (echo (oprnd @ [10])) (emit
     (9 # bytes_of ''; push '' @ oprnd @ [10] @
      9 # bytes_of ''mov rax, '' @ oprnd @ [10] @
      concat (map tab_line [''mov qword [rbp + rsi], rax'', ''add rsi, 4'', ''xor rax, rax''])))"

definition nasm_pop :: bytes where
  "nasm_pop = concat (map tab_line [''; pop'', ''sub rsi, 4'', ''mov qword [rbp + rsi], rax''])"

definition nasm_hlt :: bytes where
  "nasm_hlt = concat (map tab_line [''; hlt'', ''push qword 0'', ''xor rcx, rcx'', ''call ExitProcess''])"

definition nasm_add :: bytes where
  "nasm_add = concat (map tab_line
     [''; add'', ''sub rsi, 4'', ''mov rbx, qword [rbp + rsi]'', ''sub rsi, 4'',
      ''mov rax, qword [rbp + rsi]'', ''add rax, rbx'', ''mov qword [rbp + rsi], rax'', ''add rsi, 4'',
      ''xor rax, rax''])"

text \<open>\<open>node->inst.operand->number.text_value\<close>: the text is the first member of the node's union, which
  a character, a string and a label's name share with it.\<close>

fun operand_text :: "tasm_ast option \<Rightarrow> bytes option" where
  "operand_text (Some (AST_NUMBER text v)) = Some text"
| "operand_text (Some (AST_CHAR v)) = v"
| "operand_text (Some (AST_STRING s)) = Some s"
| "operand_text (Some (AST_LABEL_CALL n)) = Some n"
| "operand_text _ = None"

text \<open>The instructions whose case is empty.\<close>

definition silent_ops :: "optype_t list" where
  "silent_ops =
     [OP_SUB, OP_MULT, OP_DIV, OP_MOD, OP_DUP, OP_CLN, OP_SWAP, OP_ADDF, OP_SUBF, OP_MULTF, OP_DIVF,
      OP_INC, OP_INCF, OP_DEC, OP_DECF, OP_JMP, OP_JZ, OP_JNZ, OP_CALL, OP_RET,
      OP_CI2F, OP_CI2U, OP_CF2I, OP_CF2U, OP_CU2I, OP_CU2F,
      OP_GT, OP_GTF, OP_LT, OP_LTF, OP_EQ, OP_EQF, OP_GE, OP_GEF, OP_LE, OP_LEF, OP_AND, OP_OR, OP_NOT,
      OP_LOADC, OP_ALOADC, OP_LOAD, OP_STORE, OP_PUTS, OP_NATIVE]"

definition nasm_op :: "optype_t \<Rightarrow> tasm_ast option \<Rightarrow> nasm_out option" where
  "nasm_op op oprnd =
     (if op = OP_NOP then Some (emit nasm_nop)
      else if op = OP_PUSH then map_option nasm_push (operand_text oprnd)
      else if op = OP_POP then Some (emit nasm_pop)
      else if op = OP_ADD then Some (emit nasm_add)
      else if op \<in> set silent_ops then Some (emit [])
      else if op = OP_HALT then Some (emit nasm_hlt)
      else None)"

subsection \<open>The walk\<close>

fun tasmc_compile_nasm_code :: "tasm_ast \<Rightarrow> nasm_out option"
  and compile_ptr :: "tasm_ast option \<Rightarrow> nasm_out option"
  and compile_lines :: "tasm_ast list \<Rightarrow> nasm_out option" where
  "tasmc_compile_nasm_code AST_NONE = None"
| "tasmc_compile_nasm_code (AST_FILE ls) = map_option (then_out (emit nasm_file)) (compile_lines ls)"
| "tasmc_compile_nasm_code (AST_OP op name oprnd) = nasm_op op oprnd"
| "tasmc_compile_nasm_code (AST_NUMBER text v) = Some (echo (bytes_of ''NUMBER: '' @ text @ [10]))"
| "tasmc_compile_nasm_code (AST_CHAR v) =
     map_option (\<lambda>text. echo (bytes_of ''CHAR: '' @ text @ [10])) v"
| "tasmc_compile_nasm_code (AST_STRING v) =
     Some (echo (bytes_of ''STRING: '' @ 34 # v @ 34 # bytes_of '' length: '' @
       printf_d (word_of_nat (length v)) @ [10]))"
| "tasmc_compile_nasm_code (AST_LABEL_DECL name) = Some (echo (bytes_of ''LABEL DECL: '' @ name @ [10]))"
| "tasmc_compile_nasm_code (AST_LABEL_CALL name) = Some (echo (bytes_of ''LABEL CALL: '' @ name @ [10]))"
| "tasmc_compile_nasm_code (AST_PROC name ls) = do {
     text \<leftarrow> name;
     rest \<leftarrow> compile_lines ls;
     Some (then_out (echo (bytes_of ''PROC '' @ text @ [10])) rest) }"
| "tasmc_compile_nasm_code (AST_DATA v) =
     map_option (then_out (echo (bytes_of ''DATA'' @ [10]))) (compile_ptr v)"
| "tasmc_compile_nasm_code AST_CSTRUCT = Some (emit [])"
| "tasmc_compile_nasm_code (AST_CFUNCTION ret args count name) =
     map_option (\<lambda>text. echo (bytes_of ''CFUNCTION '' @ text @ bytes_of '': '' @
       printf_d (ucast ret) @ bytes_of '' -> ('' @
       concat (map (\<lambda>t. printf_d (ucast t) @ bytes_of '', '') (take (unat count) args)) @
       bytes_of '')'' @ [10])) name"
| "compile_ptr None = Some (emit [])"
| "compile_ptr (Some node) = tasmc_compile_nasm_code node"
| "compile_lines [] = Some (emit [])"
| "compile_lines (l # ls) = do {
     a \<leftarrow> tasmc_compile_nasm_code l;
     b \<leftarrow> compile_lines ls;
     Some (then_out a b) }"

definition tasmc_compile_nasm_end :: nasm_out where
  "tasmc_compile_nasm_end = emit nasm_stack"

definition tasmc_compile_nasm :: "tasm_ast \<Rightarrow> nasm_out option" where
  "tasmc_compile_nasm node =
     map_option (\<lambda>c. then_out c tasmc_compile_nasm_end) (tasmc_compile_nasm_code node)"

subsection \<open>What is written for a file\<close>

text \<open>The specification: the file's text is a frame around the texts of its lines, procedures opened
  up, in their order.\<close>

lemma then_out_simps [simp]:
  "fst (then_out a b) = fst a @ fst b" "snd (then_out a b) = snd a @ snd b"
  "fst (emit t) = t" "snd (emit t) = []" "fst (echo t) = []" "snd (echo t) = t"
  by (simp_all add: then_out_def emit_def echo_def)

text \<open>The instructions with a case, and the lines that are compiled without an abort.\<close>

definition nasm_ops :: "optype_t set" where
  "nasm_ops = {OP_NOP, OP_PUSH, OP_POP, OP_ADD, OP_HALT} \<union> set silent_ops"

fun compilable :: "tasm_ast \<Rightarrow> bool" where
  "compilable (AST_OP op name oprnd) \<longleftrightarrow> op \<in> nasm_ops"
| "compilable (AST_CFUNCTION ret args count name) \<longleftrightarrow> name \<noteq> None"
| "compilable (AST_CHAR v) \<longleftrightarrow> v \<noteq> None"
| "compilable AST_NONE \<longleftrightarrow> False"
| "compilable _ \<longleftrightarrow> True"

text \<open>What a line contributes to the text: five instructions contribute code.\<close>

fun line_text :: "tasm_ast \<Rightarrow> bytes" where
  "line_text (AST_OP op name oprnd) =
     (if op = OP_NOP then nasm_nop
      else if op = OP_PUSH then (case operand_text oprnd of None \<Rightarrow> [] | Some t \<Rightarrow> fst (nasm_push t))
      else if op = OP_POP then nasm_pop
      else if op = OP_ADD then nasm_add
      else if op = OP_HALT then nasm_hlt
      else [])"
| "line_text _ = []"

definition asm_of :: "nasm_out option \<Rightarrow> bytes option" where
  "asm_of r = (case r of None \<Rightarrow> None | Some a \<Rightarrow> Some (fst a))"

lemma asm_of_simps [simp]:
  "asm_of None = None" "asm_of (Some a) = Some (fst a)"
  "asm_of (map_option (then_out b) r) = map_option ((@) (fst b)) (asm_of r)"
  "asm_of (do { a \<leftarrow> r; Some (then_out b a) }) = map_option ((@) (fst b)) (asm_of r)"
  by (cases r; simp add: asm_of_def)+

lemma nasm_op_text:
  assumes "operand_fits op oprnd"
  shows "asm_of (nasm_op op oprnd) =
    (if op \<in> nasm_ops then Some (line_text (AST_OP op name oprnd)) else None)"
proof (cases "op = OP_PUSH")
  case True
  with assms show ?thesis
    by (auto simp: nasm_op_def nasm_ops_def operand_fits_def nasm_push_def elim!: number_node.elims char_node.elims)
next
  case False
  have "op \<in> set silent_ops \<Longrightarrow> op \<notin> {OP_NOP, OP_POP, OP_ADD, OP_HALT}" by (auto simp: silent_ops_def)
  with False show ?thesis by (auto simp: nasm_op_def nasm_ops_def)
qed

lemma constant_compiled:
  "constant_line (AST_DATA v) \<Longrightarrow> asm_of (tasmc_compile_nasm_code (AST_DATA v)) = Some []"
proof (cases v)
  case (Some a)
  assume "constant_line (AST_DATA v)"
  with Some obtain bs where "data_bytes a = Some (Some bs)" by (auto split: option.splits)
  then show ?thesis by (cases a) (auto simp: Some data_bytes_def)
qed simp

lemma plain_line_text:
  assumes "plain_line l" and "operands_ok l" and "constant_line l"
  shows "asm_of (tasmc_compile_nasm_code l) = (if compilable l then Some (line_text l) else None)"
proof (cases l)
  case (AST_OP op name oprnd)
  with assms(2) show ?thesis by (simp only: nasm_op_text operands_ok.simps compilable.simps tasmc_compile_nasm_code.simps)
next
  case (AST_DATA v)
  with assms(3) show ?thesis by (simp only: constant_compiled compilable.simps line_text.simps if_True)
qed (use assms(1) in \<open>auto split: option.splits\<close>)

lemma lines_text_cons:
  "asm_of (compile_lines (l # ls)) = do {
     a \<leftarrow> asm_of (tasmc_compile_nasm_code l);
     b \<leftarrow> asm_of (compile_lines ls);
     Some (a @ b) }"
  by (cases "tasmc_compile_nasm_code l"; cases "compile_lines ls") simp_all

definition flat_text :: "flat \<Rightarrow> bytes" where
  "flat_text fl = concat (map (\<lambda>x. line_text (snd x)) fl)"

definition flat_compilable :: "flat \<Rightarrow> bool" where
  "flat_compilable fl \<longleftrightarrow> list_all (\<lambda>x. compilable (snd x)) fl"

definition flat_fits :: "flat \<Rightarrow> bool" where
  "flat_fits fl \<longleftrightarrow> list_all (\<lambda>x. operands_ok (snd x) \<and> constant_line (snd x)) fl"

lemma flat_simps [simp]:
  "flat_text [] = []" "flat_text (x # fl) = line_text (snd x) @ flat_text fl"
  "flat_text (fl @ gl) = flat_text fl @ flat_text gl"
  "flat_compilable []" "flat_compilable (x # fl) = (compilable (snd x) \<and> flat_compilable fl)"
  "flat_compilable (fl @ gl) = (flat_compilable fl \<and> flat_compilable gl)"
  "flat_fits []" "flat_fits (x # fl) = (operands_ok (snd x) \<and> constant_line (snd x) \<and> flat_fits fl)"
  "flat_fits (fl @ gl) = (flat_fits fl \<and> flat_fits gl)"
  by (auto simp: flat_text_def flat_compilable_def flat_fits_def)

lemma body_text:
  assumes "list_all plain_line ls" and "flat_fits (map (Pair p) ls)"
  shows "asm_of (compile_lines ls) =
    (if flat_compilable (map (Pair p) ls) then Some (flat_text (map (Pair p) ls)) else None)"
  using assms
proof (induction ls)
  case (Cons l ls)
  then show ?case unfolding lines_text_cons by (simp add: plain_line_text)
qed simp

lemma file_text:
  assumes "list_all wf_line ls" and "flat_fits (flat_lines ls)"
  shows "asm_of (compile_lines ls) =
    (if flat_compilable (flat_lines ls) then Some (flat_text (flat_lines ls)) else None)"
  using assms
proof (induction ls)
  case (Cons l ls)
  then have "wf_line l" by simp
  then have "asm_of (tasmc_compile_nasm_code l) =
      (if flat_compilable (flat_line l) then Some (flat_text (flat_line l)) else None)"
  proof (cases rule: wf_line_cases)
    case (1 pname body)
    with Cons.prems body_text [of body "Some pname"] show ?thesis
      by (simp del: line_text.simps)
  next
    case 2
    with Cons.prems show ?thesis by (simp add: plain_line_text)
  qed
  with Cons show ?case unfolding lines_text_cons by auto
qed simp

text \<open>The compiler writes a text exactly when every instruction has a case and every C function a
  name; the text is then the frame with the texts of the lines.\<close>

lemma nasm_text:
  assumes "list_all wf_line ls" and "flat_fits (flat_lines ls)"
  shows "asm_of (tasmc_compile_nasm (AST_FILE ls)) =
    (if flat_compilable (flat_lines ls) then Some (nasm_file @ flat_text (flat_lines ls) @ nasm_stack) else None)"
proof -
  have "asm_of (tasmc_compile_nasm (AST_FILE ls)) =
      map_option (\<lambda>t. nasm_file @ t @ nasm_stack) (asm_of (compile_lines ls))"
    by (cases "compile_lines ls") (simp_all add: tasmc_compile_nasm_def tasmc_compile_nasm_end_def)
  then show ?thesis unfolding file_text [OF assms] by simp
qed

text \<open>Lines that contribute nothing can be left out.\<close>

lemma flat_text_filter: "flat_text fl = flat_text (filter (\<lambda>x. line_text (snd x) \<noteq> []) fl)"
  by (induction fl) auto

end
