(* ===== verification/Tasm_Main.thy ===== *)
theory Tasm_Main
  imports Tasm_Parser Cli Tasm_Binary Tasmc
begin

text \<open>
  The assembler as a whole, \<open>src/tasm.c\<close>: the command line, the source file, lexer and parser, the
  translation, and the files that are written. The file system is a parameter that gives the content
  of a file that can be opened. The result is the exit status and the files with their names and
  contents, in the order in which they are written: the program, and with the option \<open>-c\<close> the
  assembler text. A file that cannot be opened for writing is left out.

  The memory behind the file's content in its buffer is not written, so what it holds is a
  parameter: the source the lexer sees ends at the first zero byte in it.
\<close>

definition src_arena_capacity :: nat where "src_arena_capacity = 4096 * 16"

definition EXIT_FAILURE :: int where "EXIT_FAILURE = 1"

text \<open>A file that cannot be opened is closed nevertheless, which is undefined. The loop stops at the
  first byte 255 of the file, or at its end, which reads as that byte.\<close>

definition read_file_content :: "bytes option \<Rightarrow> bytes \<Rightarrow> (int + bytes) option" where
  "read_file_content f behind = do {
     fbs \<leftarrow> f;
     if fbs = [] then Some (Inl EXIT_FAILURE) else do {
       let content = takeWhile (\<lambda>b. b \<noteq> c_eof) fbs @ [c_eof];
       guard_c (length content \<le> src_arena_capacity);
       let memory = content @ take (src_arena_capacity - length content) behind;
       guard_c (0 \<in> set memory);
       Some (Inr (takeWhile (\<lambda>b. b \<noteq> 0) memory)) } }"

definition parse_source :: "bytes \<Rightarrow> (tasm_ast \<times> tasm_parser_t) option" where
  "parse_source src = do {
     lx \<leftarrow> tasm_lexer_init src;
     ps \<leftarrow> tasm_parser_init lx;
     tasm_parse_file ps }"

definition asm_file_name :: bytes where "asm_file_name = bytes_of ''out.asm''"

definition write_outputs ::
  "(nat \<Rightarrow> nat \<Rightarrow> u8) \<Rightarrow> cli_parsed_args_t \<Rightarrow> tasm_ast \<Rightarrow> tasm_translator_t \<Rightarrow> (bytes \<times> bytes) list option" where
  "write_outputs pad args ast tr = do {
     (bs, tr1) \<leftarrow> tasm_translator_generate_bin pad tr (clib_names args);
     oname \<leftarrow> output_name args;
     if compile args then do {
       (asm, printed) \<leftarrow> tasmc_compile_nasm ast;
       Some [(oname, bs), (asm_file_name, asm)] }
     else Some [(oname, bs)] }"

definition tasm_main ::
  "(bytes \<Rightarrow> bytes option) \<Rightarrow> bytes \<Rightarrow> (nat \<Rightarrow> nat \<Rightarrow> u8) \<Rightarrow> bytes list \<Rightarrow>
     (int \<times> (bytes \<times> bytes) list) option" where
  "tasm_main fs behind pad argv = do {
     (valid, args) \<leftarrow> cli_tasm_parse_command_line no_args argv;
     if \<not> valid then Some (EXIT_FAILURE, []) else do {
       fname \<leftarrow> file_name args;
       content \<leftarrow> read_file_content (fs fname) behind;
       case content of
         Inl n \<Rightarrow> Some (n, [])
       | Inr src \<Rightarrow> do {
           (ast, ps) \<leftarrow> parse_source src;
           if tasm_parser_is_err ps then Some (EXIT_FAILURE, []) else do {
             shown \<leftarrow> (if ast_show args then tasm_ast_show ast 0 else Some []);
             translated \<leftarrow> assemble_ast ast;
             case translated of
               Inl n \<Rightarrow> Some (n, [])
             | Inr tr \<Rightarrow>
                 if tasm_translator_is_err tr then Some (0, [])
                 else map_option (Pair 0) (write_outputs pad args ast tr) } } } }"

end
