(* ===== verification/Lexer_Props.thy ===== *)
theory Lexer_Props
  imports Tasm_Lexer
begin

text \<open>
  The scanning functions as functions of the source text that is left. \<open>lx_ok\<close> is the invariant of
  the lexer: the cursor lies inside the source, the three characters are those around it, and the
  source ends with the byte \<open>EOF\<close>. Each loop reads the longest prefix of characters of its class, and
  \<open>moved\<close> says how far the cursor went.
\<close>

definition lx_ok :: "tasm_lexer_t \<Rightarrow> bool" where
  "lx_ok lx \<longleftrightarrow> cursor lx < length (source_code lx) \<and> last (source_code lx) = c_eof \<and>
     current_char lx = source_code lx ! cursor lx \<and>
     prev_char lx = source_code lx ! (cursor lx - 1) \<and>
     src_at (source_code lx) (cursor lx + 1) = Some (next_char lx)"

definition rest :: "tasm_lexer_t \<Rightarrow> bytes" where
  "rest lx = drop (cursor lx) (source_code lx)"

definition moved :: "tasm_lexer_t \<Rightarrow> nat \<Rightarrow> tasm_lexer_t \<Rightarrow> bool" where
  "moved lx n lx' \<longleftrightarrow> lx_ok lx' \<and> source_code lx' = source_code lx \<and> peeked lx' = peeked lx \<and>
     cursor lx' = cursor lx + n"

lemma moved_refl: "lx_ok lx \<Longrightarrow> moved lx 0 lx"
  by (simp add: moved_def)

lemma moved_trans: "moved lx m lx1 \<Longrightarrow> moved lx1 n lx2 \<Longrightarrow> moved lx (m + n) lx2"
  by (simp add: moved_def)

lemma moved_rest: "moved lx n lx' \<Longrightarrow> rest lx' = drop n (rest lx)"
  by (simp add: moved_def rest_def add.commute)

lemma moved_ok: "moved lx n lx' \<Longrightarrow> lx_ok lx'"
  by (simp add: moved_def)

lemma rest_Cons: "lx_ok lx \<Longrightarrow> rest lx = current_char lx # tl (rest lx)"
  by (simp add: rest_def lx_ok_def Cons_nth_drop_Suc [symmetric])

lemma rest_tl: "tl (rest lx) = drop (cursor lx + 1) (source_code lx)"
  by (simp add: rest_def drop_Suc tl_drop)

lemma rest_next:
  assumes "lx_ok lx" and "tl (rest lx) \<noteq> []"
  shows "next_char lx = hd (tl (rest lx))"
  using assms by (simp add: lx_ok_def src_at_def rest_tl hd_drop_conv_nth)

lemma rest_last: "lx_ok lx \<Longrightarrow> rest lx \<noteq> [] \<and> last (rest lx) = c_eof"
  by (simp add: rest_def lx_ok_def)

lemma not_at_end:
  assumes "lx_ok lx" and "current_char lx \<noteq> c_eof"
  shows "cursor lx + 1 < length (source_code lx)"
proof (rule ccontr)
  assume "\<not> ?thesis"
  with assms(1) have "cursor lx = length (source_code lx) - 1" "source_code lx \<noteq> []" by (auto simp: lx_ok_def)
  with assms show False by (simp add: lx_ok_def last_conv_nth)
qed

lemma advance_moved:
  assumes "lx_ok lx" and "current_char lx \<noteq> c_eof"
  shows "\<exists>lx'. tasm_lexer_advance lx = Some lx' \<and> moved lx 1 lx'"
  using assms not_at_end [OF assms]
  by (auto simp: tasm_lexer_advance_def lx_ok_def moved_def src_at_def Let_def split: if_splits)

lemma advance_eof:
  assumes "lx_ok lx" and "current_char lx = c_eof"
  shows "tasm_lexer_advance lx = Some lx"
  using assms by (simp add: tasm_lexer_advance_def c_eof_def c_newline_def)

lemma collect_while_moved:
  assumes "lx_ok lx" and "\<not> P c_eof" and "n + length (takeWhile P (rest lx)) \<le> 128"
  shows "\<exists>lx'. collect_while P n lx = Some (takeWhile P (rest lx), lx') \<and>
    moved lx (length (takeWhile P (rest lx))) lx'"
  using assms
proof (induction "length (rest lx)" arbitrary: lx n)
  case 0
  then show ?case using rest_Cons by fastforce
next
  case (Suc k)
  note r = rest_Cons [OF Suc.prems(1)]
  show ?case
  proof (cases "P (current_char lx)")
    case False
    then have "takeWhile P (rest lx) = []" by (subst r) simp
    with False show ?thesis using moved_refl [OF Suc.prems(1)] by (simp add: collect_while.simps)
  next
    case True
    with Suc.prems(2) have "current_char lx \<noteq> c_eof" by auto
    from advance_moved [OF Suc.prems(1) this] obtain lx1 where
      a: "tasm_lexer_advance lx = Some lx1" "moved lx 1 lx1" by blast
    have r1: "rest lx1 = tl (rest lx)" using moved_rest [OF a(2)] by (simp add: drop_Suc)
    have t: "takeWhile P (rest lx) = current_char lx # takeWhile P (rest lx1)"
      using True by (subst r) (simp add: r1)
    have "k = length (rest lx1)" using Suc.hyps(2) by (simp add: r1)
    from Suc.hyps(1) [OF this moved_ok [OF a(2)] Suc.prems(2), of "n + 1"] Suc.prems(3) obtain lx2 where
      "collect_while P (n + 1) lx1 = Some (takeWhile P (rest lx1), lx2)"
      "moved lx1 (length (takeWhile P (rest lx1))) lx2" by (auto simp: t)
    with True a Suc.prems(3) moved_trans [OF a(2)] show ?thesis
      by (subst collect_while.simps) (auto simp: t)
  qed
qed

text \<open>The two loops that only skip.\<close>

locale skip_loop =
  fixes P :: "u8 \<Rightarrow> bool" and skip :: "tasm_lexer_t \<Rightarrow> tasm_lexer_t option"
  assumes stops: "\<not> P c_eof"
    and unfold: "skip lx = (if P (current_char lx) then Option.bind (tasm_lexer_advance lx) skip else Some lx)"
begin

lemma skip_moved:
  assumes "lx_ok lx"
  shows "\<exists>lx'. skip lx = Some lx' \<and> moved lx (length (takeWhile P (rest lx))) lx'"
  using assms
proof (induction "length (rest lx)" arbitrary: lx)
  case 0
  then show ?case using rest_Cons by fastforce
next
  case (Suc k)
  note r = rest_Cons [OF Suc.prems]
  show ?case
  proof (cases "P (current_char lx)")
    case False
    then show ?thesis using moved_refl [OF Suc.prems] by (subst r) (simp add: unfold)
  next
    case True
    with stops have "current_char lx \<noteq> c_eof" by auto
    from advance_moved [OF Suc.prems this] obtain lx1 where
      a: "tasm_lexer_advance lx = Some lx1" "moved lx 1 lx1" by blast
    have r1: "rest lx1 = tl (rest lx)" using moved_rest [OF a(2)] by (simp add: drop_Suc)
    have "k = length (rest lx1)" using Suc.hyps(2) by (simp add: r1)
    from Suc.hyps(1) [OF this moved_ok [OF a(2)]] obtain lx2 where
      s: "skip lx1 = Some lx2" "moved lx1 (length (takeWhile P (rest lx1))) lx2" by blast
    have "skip lx = Some lx2" using True a(1) s(1) by (simp add: unfold [of lx])
    moreover have "takeWhile P (rest lx) = current_char lx # takeWhile P (rest lx1)"
      using True by (subst r) (simp add: r1)
    ultimately show ?thesis using moved_trans [OF a(2) s(2)] by simp
  qed
qed

end

interpretation blanks: skip_loop "\<lambda>c. c = 32 \<or> c = 9" tasm_lexer_skip_whitespace
  by unfold_locales (simp_all add: c_eof_def tasm_lexer_skip_whitespace.simps)

interpretation comments: skip_loop "\<lambda>c. c \<noteq> c_newline \<and> c \<noteq> c_eof" tasm_lexer_skip_line
  by unfold_locales (simp_all add: tasm_lexer_skip_line.simps)

subsection \<open>Text files\<close>

text \<open>A text file: no zero and no \<open>EOF\<close> byte, a newline at its end, lines of at most 126 characters.\<close>

definition text_source :: "bytes \<Rightarrow> bool" where
  "text_source s \<longleftrightarrow> (\<exists>body. s = body @ [c_newline, c_eof] \<and> 0 \<notin> set body \<and> c_eof \<notin> set body) \<and>
     (\<forall>k. length (takeWhile (\<lambda>c. c \<noteq> c_newline) (drop k s)) \<le> 126)"

definition lexable :: "tasm_lexer_t \<Rightarrow> bool" where
  "lexable lx \<longleftrightarrow> lx_ok lx \<and> peeked lx = 0 \<and> text_source (source_code lx)"

lemma moved_lexable: "lexable lx \<Longrightarrow> moved lx n lx' \<Longrightarrow> lexable lx'"
  by (simp add: lexable_def moved_def)

lemma init_lexable:
  assumes "text_source s"
  shows "\<exists>lx. tasm_lexer_init s = Some lx \<and> lexable lx \<and> source_code lx = s \<and> cursor lx = 0"
proof -
  from assms obtain body where "s = body @ [c_newline, c_eof]" by (auto simp: text_source_def)
  with assms show ?thesis
    by (cases body; cases "tl body")
      (auto simp: tasm_lexer_init_def src_at_def lexable_def lx_ok_def nth_append nth_Cons split: nat.splits)
qed

text \<open>The rest of the current line.\<close>

definition line_left :: "tasm_lexer_t \<Rightarrow> bytes" where
  "line_left lx = takeWhile (\<lambda>c. c \<noteq> c_newline) (rest lx)"

lemma line_left_bound: "lexable lx \<Longrightarrow> length (line_left lx) \<le> 126"
  by (simp add: lexable_def text_source_def line_left_def rest_def)

lemma word_bound:
  assumes "lexable lx" and "\<not> P c_newline"
  shows "length (takeWhile P (rest lx)) \<le> 126"
proof -
  have "length (takeWhile P xs) \<le> length (takeWhile (\<lambda>c. c \<noteq> c_newline) xs)" for xs :: bytes
    using assms(2) by (induction xs) auto
  then show ?thesis using line_left_bound [OF assms(1)] le_trans by (fastforce simp: line_left_def)
qed

lemma before_newline:
  assumes "lexable lx" and "current_char lx \<noteq> c_eof"
  shows "c_eof \<notin> set (line_left lx)" and "cursor lx + length (line_left lx) + 1 < length (source_code lx)"
    and "source_code lx ! (cursor lx + length (line_left lx)) = c_newline"
proof -
  from assms(1) obtain body where s: "source_code lx = body @ [c_newline, c_eof]" "c_eof \<notin> set body"
    by (auto simp: lexable_def text_source_def)
  have ok: "lx_ok lx" using assms(1) by (simp add: lexable_def)
  have k: "cursor lx \<le> length body" using not_at_end [OF ok assms(2)] by (simp add: s)
  let ?l = "drop (cursor lx) body"
  have r: "rest lx = ?l @ [c_newline, c_eof]" using k by (simp add: rest_def s)
  have tw: "takeWhile (\<lambda>c. c \<noteq> c_newline) (l @ [c_newline, c_eof]) = takeWhile (\<lambda>c. c \<noteq> c_newline) l" for l
    by (induction l) simp_all
  have l: "line_left lx = takeWhile (\<lambda>c. c \<noteq> c_newline) ?l"
    by (simp only: line_left_def r tw)
  show "c_eof \<notin> set (line_left lx)"
    using s(2) set_takeWhileD in_set_dropD unfolding l by fast
  have "length (line_left lx) \<le> length ?l" by (simp only: l length_takeWhile_le)
  with k show b: "cursor lx + length (line_left lx) + 1 < length (source_code lx)" by (simp add: s)
  have "length (line_left lx) < length (rest lx)" using b by (simp add: rest_def)
  from nth_length_takeWhile [OF this [unfolded line_left_def]]
  show "source_code lx ! (cursor lx + length (line_left lx)) = c_newline"
    using b by (simp add: line_left_def rest_def)
qed

subsection \<open>Strings\<close>

lemma peek_line_counts:
  assumes "lexable lx" and "current_char lx \<noteq> c_eof" and "p \<le> length (line_left lx)"
  shows "peek_line n (lx\<lparr>peeked := p\<rparr>) =
    Some (n + (length (line_left lx) - p), lx\<lparr>peeked := length (line_left lx) + 1\<rparr>)"
  using assms(3)
proof (induction "length (line_left lx) - p" arbitrary: p n)
  case 0
  then have "p = length (line_left lx)" by simp
  with before_newline [OF assms(1,2)] show ?case
    by (subst peek_line.simps)
      (simp add: tasm_lexer_peek_def tasm_lexer_peek_upgraded_def src_at_def Let_def add.commute)
next
  case (Suc k)
  then have p: "p < length (line_left lx)" by simp
  note b = before_newline [OF assms(1,2)]
  have "line_left lx ! p = source_code lx ! (cursor lx + p)"
    using p b(2) by (simp add: line_left_def takeWhile_nth rest_def)
  moreover have "line_left lx ! p \<in> set (line_left lx)" using p by simp
  ultimately have "source_code lx ! (cursor lx + p) \<noteq> c_eof" "source_code lx ! (cursor lx + p) \<noteq> c_newline"
    using b(1) by (auto simp: line_left_def dest: set_takeWhileD)
  then have "peek_line n (lx\<lparr>peeked := p\<rparr>) = peek_line (n + 1) (lx\<lparr>peeked := p + 1\<rparr>)"
    using p b(2) by (subst peek_line.simps)
      (simp add: tasm_lexer_peek_def tasm_lexer_peek_upgraded_def src_at_def Let_def add.commute)
  also have "\<dots> = Some (n + 1 + (length (line_left lx) - (p + 1)), lx\<lparr>peeked := length (line_left lx) + 1\<rparr>)"
    using Suc p by (intro Suc.hyps(1)) simp_all
  finally show ?case using p by simp
qed

lemma peek_line_resets:
  assumes "lexable lx" and "current_char lx \<noteq> c_eof" and "0 < cursor lx"
  shows "peek_line 0 lx = Some (length (line_left lx), lx\<lparr>peeked := length (line_left lx) + 1\<rparr>)"
    and "tasm_lexer_peek_reset (lx\<lparr>peeked := length (line_left lx) + 1\<rparr>) = Some lx"
proof -
  have "lx\<lparr>peeked := 0\<rparr> = lx" using assms(1) by (simp add: lexable_def)
  with peek_line_counts [OF assms(1,2), of 0 0]
  show "peek_line 0 lx = Some (length (line_left lx), lx\<lparr>peeked := length (line_left lx) + 1\<rparr>)" by simp
  have "cursor lx - 1 < length (source_code lx)" using assms(1) by (auto simp: lexable_def lx_ok_def)
  with before_newline(2) [OF assms(1,2)] assms(3) \<open>lx\<lparr>peeked := 0\<rparr> = lx\<close>
  show "tasm_lexer_peek_reset (lx\<lparr>peeked := length (line_left lx) + 1\<rparr>) = Some lx"
    by (simp add: tasm_lexer_peek_reset_def tasm_lexer_peek_upgraded_def src_at_def Let_def)
qed

text \<open>The loop over the characters of a string: it ends, has not read less than before, and its result
  is at most one character longer than the rest of the line was.\<close>

lemma escape_bound: "length (case escape c of None \<Rightarrow> acc | Some b \<Rightarrow> acc @ [b]) \<le> length acc + 1"
  by (simp split: option.split)

lemma collect_str_from_moved:
  assumes "lx_ok lx" and "line_end \<le> 126" and "length acc \<le> line_end + 1"
  shows "\<exists>v lx' n. collect_str_from line_end acc lx = Some (v, lx') \<and> moved lx n lx' \<and>
    length v \<le> line_end + 1 \<and>
    (current_char lx \<noteq> c_quote \<and> current_char lx \<noteq> c_eof \<and> length acc \<le> line_end \<longrightarrow> 0 < n)"
  using assms(1,3)
proof (induction "length (rest lx) + (line_end + 1 - length acc)" arbitrary: lx acc rule: less_induct)
  case less
  note ok = less.prems(1)
  show ?case
  proof (cases "current_char lx = c_quote \<or> line_end < length acc")
    case True
    then have "collect_str_from line_end acc lx = Some (acc, lx)" by (simp add: collect_str_from.simps)
    then show ?thesis using moved_refl [OF ok] less.prems(2) True by (intro exI conjI) auto
  next
    case False
    then have len: "length acc \<le> line_end" "length acc < 128" using assms(2) by auto
    let ?c = "current_char lx"
    show ?thesis
    proof (cases "?c = c_eof")
      case eof: True
      then have "?c \<noteq> 92" by (simp add: c_eof_def)
      with False len eof have c: "collect_str_from line_end acc lx = collect_str_from line_end (acc @ [?c]) lx"
        using advance_eof [OF ok eof] by (subst collect_str_from.simps) (simp del: not_le)
      have "length (rest lx) + (line_end + 1 - length (acc @ [?c])) < length (rest lx) + (line_end + 1 - length acc)"
        "length (acc @ [?c]) \<le> line_end + 1" using len by simp_all
      from less.hyps [OF this(1) ok this(2)] obtain v lx' n where
        "collect_str_from line_end (acc @ [?c]) lx = Some (v, lx')" "moved lx n lx'" "length v \<le> line_end + 1"
        by blast
      with eof show ?thesis by (simp add: c) blast
    next
      case ne: False
      from advance_moved [OF ok ne] obtain lx1 where a: "tasm_lexer_advance lx = Some lx1" "moved lx 1 lx1"
        by blast
      note ok1 = moved_ok [OF a(2)]
      have r1: "length (rest lx1) < length (rest lx)"
        using moved_rest [OF a(2)] rest_Cons [OF ok] by (cases "rest lx") auto
      show ?thesis
      proof (cases "?c = 92")
        case True
        let ?acc = "case escape (current_char lx1) of None \<Rightarrow> acc | Some b \<Rightarrow> acc @ [b]"
        obtain lx2 m where b: "tasm_lexer_advance lx1 = Some lx2" "moved lx1 m lx2"
          using advance_moved [OF ok1] advance_eof [OF ok1] moved_refl [OF ok1] by blast
        have "length (rest lx2) \<le> length (rest lx1)" using moved_rest [OF b(2)] by simp
        moreover have "length acc \<le> length ?acc" "length ?acc \<le> line_end + 1"
          using len escape_bound [of acc "current_char lx1"] by (simp_all split: option.split)
        ultimately have "length (rest lx2) + (line_end + 1 - length ?acc) < length (rest lx) + (line_end + 1 - length acc)"
          "length ?acc \<le> line_end + 1" using r1 by linarith+
        from less.hyps [OF this(1) moved_ok [OF b(2)] this(2)] obtain v lx' n where
          v: "collect_str_from line_end ?acc lx2 = Some (v, lx')" "moved lx2 n lx'" "length v \<le> line_end + 1"
          by blast
        have "collect_str_from line_end acc lx = Some (v, lx')"
          using True False len a(1) b(1) v(1)
          by (subst collect_str_from.simps) (simp del: not_le split: option.splits)
        moreover have "moved lx (1 + m + n) lx'" by (rule moved_trans [OF moved_trans [OF a(2) b(2)] v(2)])
        ultimately show ?thesis using v(3) by auto
      next
        case plain: False
        have "length (rest lx1) + (line_end + 1 - length (acc @ [?c])) < length (rest lx) + (line_end + 1 - length acc)"
          "length (acc @ [?c]) \<le> line_end + 1" using r1 len by simp_all
        from less.hyps [OF this(1) ok1 this(2)] obtain v lx' n where
          v: "collect_str_from line_end (acc @ [?c]) lx1 = Some (v, lx')" "moved lx1 n lx'" "length v \<le> line_end + 1"
          by blast
        have "collect_str_from line_end acc lx = Some (v, lx')"
          using plain False len a(1) v(1) by (subst collect_str_from.simps) (simp del: not_le)
        with moved_trans [OF a(2) v(2)] v(3) show ?thesis by auto
      qed
    qed
  qed
qed

subsection \<open>One token\<close>

text \<open>What a call of the scanner guarantees: it returns, the lexer stays inside the source, and it has
  read something unless the source is at its end.\<close>

definition scans :: "lex_result \<Rightarrow> tasm_lexer_t \<Rightarrow> bool" where
  "scans r lx \<longleftrightarrow> (\<exists>t lx' n. r = Some (t, lx') \<and> moved lx n lx' \<and>
     (if tok_type t = TOKEN_EOF then current_char lx' = c_eof else 0 < n))"

lemma scansI:
  "r = Some (t, lx') \<Longrightarrow> moved lx n lx' \<Longrightarrow> tok_type t \<noteq> TOKEN_EOF \<Longrightarrow> 0 < n \<Longrightarrow> scans r lx"
  unfolding scans_def by (intro exI conjI) auto

lemma scans_after: "moved lx n lx1 \<Longrightarrow> scans r lx1 \<Longrightarrow> scans r lx"
  unfolding scans_def using moved_trans by (fastforce split: if_splits)

lemma id_type_plain:
  "id_type v \<noteq> TOKEN_EOF" "id_type v \<noteq> TOKEN_NONE"
proof -
  have "t \<noteq> TOKEN_EOF \<and> t \<noteq> TOKEN_NONE" if "(k, t) \<in> set keyword_table" for k t
    using that by (auto simp: keyword_table_def)
  then show "id_type v \<noteq> TOKEN_EOF" "id_type v \<noteq> TOKEN_NONE"
    by (auto simp: id_type_def split: option.splits dest!: map_of_SomeD)
qed

lemma type_create [simp]: "tok_type (tasm_token_create t v) = t" "tok_value (tasm_token_create t v) = v"
  by (simp_all add: tasm_token_create_def)

lemma word_taken:
  assumes "lexable lx" and "P (current_char lx)"
  shows "takeWhile P (rest lx) \<noteq> []"
  using rest_Cons [of lx] assms by (cases "rest lx") (auto simp: lexable_def)

lemma collect_while_word:
  assumes "lexable lx" and "\<not> P c_newline" and "\<not> P c_eof" and "n \<le> 1"
  shows "\<exists>lx'. collect_while P n lx = Some (takeWhile P (rest lx), lx') \<and>
    moved lx (length (takeWhile P (rest lx))) lx' \<and> length (takeWhile P (rest lx)) \<le> 126"
  using collect_while_moved [of lx P n] word_bound [of lx P, OF assms(1,2)] assms by (auto simp: lexable_def)

lemma id_scans:
  assumes "lexable lx" and "is_id_char (current_char lx)"
  shows "scans (tasm_lexer_collect_id lx) lx"
proof -
  have "\<not> is_id_char c_newline" "\<not> is_id_char c_eof" by (simp_all add: is_id_char_def char_defs)
  from collect_while_word [OF assms(1) this, of 0] obtain lx' where
    c: "collect_while is_id_char 0 lx = Some (takeWhile is_id_char (rest lx), lx')"
    "moved lx (length (takeWhile is_id_char (rest lx))) lx'" "length (takeWhile is_id_char (rest lx)) \<le> 126" by auto
  with word_taken [of lx is_id_char, OF assms] show ?thesis
    by (intro scansI) (auto simp: tasm_lexer_collect_id_def id_type_plain)
qed

lemma advance_two:
  assumes "lexable lx" and "current_char lx \<noteq> c_eof" and "next_char lx \<noteq> 0" and "next_char lx \<noteq> c_eof"
  shows "\<exists>lx1 lx2. tasm_lexer_advance lx = Some lx1 \<and> tasm_lexer_advance lx1 = Some lx2 \<and> moved lx 2 lx2"
proof -
  have ok: "lx_ok lx" using assms(1) by (simp add: lexable_def)
  from advance_moved [OF ok assms(2)] obtain lx1 where a: "tasm_lexer_advance lx = Some lx1" "moved lx 1 lx1"
    by blast
  have "current_char lx1 = next_char lx"
    using a(2) not_at_end [OF ok assms(2)] ok by (auto simp: moved_def lx_ok_def src_at_def split: if_splits)
  with advance_moved [OF moved_ok [OF a(2)]] assms(4) obtain lx2 where
    "tasm_lexer_advance lx1 = Some lx2" "moved lx1 1 lx2" by auto
  with a moved_trans [OF a(2)] show ?thesis by (auto simp: numeral_2_eq_2)
qed

text \<open>Digits of another base, behind their prefix.\<close>

lemma based_scans:
  assumes "lexable lx" and "current_char lx = 48" and "next_char lx \<noteq> 0" and "next_char lx \<noteq> c_eof"
    and "\<not> P c_newline" and "\<not> P c_eof" and "t \<noteq> TOKEN_EOF"
  shows "scans (do {
     lx1 \<leftarrow> tasm_lexer_advance lx;
     lx2 \<leftarrow> tasm_lexer_advance lx1;
     (v, lx3) \<leftarrow> collect_while P 0 lx2;
     guard_c (length v < 128);
     Some (tasm_token_create t (Some v), lx3) }) lx"
proof -
  have "current_char lx \<noteq> c_eof" using assms(2) by (simp add: c_eof_def)
  from advance_two [OF assms(1) this assms(3,4)] obtain lx1 lx2 where
    a: "tasm_lexer_advance lx = Some lx1" "tasm_lexer_advance lx1 = Some lx2" "moved lx 2 lx2" by blast
  from collect_while_word [of lx2 P 0, OF moved_lexable [OF assms(1) a(3)] assms(5,6)] obtain lx3 where
    c: "collect_while P 0 lx2 = Some (takeWhile P (rest lx2), lx3)"
    "moved lx2 (length (takeWhile P (rest lx2))) lx3" "length (takeWhile P (rest lx2)) \<le> 126" by auto
  with a assms(7) show ?thesis
    by (intro scansI [OF _ moved_trans [OF a(3) c(2)]]) auto
qed

lemma takeWhile_drop: "takeWhile P xs @ drop (length (takeWhile P xs)) xs = xs"
  by (induction xs) simp_all

lemma number_scans:
  assumes "lexable lx" and "c_isdigit (current_char lx)"
  shows "scans (tasm_lexer_collect_number lx) lx"
proof -
  have d: "\<not> c_isdigit c_newline" "\<not> c_isdigit c_eof" by (simp_all add: char_defs)
  let ?v = "takeWhile c_isdigit (rest lx)"
  from collect_while_word [of lx c_isdigit 0, OF assms(1) d] obtain lx1 where
    c: "collect_while c_isdigit 0 lx = Some (?v, lx1)" "moved lx (length ?v) lx1" "length ?v \<le> 126" by auto
  have ne: "0 < length ?v" using word_taken [of lx c_isdigit, OF assms] by simp
  show ?thesis
  proof (cases "current_char lx1 = 46")
    case False
    with c ne show ?thesis by (intro scansI [OF _ c(2)]) (auto simp: tasm_lexer_collect_number_def)
  next
    case True
    note lx1 = moved_lexable [OF assms(1) c(2)]
    from True have "current_char lx1 \<noteq> c_eof" by (simp add: c_eof_def)
    from advance_moved [OF moved_ok [OF c(2)] this] obtain lx2 where
      a: "tasm_lexer_advance lx1 = Some lx2" "moved lx1 1 lx2" by blast
    note lx2 = moved_lexable [OF lx1 a(2)]
    let ?w = "takeWhile c_isdigit (rest lx2)" and ?P = "\<lambda>c. c_isdigit c \<or> c = 46"
    have r1: "rest lx1 = 46 # rest lx2"
      using rest_Cons [OF moved_ok [OF c(2)]] moved_rest [OF a(2)] True by (simp add: drop_Suc)
    have split: "takeWhile ?P (x @ 46 # y) = x @ 46 # takeWhile ?P y" if "\<forall>b \<in> set x. c_isdigit b" for x y
      using that by (induction x) simp_all
    have sub: "length (takeWhile c_isdigit y) \<le> length (takeWhile ?P y)" for y by (induction y) simp_all
    have "rest lx = ?v @ rest lx1" using moved_rest [OF c(2)] takeWhile_drop [of c_isdigit "rest lx"] by simp
    then have "rest lx = ?v @ 46 # rest lx2" by (simp only: r1)
    moreover have "\<forall>b \<in> set ?v. c_isdigit b" by (auto dest: set_takeWhileD)
    ultimately have "takeWhile ?P (rest lx) = ?v @ 46 # takeWhile ?P (rest lx2)"
      using split [of ?v "rest lx2"] by presburger
    moreover have "length (takeWhile ?P (rest lx)) \<le> 126"
      using word_bound [of lx ?P, OF assms(1)] by (simp add: char_defs)
    ultimately have b: "length ?v + 1 + length ?w \<le> 126" using sub [of "rest lx2"] by simp
    from collect_while_moved [of lx2 c_isdigit "length ?v + 1"] lx2 d(2) b obtain lx3 where
      e: "collect_while c_isdigit (length ?v + 1) lx2 = Some (?w, lx3)" "moved lx2 (length ?w) lx3"
      by (auto simp: lexable_def)
    show ?thesis
      using c(1) True a(1) e(1) b ne
      by (intro scansI [OF _ moved_trans [OF moved_trans [OF c(2) a(2)] e(2)]])
        (auto simp: tasm_lexer_collect_number_def)
  qed
qed

lemma str_scans:
  assumes "lexable lx" and "current_char lx \<noteq> c_quote" and "current_char lx \<noteq> c_eof" and "0 < cursor lx"
  shows "scans (tasm_lexer_collect_str lx) lx"
proof -
  from collect_str_from_moved [of lx "length (line_left lx)" "[]"] line_left_bound [OF assms(1)] assms obtain v lx' n
    where s: "collect_str_from (length (line_left lx)) [] lx = Some (v, lx')" "moved lx n lx'"
      "length v \<le> length (line_left lx) + 1" "0 < n" by (auto simp: lexable_def)
  with line_left_bound [OF assms(1)] peek_line_resets [OF assms(1,3,4)] show ?thesis
    by (intro scansI [OF _ s(2)]) (auto simp: tasm_lexer_collect_str_def)
qed

lemma char_scans:
  assumes "lexable lx" and "current_char lx \<noteq> c_eof"
  shows "scans (tasm_lexer_collect_char lx) lx"
proof -
  have ok: "lx_ok lx" using assms(1) by (simp add: lexable_def)
  from advance_moved [OF ok assms(2)] obtain lx1 where a: "tasm_lexer_advance lx = Some lx1" "moved lx 1 lx1"
    by blast
  obtain lx2 m where b: "tasm_lexer_advance lx1 = Some lx2" "moved lx1 m lx2"
    using advance_moved [OF moved_ok [OF a(2)]] advance_eof [OF moved_ok [OF a(2)]]
      moved_refl [OF moved_ok [OF a(2)]] by blast
  show ?thesis
  proof (cases "current_char lx1 = c_apost")
    case True
    with a show ?thesis by (intro scansI [OF _ a(2)]) (auto simp: tasm_lexer_collect_char_def)
  next
    case False
    with a b show ?thesis
      by (intro scansI [OF _ moved_trans [OF a(2) b(2)]]) (auto simp: tasm_lexer_collect_char_def)
  qed
qed

lemma one_char_scans:
  assumes "lexable lx"
  shows "scans (lexer_collect_one_chars lx) lx"
proof -
  have ok: "lx_ok lx" using assms by (simp add: lexable_def)
  let ?P = "\<lambda>c. c \<noteq> c_newline \<and> c \<noteq> c_eof"
  show ?thesis
  proof (cases "current_char lx = 59")
    case True
    from comments.skip_moved [OF ok] obtain lx1 where
      s: "tasm_lexer_skip_line lx = Some lx1" "moved lx (length (takeWhile ?P (rest lx))) lx1" by blast
    have "takeWhile ?P (rest lx) \<noteq> []"
      using True word_taken [of lx ?P, OF assms] by (simp add: char_defs)
    with True s show ?thesis by (intro scansI [OF _ s(2)]) (auto simp: lexer_collect_one_chars_def)
  next
    case nc: False
    show ?thesis
    proof (cases "current_char lx = c_eof")
      case True
      then show ?thesis
        using advance_eof [OF ok True] moved_refl [OF ok] unfolding scans_def
        by (intro exI conjI) (auto simp: lexer_collect_one_chars_def Let_def char_defs)
    next
      case False
      from advance_moved [OF ok False] obtain lx1 where a: "tasm_lexer_advance lx = Some lx1" "moved lx 1 lx1"
        by blast
      with nc False show ?thesis
        by (intro scansI [OF _ a(2)]) (auto simp: lexer_collect_one_chars_def Let_def split: if_splits)
    qed
  qed
qed

theorem next_token_scans:
  assumes "lexable lx"
  shows "scans (tasm_lexer_get_next_token lx) lx"
proof -
  have ok: "lx_ok lx" using assms by (simp add: lexable_def)
  let ?str = "prev_char lx = c_quote \<and> current_char lx \<noteq> c_quote \<and> current_char lx \<noteq> c_newline \<and>
    current_char lx \<noteq> c_eof \<and> current_char lx \<noteq> c_apost"
  let ?chr = "prev_char lx = c_apost \<and> current_char lx \<noteq> c_newline \<and> current_char lx \<noteq> c_eof \<and>
    current_char lx \<noteq> c_quote"
  consider ?str | "\<not> ?str" ?chr | "\<not> ?str" "\<not> ?chr" by blast
  then show ?thesis
  proof cases
    case 1
    have "0 < cursor lx" using ok 1 by (cases "cursor lx") (auto simp: lx_ok_def)
    with 1 str_scans [OF assms] show ?thesis by (simp add: tasm_lexer_get_next_token_def Let_def)
  next
    case 2
    with char_scans [OF assms] show ?thesis by (simp add: tasm_lexer_get_next_token_def Let_def)
  next
    case 3
    from blanks.skip_moved [OF ok] obtain lx1 n where
      s: "tasm_lexer_skip_whitespace lx = Some lx1" "moved lx n lx1" by blast
    note lx1 = moved_lexable [OF assms s(2)]
    let ?c = "current_char lx1" and ?n = "next_char lx1"
    have nx: "?n \<noteq> 0 \<and> ?n \<noteq> c_eof" if "?n \<in> set [98, 66, 120, 88]"
      using that by (auto simp: c_eof_def)
    have bin: "scans (tasm_lexer_collect_binary_number lx1) lx1" if "isbinprefix ?c ?n"
      unfolding tasm_lexer_collect_binary_number_def using that nx
      by (intro based_scans [OF lx1]) (auto simp: isbinprefix_def char_defs)
    have hex: "scans (tasm_lexer_collect_hex_number lx1) lx1" if "ishexprefix ?c ?n"
      unfolding tasm_lexer_collect_hex_number_def using that nx
      by (intro based_scans [OF lx1]) (auto simp: ishexprefix_def char_defs)
    have idc: "is_id_char ?c" if "c_isalpha ?c \<or> ?c = 95" using that by (auto simp: is_id_char_def c_isalnum_def)
    have "scans (if c_isalpha ?c \<or> ?c = 95 then tasm_lexer_collect_id lx1
        else if isbinprefix ?c ?n then tasm_lexer_collect_binary_number lx1
        else if ishexprefix ?c ?n then tasm_lexer_collect_hex_number lx1
        else if c_isdigit ?c then tasm_lexer_collect_number lx1
        else lexer_collect_one_chars lx1) lx1"
      using id_scans [OF lx1 idc] bin hex number_scans [OF lx1] one_char_scans [OF lx1] by (simp del: Un_iff)
    from scans_after [OF s(2) this] s(1) show ?thesis
      unfolding tasm_lexer_get_next_token_def Let_def if_not_P [OF 3(1)] if_not_P [OF 3(2)] by simp
  qed
qed

text \<open>A token of any type but \<open>TOKEN_NONE\<close> has a text.\<close>

definition token_ok :: "tasm_token_t \<Rightarrow> bool" where
  "token_ok t \<longleftrightarrow> (tok_type t \<noteq> TOKEN_NONE \<longrightarrow> tok_value t \<noteq> None)"

lemma token_ok_create [simp]: "token_ok (tasm_token_create t (Some v))" "token_ok (tasm_token_create TOKEN_NONE None)"
  by (simp_all add: token_ok_def)

definition gives_token :: "lex_result \<Rightarrow> bool" where
  "gives_token r \<longleftrightarrow> (\<forall>t lx. r = Some (t, lx) \<longrightarrow> token_ok t)"

lemma gives_token_simps [simp]:
  "gives_token None" "gives_token (Some (t, lx)) = token_ok t"
  "(\<And>x. gives_token (f x)) \<Longrightarrow> gives_token (Option.bind r f)"
  "gives_token a \<Longrightarrow> gives_token b \<Longrightarrow> gives_token (if c then a else b)"
  by (auto simp: gives_token_def)

lemma token_ok_if [simp]: "token_ok a \<Longrightarrow> token_ok b \<Longrightarrow> token_ok (if c then a else b)"
  by simp

lemma collectors_give_token [simp]:
  "gives_token (tasm_lexer_collect_str lx)" "gives_token (tasm_lexer_collect_char lx)"
  "gives_token (tasm_lexer_collect_id lx)" "gives_token (tasm_lexer_collect_number lx)"
  "gives_token (tasm_lexer_collect_hex_number lx)" "gives_token (tasm_lexer_collect_binary_number lx)"
  "gives_token (lexer_collect_one_chars lx)"
  by (simp_all add: tasm_lexer_collect_str_def tasm_lexer_collect_char_def tasm_lexer_collect_id_def
      tasm_lexer_collect_number_def tasm_lexer_collect_hex_number_def tasm_lexer_collect_binary_number_def
      lexer_collect_one_chars_def Let_def split_def del: if_split)

lemma next_token_ok:
  assumes "tasm_lexer_get_next_token lx = Some (t, lx')"
  shows "token_ok t"
proof -
  have "gives_token (tasm_lexer_get_next_token lx)"
    by (simp add: tasm_lexer_get_next_token_def Let_def del: if_split)
  with assms show ?thesis by (simp add: gives_token_def)
qed

end
