(* ===== verification/Lexer_Tokens.thy ===== *)
theory Lexer_Tokens
  imports Lexer_Props
begin

text \<open>
  The token at the front of the text that is left, for a lexer that is not behind a quote: blanks
  are skipped, then the longest name, number or single character is read. A newline and a
  closing quote are read as what they are, whatever stands before them.
\<close>

definition quiet :: "tasm_lexer_t \<Rightarrow> bool" where
  "quiet lx \<longleftrightarrow> lexable lx \<and>
     (current_char lx = c_newline \<or> current_char lx = c_quote \<or>
      prev_char lx \<noteq> c_quote \<and> prev_char lx \<noteq> c_apost)"

text \<open>\<open>lexes lx t s\<close>: the next token is \<open>t\<close>, the text left behind it is \<open>s\<close>, and no quote was read.\<close>

definition lexes :: "tasm_lexer_t \<Rightarrow> tasm_token_t \<Rightarrow> bytes \<Rightarrow> tasm_lexer_t \<Rightarrow> bool" where
  "lexes lx t s lx' \<longleftrightarrow> tasm_lexer_get_next_token lx = Some (t, lx') \<and> quiet lx' \<and> rest lx' = s"

lemma lx_ok_prev: "lx_ok lx \<Longrightarrow> prev_char lx = source_code lx ! (cursor lx - 1)"
  by (simp add: lx_ok_def)

lemma moved_prev:
  assumes "moved lx n lx'" and "0 < n"
  shows "prev_char lx' = rest lx ! (n - 1)"
proof -
  from assms(1) have m: "cursor lx' < length (source_code lx')" "source_code lx' = source_code lx"
    "cursor lx' = cursor lx + n" unfolding moved_def lx_ok_def by blast+
  have "prev_char lx' = source_code lx ! (cursor lx + n - 1)"
    using lx_ok_prev [OF moved_ok [OF assms(1)]] by (simp only: m(2,3))
  moreover have "rest lx ! (n - 1) = source_code lx ! (cursor lx + (n - 1))"
    using m assms(2) by (simp add: rest_def)
  ultimately show ?thesis using assms(2) by simp
qed

lemma moved_quiet:
  assumes "quiet lx" and "moved lx n lx'" and "n \<noteq> 0 \<Longrightarrow> rest lx ! (n - 1) \<noteq> c_quote \<and> rest lx ! (n - 1) \<noteq> c_apost"
  shows "quiet lx'"
proof -
  have l: "lexable lx'" using moved_lexable assms(1,2) by (auto simp: quiet_def)
  have "prev_char lx' = prev_char lx \<and> current_char lx' = current_char lx" if "n = 0"
    using assms(1,2) that by (auto simp: quiet_def lexable_def moved_def lx_ok_def)
  with l assms(1,3) moved_prev [OF assms(2)] show ?thesis by (cases "n = 0") (simp_all add: quiet_def)
qed

lemma moved_word:
  assumes "quiet lx" and "moved lx (length (takeWhile P (rest lx))) lx'" and "\<not> P c_quote" "\<not> P c_apost"
  shows "quiet lx'" and "rest lx' = dropWhile P (rest lx)"
proof -
  let ?n = "length (takeWhile P (rest lx))"
  have "P (rest lx ! (?n - 1))" if "?n \<noteq> 0"
    using that takeWhile_nth [of "?n - 1" P "rest lx"] nth_mem [of "?n - 1" "takeWhile P (rest lx)"]
    by (auto dest: set_takeWhileD)
  with assms(3,4) show "quiet lx'" by (intro moved_quiet [OF assms(1,2)]) metis
  show "rest lx' = dropWhile P (rest lx)"
    by (simp add: moved_rest [OF assms(2)] dropWhile_eq_drop)
qed

abbreviation blank :: "u8 \<Rightarrow> bool" where "blank c \<equiv> c = 32 \<or> c = 9"

text \<open>Behind the blanks the rest of \<open>tasm_lexer_get_next_token\<close> runs.\<close>

definition plain_token :: "tasm_lexer_t \<Rightarrow> lex_result" where
  "plain_token lx =
     (let c = current_char lx in
      if c_isalpha c \<or> c = 95 then tasm_lexer_collect_id lx
      else if isbinprefix c (next_char lx) then tasm_lexer_collect_binary_number lx
      else if ishexprefix c (next_char lx) then tasm_lexer_collect_hex_number lx
      else if c_isdigit c then tasm_lexer_collect_number lx
      else lexer_collect_one_chars lx)"

lemma quiet_branch:
  assumes "quiet lx"
  shows "tasm_lexer_get_next_token lx = Option.bind (tasm_lexer_skip_whitespace lx) plain_token"
proof -
  let ?c = "current_char lx"
  have "\<not> (prev_char lx = c_quote \<and> ?c \<noteq> c_quote \<and> ?c \<noteq> c_newline \<and> ?c \<noteq> c_eof \<and> ?c \<noteq> c_apost)"
    "\<not> (prev_char lx = c_apost \<and> ?c \<noteq> c_newline \<and> ?c \<noteq> c_eof \<and> ?c \<noteq> c_quote)"
    using assms by (auto simp: quiet_def)
  then show ?thesis
    unfolding tasm_lexer_get_next_token_def Let_def by (simp only: if_False plain_token_def [abs_def] Let_def)
qed

lemma next_token_plain:
  assumes "quiet lx"
  shows "\<exists>lx1. tasm_lexer_get_next_token lx = plain_token lx1 \<and> quiet lx1 \<and> rest lx1 = dropWhile blank (rest lx)"
proof -
  have "lx_ok lx" using assms by (simp add: quiet_def lexable_def)
  from blanks.skip_moved [OF this] obtain lx1 where s: "tasm_lexer_skip_whitespace lx = Some lx1"
    "moved lx (length (takeWhile blank (rest lx))) lx1" by blast
  have "tasm_lexer_get_next_token lx = plain_token lx1"
    using quiet_branch [OF assms] s(1) by (simp add: plain_token_def Let_def)
  with moved_word [OF assms s(2)] show ?thesis by (auto simp: char_defs)
qed

lemma quiet_current:
  assumes "quiet lx" and "rest lx = c # s"
  shows "current_char lx = c" and "s \<noteq> [] \<Longrightarrow> next_char lx = hd s" and "lexable lx" and "lx_ok lx"
  using assms rest_Cons [of lx] rest_next [of lx] by (auto simp: quiet_def lexable_def)

lemma lexes_id:
  assumes "quiet lx" and "dropWhile blank (rest lx) = c # s" and "c_isalpha c \<or> c = 95"
  shows "\<exists>lx'. lexes lx (tasm_token_create (id_type (takeWhile is_id_char (c # s))) (Some (takeWhile is_id_char (c # s))))
    (dropWhile is_id_char s) lx'"
proof -
  from next_token_plain [OF assms(1)] assms(2) obtain lx1 where
    p: "tasm_lexer_get_next_token lx = plain_token lx1" "quiet lx1" "rest lx1 = c # s" by auto
  note cur = quiet_current [OF p(2,3)]
  have n: "\<not> is_id_char c_newline" "\<not> is_id_char c_eof" "\<not> is_id_char c_quote" "\<not> is_id_char c_apost"
    by (simp_all add: is_id_char_def char_defs)
  from collect_while_word [of lx1 is_id_char 0, OF cur(3) n(1,2)] p(3) obtain lx2 where
    w: "collect_while is_id_char 0 lx1 = Some (takeWhile is_id_char (c # s), lx2)"
    "moved lx1 (length (takeWhile is_id_char (rest lx1))) lx2" "length (takeWhile is_id_char (c # s)) \<le> 126" by auto
  have "is_id_char c" using assms(3) by (auto simp: is_id_char_def c_isalnum_def)
  with moved_word [OF p(2) w(2) n(3,4)] p(1,3) w(1,3) cur(1) assms(3) show ?thesis
    by (auto simp: lexes_def plain_token_def tasm_lexer_collect_id_def)
qed

lemma lexes_decimal:
  assumes "quiet lx" and "dropWhile blank (rest lx) = ds @ e # s" and "ds \<noteq> []" "\<forall>d \<in> set ds. c_isdigit d"
    and "\<not> c_isdigit e" "e \<noteq> 46" "e \<noteq> 98" "e \<noteq> 66" "e \<noteq> 120" "e \<noteq> 88"
  shows "\<exists>lx'. lexes lx (tasm_token_create TOKEN_DECIMAL_NUMBER (Some ds)) (e # s) lx'"
proof -
  from assms(3) obtain d ds' where ds: "ds = d # ds'" by (cases ds) auto
  from next_token_plain [OF assms(1)] assms(2) ds obtain lx1 where
    p: "tasm_lexer_get_next_token lx = plain_token lx1" "quiet lx1" "rest lx1 = d # ds' @ e # s" by auto
  note cur = quiet_current [OF p(2,3)]
  have n: "\<not> c_isdigit c_newline" "\<not> c_isdigit c_eof" "\<not> c_isdigit c_quote" "\<not> c_isdigit c_apost"
    by (simp_all add: char_defs)
  have tw: "takeWhile c_isdigit (rest lx1) = ds" "dropWhile c_isdigit (rest lx1) = e # s"
    using assms(4,5) by (simp_all add: p(3) ds takeWhile_append2 dropWhile_append2)
  from collect_while_word [of lx1 c_isdigit 0, OF cur(3) n(1,2)] tw(1) obtain lx2 where
    w: "collect_while c_isdigit 0 lx1 = Some (ds, lx2)"
    "moved lx1 (length (takeWhile c_isdigit (rest lx1))) lx2" "length ds \<le> 126" by auto
  note m = moved_word [OF p(2) w(2) n(3,4), unfolded tw]
  have d: "c_isdigit d" using assms(4) ds by simp
  have nx: "next_char lx1 = (if ds' = [] then e else hd ds')" using cur(2) by (cases ds') auto
  have "c_isdigit (next_char lx1) \<or> next_char lx1 = e"
    using assms(4) ds nx by (cases ds') auto
  then have "\<not> isbinprefix d (next_char lx1)" "\<not> ishexprefix d (next_char lx1)"
    using assms(7-10) by (auto simp: isbinprefix_def ishexprefix_def char_defs)
  moreover have "\<not> c_isalpha d" "d \<noteq> 95" using d by (auto simp: char_defs word_le_nat_alt)
  ultimately have "plain_token lx1 = Some (tasm_token_create TOKEN_DECIMAL_NUMBER (Some ds), lx2)"
    using d cur(1) w quiet_current(1) [OF m] assms(6)
    by (simp add: plain_token_def tasm_lexer_collect_number_def)
  with p(1) m show ?thesis by (auto simp: lexes_def)
qed

lemma digit_not_alpha: "c_isdigit d \<Longrightarrow> \<not> c_isalpha d \<and> d \<noteq> 95"
  by (auto simp: char_defs word_le_nat_alt)

lemma lexes_float:
  assumes "quiet lx" and "dropWhile blank (rest lx) = ds @ 46 # fs @ e # s" and "ds \<noteq> []"
    and "\<forall>d \<in> set (ds @ fs). c_isdigit d" and "\<not> c_isdigit e"
  shows "\<exists>lx'. lexes lx (tasm_token_create TOKEN_FLOAT_NUMBER (Some (ds @ 46 # fs))) (e # s) lx'"
proof -
  from assms(3) obtain d ds' where ds: "ds = d # ds'" by (cases ds) auto
  from next_token_plain [OF assms(1)] assms(2) ds obtain lx1 where
    p: "tasm_lexer_get_next_token lx = plain_token lx1" "quiet lx1" "rest lx1 = ds @ 46 # fs @ e # s" by auto
  have p3: "rest lx1 = d # ds' @ 46 # fs @ e # s" using p(3) ds by simp
  note cur = quiet_current [OF p(2) p3]
  have n: "\<not> c_isdigit c_newline" "\<not> c_isdigit c_eof" "\<not> c_isdigit c_quote" "\<not> c_isdigit c_apost" "\<not> c_isdigit 46"
    by (simp_all add: char_defs)
  have tw: "takeWhile c_isdigit (rest lx1) = ds" "dropWhile c_isdigit (rest lx1) = 46 # fs @ e # s"
    using assms(4) n(5) by (simp_all add: p(3) takeWhile_append2 dropWhile_append2)
  from collect_while_word [of lx1 c_isdigit 0, OF cur(3) n(1,2)] tw(1) obtain lx2 where
    w: "collect_while c_isdigit 0 lx1 = Some (ds, lx2)"
    "moved lx1 (length (takeWhile c_isdigit (rest lx1))) lx2" "length ds \<le> 126" by auto
  note m = moved_word [OF p(2) w(2) n(3,4), unfolded tw]
  note cur2 = quiet_current [OF m]
  from advance_moved [OF cur2(4)] cur2(1) obtain lx3 where
    a: "tasm_lexer_advance lx2 = Some lx3" "moved lx2 1 lx3" by (auto simp: c_eof_def)
  have r3: "rest lx3 = fs @ e # s" using moved_rest [OF a(2)] m(2) by simp
  have q3: "quiet lx3" by (rule moved_quiet [OF m(1) a(2)]) (simp add: m(2) char_defs)
  have l1: "length ds + 1 + length fs \<le> 126"
  proof -
    have "takeWhile (\<lambda>c. c_isdigit c \<or> c = 46) (rest lx1) =
        ds @ 46 # fs @ takeWhile (\<lambda>c. c_isdigit c \<or> c = 46) (e # s)"
      using assms(4) by (simp add: p(3) takeWhile_append2)
    with word_bound [OF cur(3), of "\<lambda>c. c_isdigit c \<or> c = 46"] show ?thesis by (simp add: char_defs)
  qed
  have tw3: "takeWhile c_isdigit (rest lx3) = fs" "dropWhile c_isdigit (rest lx3) = e # s"
    using assms(4,5) by (simp_all add: r3 takeWhile_append2 dropWhile_append2)
  have "lx_ok lx3" using q3 by (simp add: quiet_def lexable_def)
  from collect_while_moved [of lx3 c_isdigit "length ds + 1", OF this n(2)] tw3(1) l1 obtain lx4 where
    f: "collect_while c_isdigit (length ds + 1) lx3 = Some (fs, lx4)"
    "moved lx3 (length (takeWhile c_isdigit (rest lx3))) lx4" by auto
  note m4 = moved_word [OF q3 f(2) n(3,4), unfolded tw3]
  have d: "c_isdigit d" using assms(4) ds by simp
  have "c_isdigit (next_char lx1) \<or> next_char lx1 = 46" using cur(2) assms(4) ds by (cases ds') auto
  then have "\<not> isbinprefix d (next_char lx1)" "\<not> ishexprefix d (next_char lx1)"
    by (auto simp: isbinprefix_def ishexprefix_def char_defs)
  then have "plain_token lx1 = Some (tasm_token_create TOKEN_FLOAT_NUMBER (Some (ds @ 46 # fs)), lx4)"
    using d digit_not_alpha [OF d] cur(1) cur2(1) w(1,3) a(1) f(1) l1
    by (simp add: plain_token_def tasm_lexer_collect_number_def)
  with p(1) m4 show ?thesis by (auto simp: lexes_def)
qed

text \<open>Digits of another base, behind their prefix.\<close>

lemma based_word:
  assumes "quiet lx" and "rest lx = 48 # x # ds @ e # s" and "x \<noteq> 0" "x \<noteq> c_eof" "x \<noteq> c_quote" "x \<noteq> c_apost"
    and "\<forall>d \<in> set ds. P d" and "\<not> P e" and "\<not> P c_newline" "\<not> P c_eof" "\<not> P c_quote" "\<not> P c_apost"
  shows "\<exists>lx1 lx2 lx3. tasm_lexer_advance lx = Some lx1 \<and> tasm_lexer_advance lx1 = Some lx2 \<and>
    collect_while P 0 lx2 = Some (ds, lx3) \<and> length ds < 128 \<and> quiet lx3 \<and> rest lx3 = e # s"
proof -
  note cur = quiet_current [OF assms(1,2)]
  have "next_char lx = x" using cur(2) by simp
  with advance_two [OF cur(3)] cur(1) assms(3,4) obtain lx1 lx2 where
    a: "tasm_lexer_advance lx = Some lx1" "tasm_lexer_advance lx1 = Some lx2" "moved lx 2 lx2"
    by (auto simp: c_eof_def)
  have q2: "quiet lx2" by (rule moved_quiet [OF assms(1) a(3)]) (simp add: assms(2,5,6))
  have r2: "rest lx2 = ds @ e # s" using moved_rest [OF a(3)] assms(2) by simp
  have tw: "takeWhile P (rest lx2) = ds" "dropWhile P (rest lx2) = e # s"
    using assms(7,8) by (simp_all add: r2 takeWhile_append2 dropWhile_append2)
  have "lexable lx2" using q2 by (simp add: quiet_def)
  from collect_while_word [of lx2 P 0, OF this assms(9,10)] tw(1) obtain lx3 where
    w: "collect_while P 0 lx2 = Some (ds, lx3)" "moved lx2 (length (takeWhile P (rest lx2))) lx3" "length ds \<le> 126"
    by auto
  with moved_word [OF q2 w(2) assms(11,12), unfolded tw] a(1,2) show ?thesis by auto
qed

lemma lexes_hex:
  assumes "quiet lx" and "dropWhile blank (rest lx) = 48 # x # ds @ e # s" and "x = 120 \<or> x = 88"
    and "\<forall>d \<in> set ds. c_isxdigit d" "\<not> c_isxdigit e"
  shows "\<exists>lx'. lexes lx (tasm_token_create TOKEN_HEX_NUMBER (Some ds)) (e # s) lx'"
proof -
  from next_token_plain [OF assms(1)] assms(2) obtain lx1 where
    p: "tasm_lexer_get_next_token lx = plain_token lx1" "quiet lx1" "rest lx1 = 48 # x # ds @ e # s" by auto
  have n: "\<not> c_isxdigit c_newline" "\<not> c_isxdigit c_eof" "\<not> c_isxdigit c_quote" "\<not> c_isxdigit c_apost"
    by (simp_all add: char_defs)
  have "x \<noteq> 0" "x \<noteq> c_eof" "x \<noteq> c_quote" "x \<noteq> c_apost" using assms(3) by (auto simp: char_defs)
  from based_word [OF p(2,3) this assms(4,5) n] obtain lx2 lx3 lx4 where
    b: "tasm_lexer_advance lx1 = Some lx2" "tasm_lexer_advance lx2 = Some lx3"
    "collect_while c_isxdigit 0 lx3 = Some (ds, lx4)" "length ds < 128" "quiet lx4" "rest lx4 = e # s" by blast
  have "current_char lx1 = 48" "next_char lx1 = x" using quiet_current [OF p(2,3)] by simp_all
  then have "plain_token lx1 = tasm_lexer_collect_hex_number lx1"
    using assms(3) by (auto simp: plain_token_def isbinprefix_def ishexprefix_def char_defs)
  with p(1) b show ?thesis by (auto simp: lexes_def tasm_lexer_collect_hex_number_def)
qed

lemma lexes_binary:
  assumes "quiet lx" and "dropWhile blank (rest lx) = 48 # x # ds @ e # s" and "x = 98 \<or> x = 66"
    and "\<forall>d \<in> set ds. d = 48 \<or> d = 49" "e \<noteq> 48" "e \<noteq> 49"
  shows "\<exists>lx'. lexes lx (tasm_token_create TOKEN_BINARY_NUMBER (Some ds)) (e # s) lx'"
proof -
  from next_token_plain [OF assms(1)] assms(2) obtain lx1 where
    p: "tasm_lexer_get_next_token lx = plain_token lx1" "quiet lx1" "rest lx1 = 48 # x # ds @ e # s" by auto
  from based_word [OF p(2,3) _ _ _ _ assms(4)] assms(3,5,6) obtain lx2 lx3 lx4 where
    b: "tasm_lexer_advance lx1 = Some lx2" "tasm_lexer_advance lx2 = Some lx3"
    "collect_while (\<lambda>d. d = 48 \<or> d = 49) 0 lx3 = Some (ds, lx4)" "length ds < 128" "quiet lx4" "rest lx4 = e # s"
    by (auto simp: char_defs)
  have "current_char lx1 = 48" "next_char lx1 = x" using quiet_current [OF p(2,3)] by simp_all
  then have "plain_token lx1 = tasm_lexer_collect_binary_number lx1"
    using assms(3) by (auto simp: plain_token_def isbinprefix_def char_defs)
  with p(1) b show ?thesis by (auto simp: lexes_def tasm_lexer_collect_binary_number_def)
qed

lemma lexes_comment:
  assumes "quiet lx" and "dropWhile blank (rest lx) = 59 # cm @ c_newline # s"
    and "c_newline \<notin> set cm" "c_eof \<notin> set cm"
  shows "\<exists>lx'. lexes lx (tasm_token_create TOKEN_COMMENT (Some [59])) (c_newline # s) lx'"
proof -
  let ?P = "\<lambda>c. c \<noteq> c_newline \<and> c \<noteq> c_eof"
  from next_token_plain [OF assms(1)] assms(2) obtain lx1 where
    p: "tasm_lexer_get_next_token lx = plain_token lx1" "quiet lx1" "rest lx1 = 59 # cm @ c_newline # s" by auto
  note cur = quiet_current [OF p(2,3)]
  from comments.skip_moved [OF cur(4)] obtain lx2 where
    k: "tasm_lexer_skip_line lx1 = Some lx2" "moved lx1 (length (takeWhile ?P (rest lx1))) lx2" by blast
  have "\<forall>c \<in> set (59 # cm). ?P c" using assms(3,4) by (auto simp: char_defs)
  then have "takeWhile ?P ((59 # cm) @ c_newline # s) = 59 # cm" by (subst takeWhile_append2) auto
  then have tw: "takeWhile ?P (rest lx1) = 59 # cm" by (simp only: p(3) append_Cons)
  have r: "rest lx2 = c_newline # s" using moved_rest [OF k(2)] by (simp only: tw) (simp add: p(3))
  have "lexable lx2" by (rule moved_lexable [OF cur(3) k(2)])
  moreover from this have "current_char lx2 = c_newline" using rest_Cons [of lx2] r by (simp add: lexable_def)
  ultimately have "quiet lx2" by (simp add: quiet_def)
  moreover have "plain_token lx1 = Some (tasm_token_create TOKEN_COMMENT (Some [59]), lx2)"
    using cur(1) k(1) by (simp add: plain_token_def isbinprefix_def ishexprefix_def lexer_collect_one_chars_def char_defs)
  ultimately show ?thesis using p(1) r by (auto simp: lexes_def)
qed

text \<open>The characters that are tokens of their own and do not start a literal.\<close>

lemma lexes_one:
  assumes "quiet lx" and "dropWhile blank (rest lx) = c # s"
    and "(c, t) \<in> set [(c_newline, tasm_token_create TOKEN_ENDLINE (Some (bytes_of ''endl''))),
      (45, tasm_token_create TOKEN_MINUS (Some [45])), (58, tasm_token_create TOKEN_COLON (Some [58])),
      (64, tasm_token_create TOKEN_AT (Some [64]))]"
  shows "\<exists>lx'. lexes lx t s lx'"
proof -
  from next_token_plain [OF assms(1)] assms(2) obtain lx1 where
    p: "tasm_lexer_get_next_token lx = plain_token lx1" "quiet lx1" "rest lx1 = c # s" by auto
  note cur = quiet_current [OF p(2,3)]
  have c: "c \<noteq> c_eof" "\<not> c_isalpha c" "c \<noteq> 95" "\<not> c_isdigit c" "c \<noteq> 48" "c \<noteq> 59"
    using assms(3) by (auto simp: char_defs)
  from advance_moved [OF cur(4)] c(1) cur(1) obtain lx2 where
    a: "tasm_lexer_advance lx1 = Some lx2" "moved lx1 1 lx2" by auto
  have "quiet lx2" using assms(3) by (intro moved_quiet [OF p(2) a(2)]) (auto simp: p(3) char_defs)
  moreover have "rest lx2 = s" using moved_rest [OF a(2)] p(3) by simp
  moreover have "plain_token lx1 = Some (t, lx2)"
    using c cur(1) a(1) assms(3)
    by (auto simp: plain_token_def isbinprefix_def ishexprefix_def lexer_collect_one_chars_def Let_def char_defs)
  ultimately show ?thesis using p(1) by (auto simp: lexes_def)
qed

lemma lexes_eof:
  assumes "quiet lx" and "rest lx = [c_eof]"
  shows "lexes lx (tasm_token_create TOKEN_EOF (Some (bytes_of ''eof''))) [c_eof] lx"
proof -
  note cur = quiet_current [OF assms]
  have c: "\<not> c_isalpha c_eof" "c_eof \<noteq> 95" "\<not> c_isdigit c_eof" "c_eof \<noteq> 48" "c_eof \<noteq> 59" "\<not> blank c_eof"
    by (simp_all add: char_defs)
  have "tasm_lexer_skip_whitespace lx = Some lx" using c cur(1) by (subst tasm_lexer_skip_whitespace.simps) simp
  then have "tasm_lexer_get_next_token lx = plain_token lx"
    using quiet_branch [OF assms(1)] by simp
  also have "\<dots> = Some (tasm_token_create TOKEN_EOF (Some (bytes_of ''eof'')), lx)"
    using c cur(1) advance_eof [OF cur(4)]
    by (auto simp: plain_token_def isbinprefix_def ishexprefix_def lexer_collect_one_chars_def Let_def char_defs)
  finally show ?thesis using assms by (simp add: lexes_def)
qed

end
