(* ===== verification/Keywords.thy ===== *)
theory Keywords
  imports Tasm_Lexer
begin

text \<open>
  The words the lexer knows: the table has no word twice, so a name is the keyword it is listed
  with, and the mnemonics are those of the instructions, in lower or in upper case.
\<close>

lemma char_of_byte_of_char [simp]: "char_of_byte (byte_of_char c) = c"
proof -
  have "of_char c < (256 :: nat)" by (rule nat_of_char_less_256)
  then have "unat (word_of_nat (of_char c) :: u8) = of_char c" by (intro unat_of_nat_id) simp
  then show ?thesis by (simp add: char_of_byte_def byte_of_char_def)
qed

lemma byte_of_char_of_byte [simp]: "byte_of_char (char_of_byte b) = b"
proof -
  have "of_char (char_of (unat b) :: char) = unat b mod 256" by (rule of_char_of)
  then show ?thesis by (simp add: char_of_byte_def byte_of_char_def)
qed

lemma map_char_bytes [simp]: "map char_of_byte (bytes_of s) = s" "bytes_of (map char_of_byte v) = v"
  by (simp_all add: bytes_of_def comp_def)

lemma keyword_table_distinct: "distinct (map fst keyword_table)"
  by code_simp

lemma id_type_keyword: "t \<noteq> TOKEN_ID \<Longrightarrow> id_type v = t \<longleftrightarrow> (map char_of_byte v, t) \<in> set keyword_table"
  by (auto simp: id_type_def map_of_eq_Some_iff [OF keyword_table_distinct, symmetric] split: option.splits)

definition mnemonics :: "(string \<times> string \<times> optype_t) list" where
  "mnemonics = zip inst_strings_lower (zip inst_strings_upper all_optypes)"

lemma keyword_ops:
  "(w, TOKEN_OP op) \<in> set keyword_table \<longleftrightarrow> (\<exists>l u. (l, u, op) \<in> set mnemonics \<and> (w = l \<or> w = u))"
  by (auto simp: keyword_table_def mnemonics_def [symmetric])

lemma id_type_op:
  "id_type v = TOKEN_OP op \<longleftrightarrow> (\<exists>l u. (l, u, op) \<in> set mnemonics \<and> (v = bytes_of l \<or> v = bytes_of u))"
  by (subst id_type_keyword) (auto simp: keyword_ops; metis map_char_bytes)+

end
