(* ===== verification/Parser_Props.thy ===== *)
theory Parser_Props
  imports Tasm_Parser Lexer_Props
begin

text \<open>
  What every parsing function keeps. A function changes the parser only by moving its window over
  the tokens, by reporting an error, by warning and by its two warning flags; the locale
  \<open>parsing\<close> takes a relation that these basic steps satisfy and derives it for every function.
  Its instances are: the error flag stays set, a set flag has a reported error, the tokens keep
  their texts, and the input left does not grow.
\<close>

definition is_error :: "diagnostic \<Rightarrow> bool" where
  "is_error d \<longleftrightarrow> (case d of Parse_warning r c t \<Rightarrow> False | _ \<Rightarrow> True)"

lemma is_error_simps [simp]:
  "is_error (Unexpected_token r c v t w)" "is_error (Parse_error r c m n)" "\<not> is_error (Parse_warning r c m)"
  by (simp_all add: is_error_def)

lemma err_steps:
  assumes "tasm_parser_err ps c text = Some ps'"
  shows "\<exists>ps1 d. next_window ps = Some ps1 \<and> is_error d \<and> ps' = ps1\<lparr>is_err := True, diags := diags ps1 @ [d]\<rparr>"
proof -
  let ?d = "Parse_error (loc_row (lexer ps)) (loc_col (lexer ps)) text (tasm_parser_eat_err_msg c)"
  from assms obtain t lx where "tasm_lexer_get_next_token (lexer ps) = Some (t, lx)"
    "ps' = ps\<lparr>diags := diags ps @ [?d], prev_token := current_token ps, current_token := next_token ps,
       next_token := t, lexer := lx, is_err := True\<rparr>"
    by (auto simp: tasm_parser_err_def next_window_def)
  then show ?thesis by (intro exI [of _ "ps\<lparr>prev_token := current_token ps, current_token := next_token ps,
       next_token := t, lexer := lx\<rparr>"] exI [of _ ?d]) (simp add: next_window_def)
qed

lemma err_is_err: "tasm_parser_err ps c text = Some ps' \<Longrightarrow> is_err ps'"
  by (auto simp: tasm_parser_err_def)

lemma eat_cases:
  assumes "tasm_parser_eat ps w = Some ps'"
  obtains "Inl (tok ps) = w" "next_window ps = Some ps'"
  | d where "Inl (tok ps) \<noteq> w" "is_error d" "ps' = ps\<lparr>is_err := True, diags := diags ps @ [d]\<rparr>"
proof (cases "Inl (tok ps) = w")
  case True
  with assms show thesis by (intro that(1)) (simp_all add: tasm_parser_eat_def)
next
  case False
  with assms show thesis
    by (intro that(2) [of "Unexpected_token (loc_row (lexer ps)) (loc_col (lexer ps))
        (tok_value (current_token ps)) (tok ps) w"]) (simp_all add: tasm_parser_eat_def)
qed

locale parsing =
  fixes R :: "tasm_parser_t \<Rightarrow> tasm_parser_t \<Rightarrow> bool"
  assumes refl: "R ps ps"
    and trans: "R ps1 ps2 \<Longrightarrow> R ps2 ps3 \<Longrightarrow> R ps1 ps3"
    and window: "next_window ps = Some ps' \<Longrightarrow> R ps ps'"
    and report: "is_error d \<Longrightarrow> R ps (ps\<lparr>is_err := True, diags := diags ps @ [d]\<rparr>)"
    and warning: "R ps (ps\<lparr>diags := diags ps @ [Parse_warning r c text]\<rparr>)"
    and flags: "R ps (ps\<lparr>proc_return_warning := b\<rparr>)" "R ps (ps\<lparr>global_hlt_warning := b\<rparr>)"
begin

lemma eat_R: "tasm_parser_eat ps w = Some ps' \<Longrightarrow> R ps ps'"
  by (elim eat_cases) (auto intro: window report)

lemma eat_if_R: "eat_if ps t = Some ps' \<Longrightarrow> R ps ps'"
  by (auto simp: eat_if_def refl split: if_splits intro: eat_R)

lemma err_R: "tasm_parser_err ps c text = Some ps' \<Longrightarrow> R ps ps'"
  using err_steps window report trans by blast

lemma err_if_R: "err_if b ps c text = Some ps' \<Longrightarrow> R ps ps'"
  by (auto simp: err_if_def refl split: if_splits intro: err_R)

lemma warn_R: "R ps (tasm_parser_warn ps text)"
  by (simp add: tasm_parser_warn_def warning)

lemma note_R: "R ps (note_line l ps)" "R ps (note_file_line l ps)"
  by (auto simp: note_line_def note_file_line_def refl intro: flags
      split: option.splits tasm_ast.splits optype_t.splits)

lemma num_lit_R: "tasm_parse_num_lit ps neg = Some (a, ps') \<Longrightarrow> R ps ps'"
  by (auto simp: tasm_parse_num_lit_def Let_def intro: eat_R)

lemma char_lit_R: "tasm_parse_char_lit ps = Some (a, ps') \<Longrightarrow> R ps ps'"
  by (auto simp: tasm_parse_char_lit_def dest!: eat_R intro: trans)

lemma str_lit_R: "tasm_parse_str_lit ps = Some (a, ps') \<Longrightarrow> R ps ps'"
  by (auto simp: tasm_parse_str_lit_def dest!: eat_R intro: trans)

lemma label_call_R: "tasm_parse_label_call ps = Some (a, ps') \<Longrightarrow> R ps ps'"
  by (auto simp: tasm_parse_label_call_def intro: eat_R)

lemma found_iff: "found r = Some (a, ps) \<longleftrightarrow> (\<exists>b. r = Some (b, ps) \<and> a = Some b)"
  by (auto simp: found_def)

lemma number_operand_R: "tasm_parse_number_operand ps = Some (a, ps') \<Longrightarrow> R ps ps'"
  by (auto simp: tasm_parse_number_operand_def found_iff split: if_splits
      dest!: eat_if_R num_lit_R intro: trans)

lemma operand_kind_R: "parse_operand_kind k ps = Some (a, ps') \<Longrightarrow> R ps ps'"
  by (cases k) (auto simp: tasm_parse_push_operand_def tasm_parse_int_operand_def tasm_parse_jmp_operand_def
      tasm_parse_label_operand_def found_iff refl split: if_splits
      dest!: num_lit_R label_call_R char_lit_R number_operand_R)

lemma operand_R: "parse_operand op ps = Some (a, ps') \<Longrightarrow> R ps ps'"
  by (auto simp: parse_operand_def refl split: option.splits dest!: operand_kind_R err_if_R intro: trans)

lemma end_of_line_R: "end_of_line ps = Some ps' \<Longrightarrow> R ps ps'"
  by (auto simp: end_of_line_def split: if_splits dest!: eat_if_R eat_R intro: trans)

lemma instruction_R: "tasm_parse_instruction ps = Some (a, ps') \<Longrightarrow> R ps ps'"
  by (auto simp: tasm_parse_instruction_def split: token_type_t.splits
      dest!: eat_R operand_R end_of_line_R intro: trans)

lemma label_decl_R: "tasm_parse_label_decl ps = Some (a, ps') \<Longrightarrow> R ps ps'"
  by (auto simp: tasm_parse_label_decl_def dest!: eat_R intro: trans)

lemma ctype_R: "parse_ctype c ps = Some (t, ps') \<Longrightarrow> R ps ps'"
  by (auto simp: parse_ctype_def split: if_splits dest!: eat_R intro: trans)

lemma cfunction_args_R:
  assumes "parse_cfunction_args ps = Some r"
  shows "R ps (snd r)"
proof (rule parse_cfunction_args.raw_induct [OF _ assms])
  fix f ps r
  assume ih: "\<And>ps r. f ps = Some r \<Longrightarrow> R ps (snd r)"
    and f: "(if cfunction_stop ps then Some ([], ps) else do {
        (t, ps1) \<leftarrow> parse_ctype 4100 ps;
        (ts, ps2) \<leftarrow> f ps1;
        Some (t # ts, ps2) }) = Some r"
  then show "R ps (snd r)"
    by (auto simp: refl split: if_splits dest!: ctype_R ih intro: trans)
qed

lemma cfunction_R: "tasm_parse_cfunction ps = Some (a, ps') \<Longrightarrow> R ps ps'"
  by (auto simp: tasm_parse_cfunction_def dest!: eat_R ctype_R cfunction_args_R) (meson trans)

lemma data_R: "tasm_parse_data ps = Some (a, ps') \<Longrightarrow> R ps ps'"
  by (auto simp: tasm_parse_data_def found_iff split: if_splits
      dest!: eat_R str_lit_R char_lit_R number_operand_R intro: trans)

lemma metadata_R: "tasm_parse_metadata ps = Some (a, ps') \<Longrightarrow> R ps ps'"
  by (auto simp: tasm_parse_metadata_def tasm_parse_cstruct_def found_iff split: if_splits
      dest!: eat_R cfunction_R data_R intro: trans)

lemma skip_strays_R: "skip_strays c d ps = Some ps' \<Longrightarrow> R ps ps'"
  by (auto simp: skip_strays_def dest!: err_if_R eat_if_R) (meson trans)

lemma proc_line_R: "tasm_parse_proc_line ps = Some (a, ps') \<Longrightarrow> R ps ps'"
  by (auto simp: tasm_parse_proc_line_def found_iff split: if_splits
      dest!: label_decl_R instruction_R err_if_R skip_strays_R) (meson trans)

lemma proc_lines_R:
  assumes "parse_proc_lines ps = Some r"
  shows "R ps (snd r)"
proof (rule parse_proc_lines.raw_induct [OF _ assms])
  fix f ps r
  assume ih: "\<And>ps r. f ps = Some r \<Longrightarrow> R ps (snd r)"
    and f: "(if tok ps = TOKEN_ENDP \<or> tok ps = TOKEN_EOF then Some ([], ps) else do {
        (l, ps1) \<leftarrow> tasm_parse_proc_line ps;
        (ls, ps2) \<leftarrow> f (note_line l ps1);
        Some (case l of None \<Rightarrow> ls | Some a \<Rightarrow> a # ls, ps2) }) = Some r"
  then show "R ps (snd r)"
    by (auto simp: refl split: if_splits dest!: proc_line_R ih) (meson trans note_R)
qed

lemma warn_if_R: "R ps (if b then tasm_parser_warn ps text else ps)"
  by (simp add: refl warn_R)

lemma proc_R:
  assumes "tasm_parse_proc ps = Some (a, ps')"
  shows "R ps ps'"
proof -
  from assms obtain ps1 ps2 ls ps3 ps4 ps5 where "eat ps TOKEN_PROC = Some ps1" "eat ps1 TOKEN_ID = Some ps2"
    "parse_proc_lines ps2 = Some (ls, ps3)" "eat ps3 TOKEN_ENDP = Some ps4" "R ps4 ps5"
    "end_of_line (ps5\<lparr>proc_return_warning := True\<rparr>) = Some ps'"
    using warn_if_R by (fastforce simp: tasm_parse_proc_def Let_def simp del: if_split)
  then have "R ps ps1" "R ps1 ps2" "R ps2 ps3" "R ps3 ps4" "R ps4 ps5" "R ps5 ps'"
    using eat_R proc_lines_R flags(1) end_of_line_R trans by fastforce+
  then show ?thesis by (meson trans)
qed

lemma line_R: "tasm_parse_line ps = Some (a, ps') \<Longrightarrow> R ps ps'"
  by (auto simp: tasm_parse_line_def found_iff split: if_splits
      dest!: label_decl_R proc_R instruction_R metadata_R skip_strays_R)

lemma file_lines_R:
  assumes "parse_file_lines ps = Some r"
  shows "R ps (snd r)"
proof (rule parse_file_lines.raw_induct [OF _ assms])
  fix f ps r
  assume ih: "\<And>ps r. f ps = Some r \<Longrightarrow> R ps (snd r)"
    and f: "(if tok ps = TOKEN_EOF then Some ([], ps) else do {
        (l, ps1) \<leftarrow> tasm_parse_line ps;
        (ls, ps2) \<leftarrow> f (note_file_line l ps1);
        Some (case l of None \<Rightarrow> ls | Some a \<Rightarrow> a # ls, ps2) }) = Some r"
  then show "R ps (snd r)"
    by (auto simp: refl split: if_splits dest!: line_R ih) (meson trans note_R)
qed

lemma file_R:
  assumes "tasm_parse_file ps = Some (a, ps')"
  shows "R ps ps'"
proof -
  from assms obtain ps1 ls ps2 ps3 where "eat ps TOKEN_NONE = Some ps1"
    "parse_file_lines ps1 = Some (ls, ps2)" "R ps2 ps3"
    "end_of_line (ps3\<lparr>global_hlt_warning := True\<rparr>) = Some ps'"
    using warn_if_R by (fastforce simp: tasm_parse_file_def Let_def simp del: if_split)
  then have "R ps ps1" "R ps1 ps2" "R ps2 ps3" "R ps3 ps'"
    using eat_R file_lines_R flags(2) end_of_line_R trans by fastforce+
  then show ?thesis by (meson trans)
qed

end

end
