(* ===== verification/Parser_Result.thy ===== *)
theory Parser_Result
  imports Parser_Props Tasm_Reference
begin

text \<open>
  The instances of \<open>parsing\<close>, and what a parse that ends without an error delivers: lines of the
  shape the translator works on, every instruction with an operand of its kind.
\<close>

interpretation err_stays: parsing "\<lambda>ps ps'. is_err ps \<longrightarrow> is_err ps'"
  by unfold_locales (auto simp: next_window_def)

definition reported :: "tasm_parser_t \<Rightarrow> bool" where
  "reported ps \<longleftrightarrow> (is_err ps \<longleftrightarrow> (\<exists>d \<in> set (diags ps). is_error d))"

interpretation reports: parsing "\<lambda>ps ps'. reported ps \<longrightarrow> reported ps'"
  by unfold_locales (auto simp: next_window_def reported_def)

definition tokens_ok :: "tasm_parser_t \<Rightarrow> bool" where
  "tokens_ok ps \<longleftrightarrow> token_ok (current_token ps) \<and> token_ok (next_token ps)"

interpretation tokens: parsing "\<lambda>ps ps'. tokens_ok ps \<longrightarrow> tokens_ok ps'"
  by unfold_locales (auto simp: next_window_def tokens_ok_def dest: next_token_ok)

text \<open>The input left: the characters the lexer has not read, and the tokens of the window.\<close>

definition pending :: "tasm_parser_t \<Rightarrow> nat" where
  "pending ps = length (rest (lexer ps)) + (if tok_type (next_token ps) = TOKEN_EOF then 0 else 1) +
     (if tok ps = TOKEN_EOF then 0 else 1)"

lemma window_pending:
  assumes "lexable (lexer ps)"
  shows "\<exists>ps'. next_window ps = Some ps' \<and> lexable (lexer ps') \<and> pending ps' \<le> pending ps \<and>
    (tok ps \<noteq> TOKEN_EOF \<longrightarrow> pending ps' < pending ps)"
proof -
  from next_token_scans [OF assms] obtain t lx' n where
    t: "tasm_lexer_get_next_token (lexer ps) = Some (t, lx')" "moved (lexer ps) n lx'"
      "tok_type t \<noteq> TOKEN_EOF \<longrightarrow> 0 < n" unfolding scans_def by (auto split: if_splits)
  have "lx_ok lx'" "lx_ok (lexer ps)" using t(2) assms by (simp_all add: moved_def lexable_def)
  then have "0 < length (rest lx')" "0 < length (rest (lexer ps))" by (simp_all add: rest_last)
  with moved_rest [OF t(2)] have "length (rest lx') + n = length (rest (lexer ps))" by simp
  with t moved_lexable [OF assms t(2)] show ?thesis
    by (auto simp: next_window_def pending_def tok_def)
qed

interpretation input: parsing "\<lambda>ps ps'. lexable (lexer ps) \<longrightarrow> lexable (lexer ps') \<and> pending ps' \<le> pending ps"
proof unfold_locales
  show "next_window ps = Some ps' \<Longrightarrow> lexable (lexer ps) \<longrightarrow> lexable (lexer ps') \<and> pending ps' \<le> pending ps"
    for ps ps' using window_pending [of ps] by auto
qed (auto simp: pending_def tok_def)

subsection \<open>Operands\<close>

lemma num_lit_node: "tasm_parse_num_lit ps neg = Some (a, ps') \<Longrightarrow> number_node (Some a)"
  by (auto simp: tasm_parse_num_lit_def Let_def)

lemma label_call_node: "tasm_parse_label_call ps = Some (a, ps') \<Longrightarrow> label_node (Some a)"
  by (auto simp: tasm_parse_label_call_def)

lemma eat_ok: "tasm_parser_eat ps (Inl t) = Some ps' \<Longrightarrow> \<not> is_err ps' \<Longrightarrow> tok ps = t \<and> next_window ps = Some ps'"
  by (elim eat_cases) auto

lemma char_lit_node:
  assumes "tasm_parse_char_lit ps = Some (a, ps')" and "tokens_ok ps" and "\<not> is_err ps'"
  shows "char_node (Some a)"
proof -
  from assms(1) obtain ps1 ps2 where e: "eat ps TOKEN_APOST = Some ps1" "eat ps1 TOKEN_CHAR = Some ps2"
    "eat ps2 TOKEN_APOST = Some ps'" "a = AST_CHAR (tok_value (current_token ps1))"
    by (auto simp: tasm_parse_char_lit_def)
  have "\<not> is_err ps2" using err_stays.eat_R [OF e(3)] assms(3) by blast
  with eat_ok [OF e(2)] have "tok ps1 = TOKEN_CHAR" by blast
  moreover have "tokens_ok ps1" using tokens.eat_R [OF e(1)] assms(2) by blast
  ultimately have "tok_value (current_token ps1) \<noteq> None" by (auto simp: tokens_ok_def token_ok_def tok_def)
  then show ?thesis by (simp add: e(4))
qed

definition kind_fits :: "operand_kind \<Rightarrow> tasm_ast option \<Rightarrow> bool" where
  "kind_fits k a \<longleftrightarrow> (case k of
     Push_operand \<Rightarrow> number_node a \<or> char_node a
   | Int_operand \<Rightarrow> number_node a
   | Jmp_operand \<Rightarrow> number_node a \<or> label_node a
   | Label_operand \<Rightarrow> label_node a)"

lemma operand_kind_fits:
  assumes "parse_operand_kind k ps = Some (Some a, ps')" and "tokens_ok ps" and "\<not> is_err ps'"
  shows "kind_fits k (Some a)"
  using assms
  by (cases k) (auto simp: kind_fits_def tasm_parse_push_operand_def tasm_parse_int_operand_def
      tasm_parse_jmp_operand_def tasm_parse_label_operand_def tasm_parse_number_operand_def
      err_stays.found_iff split: if_splits dest: num_lit_node label_call_node char_lit_node)

text \<open>The table gives each instruction the operand that the translator wants.\<close>

lemma table_fits:
  "(case map_of operand_table op of
      None \<Rightarrow> op \<noteq> OP_PUSH \<and> op \<notin> set jump_ops \<and> op \<noteq> OP_CALL \<and> map_of number_ops op = None
    | Some (k, c, text) \<Rightarrow> kind_fits k a \<longrightarrow> operand_fits op a)"
  by (cases op) (simp_all add: operand_table_def jump_ops_def number_ops_def operand_fits_def kind_fits_def)

lemma operand_ok:
  assumes "parse_operand op ps = Some (a, ps')" and "tokens_ok ps" and "\<not> is_err ps'"
  shows "operand_fits op a"
proof (cases "map_of operand_table op")
  case None
  with table_fits [of op a] show ?thesis by (simp add: operand_fits_def)
next
  case (Some kct)
  then obtain k c msg where t: "map_of operand_table op = Some (k, c, msg)" by (cases kct) auto
  with assms(1) obtain ps1 where k: "parse_operand_kind k ps = Some (a, ps1)" "err_if (a = None) ps1 c msg = Some ps'"
    by (auto simp: parse_operand_def)
  with assms(3) obtain b where b: "a = Some b" "ps' = ps1"
    by (cases a) (auto simp: err_if_def dest: err_is_err)
  with operand_kind_fits [of k ps b ps1] k(1) assms table_fits [of op a] t show ?thesis by simp
qed

subsection \<open>Lines\<close>

text \<open>A line as the translator wants it, with every operand in place and every constant of a kind it
  can store; the value of a constant may be missing.\<close>

fun value_fits :: "tasm_ast \<Rightarrow> bool" where
  "value_fits (AST_DATA (Some v)) \<longleftrightarrow> (\<exists>bs. data_bytes v = Some (Some bs))"
| "value_fits _ \<longleftrightarrow> True"

definition good_line :: "tasm_ast \<Rightarrow> bool" where
  "good_line a \<longleftrightarrow> plain_line a \<and> operands_ok a \<and> value_fits a"

lemma instruction_good:
  assumes "tasm_parse_instruction ps = Some (a, ps')" and "tokens_ok ps" and "\<not> is_err ps'"
  shows "good_line a"
proof -
  from assms(1) obtain op name oprnd ps1 ps2 where e: "eat ps (tok ps) = Some ps1"
    "parse_operand op ps1 = Some (oprnd, ps2)" "end_of_line ps2 = Some ps'" "a = AST_OP op name oprnd"
    by (auto simp: tasm_parse_instruction_def split: token_type_t.splits)
  have "\<not> is_err ps2" using err_stays.end_of_line_R [OF e(3)] assms(3) by blast
  moreover have "tokens_ok ps1" using tokens.eat_R [OF e(1)] assms(2) by blast
  ultimately have "operand_fits op oprnd" by (rule operand_ok [OF e(2), rotated])
  then show ?thesis by (simp add: good_line_def e(4))
qed

lemma label_decl_good: "tasm_parse_label_decl ps = Some (a, ps') \<Longrightarrow> good_line a"
  by (auto simp: tasm_parse_label_decl_def good_line_def)

lemma number_node_fits: "number_node (Some a) \<Longrightarrow> value_fits (AST_DATA (Some a))"
  by (cases a) (simp_all add: data_bytes_def)

lemma char_node_fits: "char_node (Some a) \<Longrightarrow> value_fits (AST_DATA (Some a))"
  by (cases a) (auto simp: data_bytes_def)

lemma data_good:
  assumes "tasm_parse_data ps = Some (a, ps')" and "tokens_ok ps" and "\<not> is_err ps'"
  shows "good_line a"
proof -
  from assms(1) obtain ps1 v where e: "eat ps TOKEN_DATA = Some ps1" "a = AST_DATA v"
    "(if tok ps1 = TOKEN_QUOTA then found (tasm_parse_str_lit ps1)
      else if tok ps1 = TOKEN_APOST then found (tasm_parse_char_lit ps1)
      else tasm_parse_number_operand ps1) = Some (v, ps')" by (auto simp: tasm_parse_data_def)
  have t1: "tokens_ok ps1" using tokens.eat_R [OF e(1)] assms(2) by blast
  have "value_fits (AST_DATA v)"
  proof (cases v)
    case (Some b)
    consider "tasm_parse_str_lit ps1 = Some (b, ps')" | "tasm_parse_char_lit ps1 = Some (b, ps')"
      | ps2 neg where "tasm_parse_num_lit ps2 neg = Some (b, ps')"
      using e(3) Some by (auto simp: err_stays.found_iff tasm_parse_number_operand_def split: if_splits)
    then show ?thesis
    proof cases
      case 1
      then show ?thesis by (auto simp: Some tasm_parse_str_lit_def data_bytes_def)
    next
      case 2
      then show ?thesis using char_node_fits [OF char_lit_node [OF 2 t1 assms(3)]] by (simp add: Some)
    next
      case 3
      then show ?thesis using number_node_fits [OF num_lit_node [OF 3]] by (simp add: Some)
    qed
  qed simp
  then show ?thesis by (simp add: good_line_def e(2))
qed

lemma metadata_good:
  assumes "tasm_parse_metadata ps = Some (Some a, ps')" and "tokens_ok ps" and "\<not> is_err ps'"
  shows "good_line a"
proof -
  from assms(1) obtain ps1 where e: "eat ps TOKEN_AT = Some ps1" by (auto simp: tasm_parse_metadata_def)
  with tokens.eat_R [OF e] assms data_good [of ps1 a ps'] show ?thesis
    by (auto simp: tasm_parse_metadata_def err_stays.found_iff tasm_parse_cfunction_def tasm_parse_cstruct_def
        good_line_def split: if_splits)
qed

lemma proc_line_good:
  "tasm_parse_proc_line ps = Some (Some a, ps') \<Longrightarrow> tokens_ok ps \<Longrightarrow> \<not> is_err ps' \<Longrightarrow> good_line a"
  by (auto simp: tasm_parse_proc_line_def err_stays.found_iff split: if_splits
      dest: label_decl_good instruction_good)

text \<open>The two loops over lines have one shape: a turn of the loop keeps what holds of the lines so far.
  \<open>lines_good\<close> is what such a loop promises: the error flag stays, and without it all lines are good.\<close>

definition lines_good ::
  "(tasm_ast \<Rightarrow> bool) \<Rightarrow> tasm_parser_t \<Rightarrow> tasm_ast list \<times> tasm_parser_t \<Rightarrow> bool" where
  "lines_good good ps r \<longleftrightarrow> (is_err ps \<longrightarrow> is_err (snd r)) \<and>
     (tokens_ok ps \<and> \<not> is_err (snd r) \<longrightarrow> list_all good (fst r))"

lemma loop_turn:
  assumes ih: "\<And>ps r. f ps = Some r \<Longrightarrow> lines_good good ps r"
    and f: "(if stop then Some ([], ps) else do {
          (l, ps1) \<leftarrow> line ps;
          (ls, ps2) \<leftarrow> f (mark l ps1);
          Some (case l of None \<Rightarrow> ls | Some a \<Rightarrow> a # ls, ps2) }) = Some r"
    and line: "\<And>l ps1. line ps = Some (l, ps1) \<Longrightarrow>
      (is_err ps \<longrightarrow> is_err ps1) \<and> (tokens_ok ps \<longrightarrow> tokens_ok ps1) \<and>
      (\<forall>a. l = Some a \<longrightarrow> tokens_ok ps \<longrightarrow> \<not> is_err ps1 \<longrightarrow> good a)"
    and noted: "\<And>l ps1. (is_err ps1 \<longrightarrow> is_err (mark l ps1)) \<and> (tokens_ok ps1 \<longrightarrow> tokens_ok (mark l ps1))"
  shows "lines_good good ps r"
proof (cases stop)
  case True
  with f show ?thesis by (auto simp: lines_good_def)
next
  case False
  with f obtain l ps1 ls ps2 where l: "line ps = Some (l, ps1)" "f (mark l ps1) = Some (ls, ps2)"
    "r = (case l of None \<Rightarrow> ls | Some a \<Rightarrow> a # ls, ps2)" by auto
  from ih [OF l(2)] line [OF l(1)] noted [of ps1 l] l(3) show ?thesis
    by (cases l) (auto simp: lines_good_def)
qed

lemma proc_lines_good:
  assumes "parse_proc_lines ps = Some r"
  shows "lines_good good_line ps r"
proof (rule parse_proc_lines.raw_induct [OF _ assms])
  fix f ps r
  assume ih: "\<And>ps r. f ps = Some r \<Longrightarrow> lines_good good_line ps r"
    and f: "(if tok ps = TOKEN_ENDP \<or> tok ps = TOKEN_EOF then Some ([], ps) else do {
        (l, ps1) \<leftarrow> tasm_parse_proc_line ps;
        (ls, ps2) \<leftarrow> f (note_line l ps1);
        Some (case l of None \<Rightarrow> ls | Some a \<Rightarrow> a # ls, ps2) }) = Some r"
  show "lines_good good_line ps r"
    using err_stays.proc_line_R tokens.proc_line_R proc_line_good err_stays.note_R(1) tokens.note_R(1)
    by (intro loop_turn [where f = f and mark = note_line and line = tasm_parse_proc_line, OF ih f]) blast+
qed

definition good_file_line :: "tasm_ast \<Rightarrow> bool" where
  "good_file_line l \<longleftrightarrow> wf_line l \<and> (\<forall>x \<in> set (flat_line l). operands_ok (snd x) \<and> value_fits (snd x))"

lemma good_file_line_plain: "good_line a \<Longrightarrow> good_file_line a"
  by (cases a) (simp_all add: good_line_def good_file_line_def)

lemma proc_good:
  assumes "tasm_parse_proc ps = Some (a, ps')" and "tokens_ok ps" and "\<not> is_err ps'"
  shows "good_file_line a"
proof -
  from assms(1) obtain ps1 ps2 ls ps3 ps4 ps5 where e: "eat ps TOKEN_PROC = Some ps1" "eat ps1 TOKEN_ID = Some ps2"
    "parse_proc_lines ps2 = Some (ls, ps3)" "eat ps3 TOKEN_ENDP = Some ps4" "is_err ps4 \<longrightarrow> is_err ps5"
    "end_of_line (ps5\<lparr>proc_return_warning := True\<rparr>) = Some ps'" "a = AST_PROC (tok_value (current_token ps1)) ls"
    using err_stays.warn_if_R by (fastforce simp: tasm_parse_proc_def Let_def simp del: if_split)
  have "\<not> is_err ps4" using err_stays.end_of_line_R [OF e(6)] assms(3) e(5) by auto
  then have e3: "\<not> is_err ps3" using err_stays.eat_R [OF e(4)] by blast
  then have "\<not> is_err ps2" using err_stays.proc_lines_R [OF e(3)] by auto
  with eat_ok [OF e(2)] have "tok ps1 = TOKEN_ID" by blast
  moreover have t1: "tokens_ok ps1" using tokens.eat_R [OF e(1)] assms(2) by blast
  ultimately have "tok_value (current_token ps1) \<noteq> None" by (auto simp: tokens_ok_def token_ok_def tok_def)
  moreover have "tokens_ok ps2" using tokens.eat_R [OF e(2)] t1 by blast
  with proc_lines_good [OF e(3)] e3 have "list_all good_line ls" by (simp add: lines_good_def)
  ultimately show ?thesis by (auto simp: good_file_line_def good_line_def list_all_iff e(7))
qed

lemma line_good:
  "tasm_parse_line ps = Some (Some a, ps') \<Longrightarrow> tokens_ok ps \<Longrightarrow> \<not> is_err ps' \<Longrightarrow> good_file_line a"
  by (auto simp: tasm_parse_line_def err_stays.found_iff split: if_splits
      dest: label_decl_good instruction_good metadata_good proc_good good_file_line_plain)

lemma file_lines_good:
  assumes "parse_file_lines ps = Some r"
  shows "lines_good good_file_line ps r"
proof (rule parse_file_lines.raw_induct [OF _ assms])
  fix f ps r
  assume ih: "\<And>ps r. f ps = Some r \<Longrightarrow> lines_good good_file_line ps r"
    and f: "(if tok ps = TOKEN_EOF then Some ([], ps) else do {
        (l, ps1) \<leftarrow> tasm_parse_line ps;
        (ls, ps2) \<leftarrow> f (note_file_line l ps1);
        Some (case l of None \<Rightarrow> ls | Some a \<Rightarrow> a # ls, ps2) }) = Some r"
  show "lines_good good_file_line ps r"
    using err_stays.line_R tokens.line_R line_good err_stays.note_R(2) tokens.note_R(2)
    by (intro loop_turn [where f = f and mark = note_file_line and line = tasm_parse_line, OF ih f]) blast+
qed

lemma init_parser:
  assumes "tasm_parser_init lx = Some ps"
  shows "tokens_ok ps" and "reported ps" and "\<not> is_err ps" and "tok ps = TOKEN_NONE"
  using assms by (auto simp: tasm_parser_init_def tokens_ok_def reported_def tok_def dest: next_token_ok)

lemma file_good:
  assumes "tasm_parse_file ps = Some (a, ps')" and "tokens_ok ps" and "\<not> is_err ps'"
  shows "\<exists>ls. a = AST_FILE ls \<and> list_all good_file_line ls"
proof -
  from assms(1) obtain ps1 ls ps2 ps3 where e: "eat ps TOKEN_NONE = Some ps1"
    "parse_file_lines ps1 = Some (ls, ps2)" "is_err ps2 \<longrightarrow> is_err ps3"
    "end_of_line (ps3\<lparr>global_hlt_warning := True\<rparr>) = Some ps'" "a = AST_FILE ls"
    using err_stays.warn_if_R by (fastforce simp: tasm_parse_file_def Let_def simp del: if_split)
  have "\<not> is_err ps2" using err_stays.end_of_line_R [OF e(4)] assms(3) e(3) by auto
  moreover have "tokens_ok ps1" using tokens.eat_R [OF e(1)] assms(2) by blast
  ultimately show ?thesis using file_lines_good [OF e(2)] e(5) by (simp add: lines_good_def)
qed

end
