(* ===== verification/Parser_Progress.thy ===== *)
theory Parser_Progress
  imports Parser_Result
begin

text \<open>
  Which inputs the parser's loops end on. A turn of a loop over lines consumes a token unless the
  line starts with one that no branch of the line function handles: a minus, or at file level the
  word \<open>data\<close>. There the loop repeats for ever without moving. The locale \<open>line_loop\<close> derives from
  these two facts when such a loop returns.
\<close>

definition consumes :: "tasm_parser_t \<Rightarrow> tasm_parser_t \<Rightarrow> bool" where
  "consumes ps ps' \<longleftrightarrow> (lexable (lexer ps) \<longrightarrow> lexable (lexer ps') \<and> pending ps' < pending ps)"

definition leaves :: "tasm_parser_t \<Rightarrow> tasm_parser_t \<Rightarrow> bool" where
  "leaves ps ps' \<longleftrightarrow> (lexable (lexer ps) \<longrightarrow> lexable (lexer ps') \<and> pending ps' \<le> pending ps)"

lemmas eat_leaves = input.eat_R [folded leaves_def] and eat_if_leaves = input.eat_if_R [folded leaves_def]
  and err_if_leaves = input.err_if_R [folded leaves_def] and end_of_line_leaves = input.end_of_line_R [folded leaves_def]
  and operand_leaves = input.operand_R [folded leaves_def] and proc_lines_leaves = input.proc_lines_R [folded leaves_def]
  and strays_leaves = input.skip_strays_R [folded leaves_def]

lemma consumes_leaves: "consumes ps1 ps2 \<Longrightarrow> leaves ps2 ps3 \<Longrightarrow> consumes ps1 ps3"
  by (auto simp: consumes_def leaves_def)

lemma leaves_trans: "leaves ps1 ps2 \<Longrightarrow> leaves ps2 ps3 \<Longrightarrow> leaves ps1 ps3"
  by (auto simp: leaves_def)

lemma window_consumes: "next_window ps = Some ps' \<Longrightarrow> tok ps \<noteq> TOKEN_EOF \<Longrightarrow> consumes ps ps'"
  using window_pending [of ps] by (auto simp: consumes_def)

lemma eat_consumes: "eat ps t = Some ps' \<Longrightarrow> tok ps = t \<Longrightarrow> t \<noteq> TOKEN_EOF \<Longrightarrow> consumes ps ps'"
  by (auto elim!: eat_cases intro: window_consumes)

lemma err_consumes: "tasm_parser_err ps c m = Some ps' \<Longrightarrow> tok ps \<noteq> TOKEN_EOF \<Longrightarrow> consumes ps ps'"
  using err_steps [of ps c m ps'] window_consumes [of ps]
  by (auto simp: consumes_def pending_def tok_def)

lemma label_decl_consumes:
  assumes "tasm_parse_label_decl ps = Some (a, ps')" and "tok ps = TOKEN_ID"
  shows "consumes ps ps'"
proof -
  from assms(1) obtain ps1 where e: "eat ps TOKEN_ID = Some ps1" "eat ps1 TOKEN_COLON = Some ps'"
    by (auto simp: tasm_parse_label_decl_def)
  from eat_consumes [OF e(1) assms(2)] eat_leaves [OF e(2)] show ?thesis by (simp add: consumes_leaves)
qed

lemma instruction_consumes: "tasm_parse_instruction ps = Some (a, ps') \<Longrightarrow> consumes ps ps'"
proof -
  assume "tasm_parse_instruction ps = Some (a, ps')"
  then obtain op oprnd ps1 ps2 where e: "tok ps = TOKEN_OP op" "eat ps (TOKEN_OP op) = Some ps1"
    "parse_operand op ps1 = Some (oprnd, ps2)" "end_of_line ps2 = Some ps'"
    by (auto simp: tasm_parse_instruction_def split: token_type_t.splits)
  have "leaves ps1 ps'" by (rule leaves_trans [OF operand_leaves [OF e(3)] end_of_line_leaves [OF e(4)]])
  with eat_consumes [OF e(2,1)] show ?thesis by (auto intro: consumes_leaves)
qed

lemma proc_consumes: "tasm_parse_proc ps = Some (a, ps') \<Longrightarrow> tok ps = TOKEN_PROC \<Longrightarrow> consumes ps ps'"
proof -
  assume p: "tasm_parse_proc ps = Some (a, ps')" and t: "tok ps = TOKEN_PROC"
  then obtain ps1 ps2 ls ps3 ps4 ps5 where e: "eat ps TOKEN_PROC = Some ps1" "eat ps1 TOKEN_ID = Some ps2"
    "parse_proc_lines ps2 = Some (ls, ps3)" "eat ps3 TOKEN_ENDP = Some ps4" "leaves ps4 ps5"
    "end_of_line (ps5\<lparr>proc_return_warning := True\<rparr>) = Some ps'"
    using input.warn_if_R by (fastforce simp: tasm_parse_proc_def Let_def leaves_def simp del: if_split)
  have "leaves ps1 ps2" by (rule eat_leaves [OF e(2)])
  moreover have "leaves ps2 ps3" using proc_lines_leaves [OF e(3)] by simp
  moreover have "leaves ps3 ps4" by (rule eat_leaves [OF e(4)])
  moreover have "leaves ps5 ps'" using input.end_of_line_R [OF e(6)] by (simp add: leaves_def pending_def tok_def)
  ultimately have "leaves ps1 ps'" using e(5) leaves_trans by blast
  with eat_consumes [OF e(1) t] show ?thesis by (auto intro: consumes_leaves)
qed

lemma metadata_consumes: "tasm_parse_metadata ps = Some (a, ps') \<Longrightarrow> tok ps = TOKEN_AT \<Longrightarrow> consumes ps ps'"
proof -
  assume p: "tasm_parse_metadata ps = Some (a, ps')" and t: "tok ps = TOKEN_AT"
  then obtain ps1 where e: "eat ps TOKEN_AT = Some ps1" by (auto simp: tasm_parse_metadata_def)
  with p have "leaves ps1 ps'"
    using input.cfunction_R [of ps1] input.data_R [of ps1] input.eat_R [of ps1]
    by (auto simp: tasm_parse_metadata_def tasm_parse_cstruct_def input.found_iff leaves_def split: if_splits)
  with eat_consumes [OF e t] show ?thesis by (auto intro: consumes_leaves)
qed

subsection \<open>Tokens without a branch\<close>

definition handled_elsewhere :: "token_type_t \<Rightarrow> bool" where
  "handled_elsewhere t \<longleftrightarrow> t = TOKEN_PROC \<or> t = TOKEN_AT \<or> (\<exists>op. t = TOKEN_OP op)"

lemma skip_strays_idle: "tok ps = TOKEN_MINUS \<or> tok ps = TOKEN_DATA \<Longrightarrow> skip_strays c d ps = Some ps"
  by (elim disjE) (simp_all add: skip_strays_def err_if_def eat_if_def is_stray_def is_line_cinterface_token_def
      is_token_ctype_def is_line_endp_def)

lemma skip_strays_consumes:
  assumes "skip_strays c d ps = Some ps'" and "\<not> handled_elsewhere (tok ps)"
    and "tok ps \<noteq> TOKEN_MINUS" "tok ps \<noteq> TOKEN_DATA" "tok ps \<noteq> TOKEN_EOF"
  shows "consumes ps ps'"
proof -
  from assms(1) obtain ps1 ps2 ps3 ps4 ps5 where e:
    "err_if (is_stray ps) ps c ''Unexpected identifier or number or symbol'' = Some ps1"
    "err_if (is_line_cinterface_token ps1) ps1 d ''Unexpected C interface token'' = Some ps2"
    "err_if (is_line_endp ps2) ps2 COMPOSITE_TYPE_ERR_CODE ''Unexpected endp'' = Some ps3"
    "eat_if ps3 TOKEN_ENDLINE = Some ps4" "eat_if ps4 TOKEN_COMMENT = Some ps5" "eat_if ps5 TOKEN_EOF = Some ps'"
    by (auto simp: skip_strays_def)
  have l: "leaves ps1 ps2" "leaves ps2 ps3" "leaves ps3 ps4" "leaves ps4 ps5" "leaves ps5 ps'"
    using e by (auto intro: err_if_leaves eat_if_leaves)
  consider "is_stray ps" | "\<not> is_stray ps" "is_line_cinterface_token ps"
    | "\<not> is_stray ps" "\<not> is_line_cinterface_token ps" "is_line_endp ps"
    | "\<not> is_stray ps" "\<not> is_line_cinterface_token ps" "\<not> is_line_endp ps"
      "tok ps = TOKEN_ENDLINE \<or> tok ps = TOKEN_COMMENT"
    using assms(2-5) by (cases "tok ps") (auto simp: handled_elsewhere_def is_stray_def
        is_line_cinterface_token_def is_token_ctype_def is_line_endp_def)
  then have "consumes ps ps1 \<or> ps1 = ps \<and> consumes ps ps2 \<or> ps1 = ps \<and> ps2 = ps \<and> consumes ps ps3 \<or>
      consumes ps ps4 \<or> consumes ps ps5"
    using e assms(5)
    by cases (auto simp: err_if_def eat_if_def dest: err_consumes eat_consumes)
  then show ?thesis using l leaves_trans consumes_leaves by blast
qed

subsection \<open>Loops over lines\<close>

text \<open>The contract of such a loop: its equation, its induction rule, a turn that moves on, a turn that
  does not; \<open>reach\<close> are the states at the starts of its turns.\<close>

locale line_loop =
  fixes loop :: "tasm_parser_t \<Rightarrow> (tasm_ast list \<times> tasm_parser_t) option"
    and stop stuck :: "tasm_parser_t \<Rightarrow> bool"
    and line :: "tasm_parser_t \<Rightarrow> parse_opt_result"
    and mark :: "tasm_ast option \<Rightarrow> tasm_parser_t \<Rightarrow> tasm_parser_t"
    and reach :: "tasm_parser_t \<Rightarrow> tasm_parser_t \<Rightarrow> bool"
  assumes unfold: "loop ps = (if stop ps then Some ([], ps) else do {
        (l, ps1) \<leftarrow> line ps;
        (ls, ps2) \<leftarrow> loop (mark l ps1);
        Some (case l of None \<Rightarrow> ls | Some a \<Rightarrow> a # ls, ps2) })"
    and induct: "(\<And>f ps r. (\<And>ps r. f ps = Some r \<Longrightarrow> P ps r) \<Longrightarrow>
        (if stop ps then Some ([], ps) else do {
          (l, ps1) \<leftarrow> line ps;
          (ls, ps2) \<leftarrow> f (mark l ps1);
          Some (case l of None \<Rightarrow> ls | Some a \<Rightarrow> a # ls, ps2) }) = Some r \<Longrightarrow> P ps r) \<Longrightarrow>
      loop ps = Some r \<Longrightarrow> P ps r"
    and progress: "\<not> stop ps \<Longrightarrow> \<not> stuck ps \<Longrightarrow> line ps = Some (l, ps1) \<Longrightarrow> consumes ps (mark l ps1)"
    and stuck: "stuck ps \<Longrightarrow> \<not> stop ps \<and> (\<exists>l. line ps = Some (l, ps) \<and> mark l ps = ps)"
    and reach_iff: "reach ps ps' \<longleftrightarrow> ps' = ps \<or>
      \<not> stop ps \<and> (\<exists>l ps1. line ps = Some (l, ps1) \<and> reach (mark l ps1) ps')"
begin

definition fine :: "tasm_parser_t \<Rightarrow> bool" where
  "fine ps \<longleftrightarrow> stop ps \<or> \<not> stuck ps \<and> line ps \<noteq> None"

lemma returns_fine:
  assumes "loop ps = Some r" and "reach ps ps'"
  shows "fine ps'"
proof -
  have "\<forall>ps'. reach ps ps' \<longrightarrow> fine ps'"
  proof (rule induct [OF _ assms(1)])
    fix f ps r
    assume ih: "\<And>ps r. f ps = Some r \<Longrightarrow> \<forall>ps'. reach ps ps' \<longrightarrow> fine ps'"
      and f: "(if stop ps then Some ([], ps) else do {
          (l, ps1) \<leftarrow> line ps;
          (ls, ps2) \<leftarrow> f (mark l ps1);
          Some (case l of None \<Rightarrow> ls | Some a \<Rightarrow> a # ls, ps2) }) = Some r"
    show "\<forall>ps'. reach ps ps' \<longrightarrow> fine ps'"
    proof (cases "stop ps")
      case True
      then show ?thesis by (subst reach_iff) (auto simp: fine_def)
    next
      case False
      with f obtain l ps1 r1 where l: "line ps = Some (l, ps1)" "f (mark l ps1) = Some r1"
        by (auto split: prod.splits)
      note rec = ih [OF l(2)]
      have "\<not> stuck ps"
      proof
        assume s: "stuck ps"
        with stuck [OF s] l(1) have "mark l ps1 = ps" by auto
        with rec reach_iff [of ps ps] have "fine ps" by simp
        with s stuck [OF s] show False by (simp add: fine_def)
      qed
      with rec l(1) show ?thesis by (subst reach_iff) (auto simp: fine_def)
    qed
  qed
  with assms(2) show ?thesis by blast
qed

lemma fine_returns:
  assumes "lexable (lexer ps)" and "\<And>ps'. reach ps ps' \<Longrightarrow> fine ps'"
  shows "\<exists>r. loop ps = Some r"
  using assms
proof (induction "pending ps" arbitrary: ps rule: less_induct)
  case less
  have "fine ps" using less.prems(2) reach_iff by blast
  show ?case
  proof (cases "stop ps")
    case True
    then show ?thesis by (subst unfold) simp
  next
    case False
    with \<open>fine ps\<close> obtain l ps1 where l: "line ps = Some (l, ps1)" "\<not> stuck ps" by (auto simp: fine_def)
    from progress [OF False l(2,1)] less.prems(1)
    have "pending (mark l ps1) < pending ps" "lexable (lexer (mark l ps1))" by (auto simp: consumes_def)
    moreover have "fine ps'" if "reach (mark l ps1) ps'" for ps'
      using less.prems(2) [of ps'] that False l(1) reach_iff [of ps ps'] by blast
    ultimately obtain r where "loop (mark l ps1) = Some r" using less.hyps by blast
    with False l(1) show ?thesis by (subst unfold) (simp split: prod.split)
  qed
qed

theorem returns_iff:
  "lexable (lexer ps) \<Longrightarrow> (loop ps \<noteq> None) = (\<forall>ps'. reach ps ps' \<longrightarrow> fine ps')"
  using returns_fine fine_returns by (metis not_Some_eq)

end

text \<open>The states at the starts of lines, at file level and inside a procedure.\<close>

inductive file_reach :: "tasm_parser_t \<Rightarrow> tasm_parser_t \<Rightarrow> bool" where
  here: "file_reach ps ps"
| turn: "tok ps \<noteq> TOKEN_EOF \<Longrightarrow> tasm_parse_line ps = Some (l, ps1) \<Longrightarrow>
    file_reach (note_file_line l ps1) ps' \<Longrightarrow> file_reach ps ps'"

inductive proc_reach :: "tasm_parser_t \<Rightarrow> tasm_parser_t \<Rightarrow> bool" where
  proc_here: "proc_reach ps ps"
| proc_turn: "tok ps \<noteq> TOKEN_ENDP \<Longrightarrow> tok ps \<noteq> TOKEN_EOF \<Longrightarrow> tasm_parse_proc_line ps = Some (l, ps1) \<Longrightarrow>
    proc_reach (note_line l ps1) ps' \<Longrightarrow> proc_reach ps ps'"

inductive_simps file_reach_iff: "file_reach ps ps'"
inductive_simps proc_reach_iff: "proc_reach ps ps'"

lemma mark_leaves: "leaves ps (note_line l ps)" "leaves ps (note_file_line l ps)"
  using input.note_R by (simp_all add: leaves_def)

lemma line_consumes:
  assumes "tasm_parse_line ps = Some (l, ps')" and "tok ps \<noteq> TOKEN_EOF" "tok ps \<noteq> TOKEN_MINUS" "tok ps \<noteq> TOKEN_DATA"
  shows "consumes ps ps'"
proof -
  consider "is_line_label_decl ps" | "\<not> is_line_label_decl ps" "is_line_proc ps"
    | "\<not> is_line_label_decl ps" "\<not> is_line_proc ps" "is_line_instruction ps"
    | "\<not> is_line_label_decl ps" "\<not> is_line_proc ps" "\<not> is_line_instruction ps" "is_line_meta ps"
    | "\<not> is_line_label_decl ps" "\<not> is_line_proc ps" "\<not> is_line_instruction ps" "\<not> is_line_meta ps"
    by blast
  then show ?thesis
  proof cases
    case 5
    then have "\<not> handled_elsewhere (tok ps)"
      by (auto simp: handled_elsewhere_def is_line_proc_def is_line_instruction_def is_line_meta_def)
    with 5 assms skip_strays_consumes [of 1200 5100 ps ps'] show ?thesis
      by (simp add: tasm_parse_line_def)
  qed (use assms label_decl_consumes proc_consumes instruction_consumes metadata_consumes in
      \<open>auto simp: tasm_parse_line_def input.found_iff is_line_label_decl_def is_line_proc_def is_line_meta_def\<close>)
qed

interpretation file_loop: line_loop parse_file_lines "\<lambda>ps. tok ps = TOKEN_EOF"
  "\<lambda>ps. tok ps = TOKEN_MINUS \<or> tok ps = TOKEN_DATA" tasm_parse_line note_file_line file_reach
proof unfold_locales
  fix ps
  assume s: "tok ps = TOKEN_MINUS \<or> tok ps = TOKEN_DATA"
  then have "tasm_parse_line ps = Some (None, ps)"
    by (elim disjE) (simp_all add: tasm_parse_line_def is_line_label_decl_def is_line_proc_def
        is_line_instruction_def is_line_meta_def skip_strays_idle)
  with s show "tok ps \<noteq> TOKEN_EOF \<and> (\<exists>l. tasm_parse_line ps = Some (l, ps) \<and> note_file_line l ps = ps)"
    by (auto simp: note_file_line_def)
next
  fix ps l ps1
  assume "tok ps \<noteq> TOKEN_EOF" "\<not> (tok ps = TOKEN_MINUS \<or> tok ps = TOKEN_DATA)" "tasm_parse_line ps = Some (l, ps1)"
  then show "consumes ps (note_file_line l ps1)"
    using line_consumes [of ps l ps1] mark_leaves(2) consumes_leaves by blast
next
  fix P ps r
  assume "\<And>f ps r. (\<And>ps r. f ps = Some r \<Longrightarrow> P ps r) \<Longrightarrow>
      (if tok ps = TOKEN_EOF then Some ([], ps) else do {
         (l, ps1) \<leftarrow> tasm_parse_line ps;
         (ls, ps2) \<leftarrow> f (note_file_line l ps1);
         Some (case l of None \<Rightarrow> ls | Some a \<Rightarrow> a # ls, ps2) }) = Some r \<Longrightarrow> P ps r"
    and "parse_file_lines ps = Some r"
  then show "P ps r" by (rule parse_file_lines.raw_induct)
next
  fix ps ps'
  show "file_reach ps ps' \<longleftrightarrow> ps' = ps \<or>
      tok ps \<noteq> TOKEN_EOF \<and> (\<exists>l ps1. tasm_parse_line ps = Some (l, ps1) \<and> file_reach (note_file_line l ps1) ps')"
    by (subst file_reach_iff) auto
qed (rule parse_file_lines.simps)

lemma proc_line_consumes:
  assumes "tasm_parse_proc_line ps = Some (l, ps')" and "tok ps \<noteq> TOKEN_EOF" "tok ps \<noteq> TOKEN_MINUS"
  shows "consumes ps ps'"
proof -
  consider "is_line_label_decl ps" | "\<not> is_line_label_decl ps" "is_line_instruction ps"
    | "\<not> is_line_label_decl ps" "\<not> is_line_instruction ps" by blast
  then show ?thesis
  proof cases
    case 3
    with assms(1) obtain ps1 ps2 ps3 where e:
      "err_if (is_line_proc ps) ps 3401 ''A proc cannot be defined in anothe proc'' = Some ps1"
      "err_if (is_line_meta ps1) ps1 3601 ''Meta decleration must be declared at global scope'' = Some ps2"
      "err_if (tok ps2 = TOKEN_DATA) ps2 3601 ''@data decleration must be declared at global scope'' = Some ps3"
      "skip_strays 1201 5101 ps3 = Some ps'" by (auto simp: tasm_parse_proc_line_def)
    have l: "leaves ps1 ps2" "leaves ps2 ps3" "leaves ps3 ps'"
      using e strays_leaves [OF e(4)] by (auto intro: err_if_leaves)
    have "consumes ps ps1 \<or> consumes ps ps2 \<and> ps1 = ps \<or> consumes ps ps3 \<or> ps3 = ps \<and> \<not> handled_elsewhere (tok ps)
        \<and> tok ps \<noteq> TOKEN_DATA"
      using e(1-3) 3(2) assms(2)
      by (auto simp: err_if_def is_line_proc_def is_line_meta_def handled_elsewhere_def is_line_instruction_def
          dest: err_consumes split: if_splits)
    then show ?thesis
      using l leaves_trans consumes_leaves skip_strays_consumes [OF e(4)] assms(2,3) by metis
  qed (use assms(1) label_decl_consumes instruction_consumes in
      \<open>auto simp: tasm_parse_proc_line_def input.found_iff is_line_label_decl_def\<close>)
qed

interpretation proc_loop: line_loop parse_proc_lines "\<lambda>ps. tok ps = TOKEN_ENDP \<or> tok ps = TOKEN_EOF"
  "\<lambda>ps. tok ps = TOKEN_MINUS" tasm_parse_proc_line note_line proc_reach
proof unfold_locales
  fix ps
  assume s: "tok ps = TOKEN_MINUS"
  then have "tasm_parse_proc_line ps = Some (None, ps)"
    by (simp add: tasm_parse_proc_line_def is_line_label_decl_def is_line_proc_def
        is_line_instruction_def is_line_meta_def skip_strays_idle err_if_def)
  with s show "\<not> (tok ps = TOKEN_ENDP \<or> tok ps = TOKEN_EOF) \<and>
      (\<exists>l. tasm_parse_proc_line ps = Some (l, ps) \<and> note_line l ps = ps)"
    by (auto simp: note_line_def)
next
  fix ps l ps1
  assume "\<not> (tok ps = TOKEN_ENDP \<or> tok ps = TOKEN_EOF)" "tok ps \<noteq> TOKEN_MINUS"
    "tasm_parse_proc_line ps = Some (l, ps1)"
  then show "consumes ps (note_line l ps1)"
    using proc_line_consumes [of ps l ps1] mark_leaves(1) consumes_leaves by blast
next
  fix P ps r
  assume "\<And>f ps r. (\<And>ps r. f ps = Some r \<Longrightarrow> P ps r) \<Longrightarrow>
      (if tok ps = TOKEN_ENDP \<or> tok ps = TOKEN_EOF then Some ([], ps) else do {
         (l, ps1) \<leftarrow> tasm_parse_proc_line ps;
         (ls, ps2) \<leftarrow> f (note_line l ps1);
         Some (case l of None \<Rightarrow> ls | Some a \<Rightarrow> a # ls, ps2) }) = Some r \<Longrightarrow> P ps r"
    and "parse_proc_lines ps = Some r"
  then show "P ps r" by (rule parse_proc_lines.raw_induct)
next
  fix ps ps'
  show "proc_reach ps ps' \<longleftrightarrow> ps' = ps \<or>
      \<not> (tok ps = TOKEN_ENDP \<or> tok ps = TOKEN_EOF) \<and>
      (\<exists>l ps1. tasm_parse_proc_line ps = Some (l, ps1) \<and> proc_reach (note_line l ps1) ps')"
    by (subst proc_reach_iff) auto
qed (rule parse_proc_lines.simps)

end
