(* ===== verification/Source_Grammar.thy ===== *)
theory Source_Grammar
  imports Tasm_Parser
begin

text \<open>
  The assembly language as a grammar: which texts denote which syntax trees. Words have the tokens
  they are read as, a line is a sequence of words between blanks that may end with a comment, and a
  file is a sequence of lines that are empty, hold a statement or a declaration, or open and close
  a procedure. It is stated without reference to the functions of lexer and parser; the values of
  literals and the table of operands are those of \<open>Tasm_Parser\<close>.
\<close>

subsection \<open>Words\<close>

abbreviation tk :: "token_type_t \<Rightarrow> bytes \<Rightarrow> tasm_token_t" where
  "tk t w \<equiv> tasm_token_create t (Some w)"

definition name_text :: "bytes \<Rightarrow> bool" where
  "name_text w \<longleftrightarrow> w \<noteq> [] \<and> (c_isalpha (hd w) \<or> hd w = 95) \<and> list_all is_id_char w"

definition digits_text :: "(u8 \<Rightarrow> bool) \<Rightarrow> bytes \<Rightarrow> bool" where
  "digits_text P w \<longleftrightarrow> w \<noteq> [] \<and> list_all P w"

text \<open>The text of a string without its quotes: an escape that is not known stands for nothing.\<close>

fun unescape :: "bytes \<Rightarrow> bytes option" where
  "unescape [] = Some []"
| "unescape (c # r) =
     (if c = 92 then (case r of
        [] \<Rightarrow> None
      | d # r' \<Rightarrow> map_option (\<lambda>v. (case escape d of None \<Rightarrow> v | Some b \<Rightarrow> b # v)) (unescape r'))
      else if c = c_quote then None
      else map_option (Cons c) (unescape r))"

definition sign_words :: "(u8 \<times> token_type_t) list" where
  "sign_words = [(45, TOKEN_MINUS), (58, TOKEN_COLON), (64, TOKEN_AT)]"

inductive word :: "tasm_token_t list \<Rightarrow> bytes \<Rightarrow> bool" where
  name: "name_text w \<Longrightarrow> word [tk (id_type w) w] w"
| decimal: "digits_text c_isdigit w \<Longrightarrow> word [tk TOKEN_DECIMAL_NUMBER w] w"
| fraction: "digits_text c_isdigit w \<Longrightarrow> list_all c_isdigit f \<Longrightarrow> word [tk TOKEN_FLOAT_NUMBER (w @ 46 # f)] (w @ 46 # f)"
| hex: "digits_text c_isxdigit w \<Longrightarrow> x \<in> {120, 88} \<Longrightarrow> word [tk TOKEN_HEX_NUMBER w] (48 # x # w)"
| binary: "digits_text (\<lambda>c. c = 48 \<or> c = 49) w \<Longrightarrow> x \<in> {98, 66} \<Longrightarrow> word [tk TOKEN_BINARY_NUMBER w] (48 # x # w)"
| sign: "(c, t) \<in> set sign_words \<Longrightarrow> word [tk t [c]] [c]"
| char: "c \<noteq> c_quote \<Longrightarrow> c \<noteq> c_apost \<Longrightarrow>
    word [tk TOKEN_APOST [c_apost], tk TOKEN_CHAR [c], tk TOKEN_APOST [c_apost]] [c_apost, c, c_apost]"
| str: "unescape r = Some v \<Longrightarrow> r \<noteq> [] \<Longrightarrow> hd r \<noteq> c_apost \<Longrightarrow>
    word [tk TOKEN_QUOTA [c_quote], tk TOKEN_STRING (takeWhile (\<lambda>b. b \<noteq> 0) v), tk TOKEN_QUOTA [c_quote]]
      (c_quote # r @ [c_quote])"

text \<open>What may follow a word: a name or number ends where no character continues it, and behind a closing
  quote the line ends.\<close>

definition separated :: "bytes \<Rightarrow> bytes \<Rightarrow> bool" where
  "separated w l \<longleftrightarrow>
     (if is_id_char (hd w) then l = [] \<or> \<not> is_id_char (hd l) \<and> hd l \<noteq> 46
      else if hd w = c_quote \<or> hd w = c_apost then l = []
      else True)"

subsection \<open>Lines\<close>

definition blanks :: "bytes \<Rightarrow> bool" where
  "blanks b \<longleftrightarrow> list_all (\<lambda>c. c = 32 \<or> c = 9) b"

definition comment_token :: tasm_token_t where "comment_token = tk TOKEN_COMMENT [59]"

inductive spelled_line :: "tasm_token_t list \<Rightarrow> bytes \<Rightarrow> bool" where
  ends: "blanks b \<Longrightarrow> spelled_line [] b"
| comment: "blanks b \<Longrightarrow> spelled_line [comment_token] (b @ 59 # c)"
| word: "blanks b \<Longrightarrow> word us w \<Longrightarrow> separated w l \<Longrightarrow> spelled_line ts l \<Longrightarrow> spelled_line (us @ ts) (b @ w @ l)"

text \<open>The lines of a text file have at most 126 characters, none of them a zero byte, a newline or the
  byte \<open>EOF\<close>.\<close>

definition printable_line :: "bytes \<Rightarrow> bool" where
  "printable_line l \<longleftrightarrow> length l \<le> 126 \<and> 0 \<notin> set l \<and> c_newline \<notin> set l \<and> c_eof \<notin> set l"

subsection \<open>Statements\<close>

inductive number :: "token_type_t \<Rightarrow> bytes \<Rightarrow> u32 \<Rightarrow> bool" where
  decimal: "c_atoi w = Some v \<Longrightarrow> number TOKEN_DECIMAL_NUMBER w v"
| fraction: "number TOKEN_FLOAT_NUMBER w (c_strtof w)"
| hex: "number TOKEN_HEX_NUMBER w (radix_value w 16)"
| binary: "number TOKEN_BINARY_NUMBER w (radix_value w 2)"

inductive operand_text :: "operand_kind \<Rightarrow> tasm_token_t list \<Rightarrow> tasm_ast \<Rightarrow> bool" where
  int: "number t w v \<Longrightarrow> t = TOKEN_DECIMAL_NUMBER \<or> t = TOKEN_HEX_NUMBER \<Longrightarrow> k = Int_operand \<or> k = Jmp_operand \<Longrightarrow>
    operand_text k [tk t w] (AST_NUMBER w v)"
| number: "number t w v \<Longrightarrow> operand_text Push_operand [tk t w] (AST_NUMBER w v)"
| negative: "number t (45 # w) v \<Longrightarrow>
    operand_text Push_operand [tk TOKEN_MINUS [45], tk t w] (AST_NUMBER (45 # w) v)"
| char: "operand_text Push_operand
    [tk TOKEN_APOST [c_apost], tk TOKEN_CHAR c, tk TOKEN_APOST [c_apost]] (AST_CHAR (Some c))"
| label: "k = Jmp_operand \<or> k = Label_operand \<Longrightarrow> operand_text k [tk TOKEN_ID n] (AST_LABEL_CALL n)"

inductive statement :: "tasm_token_t list \<Rightarrow> tasm_ast \<Rightarrow> bool" where
  plain: "map_of operand_table op = None \<Longrightarrow> statement [tk (TOKEN_OP op) n] (AST_OP op n None)"
| operand: "map_of operand_table op = Some (k, e, msg) \<Longrightarrow> operand_text k us a \<Longrightarrow>
    statement (tk (TOKEN_OP op) n # us) (AST_OP op n (Some a))"
| label: "statement [tk TOKEN_ID n, tk TOKEN_COLON [58]] (AST_LABEL_DECL n)"

definition ctype_token :: "tvm_ctype \<times> bytes \<Rightarrow> tasm_token_t" where
  "ctype_token a = tk (TOKEN_TCI (fst a)) (snd a)"

inductive meta_line :: "tasm_token_t list \<Rightarrow> tasm_ast \<Rightarrow> bool" where
  const: "operand_text Push_operand us a \<Longrightarrow>
    meta_line (tk TOKEN_AT [64] # tk TOKEN_DATA d # us) (AST_DATA (Some a))"
| str: "meta_line [tk TOKEN_AT [64], tk TOKEN_DATA d, tk TOKEN_QUOTA [c_quote], tk TOKEN_STRING v, tk TOKEN_QUOTA [c_quote]]
    (AST_DATA (Some (AST_STRING v)))"
| cfunction: "meta_line ([tk TOKEN_AT [64], tk TOKEN_CFUNCTION d, ctype_token ret, tk TOKEN_ID n] @ map ctype_token args)
    (AST_CFUNCTION (ctype_code (fst ret)) (map (ctype_code \<circ> fst) args) (word_of_nat (length args)) (Some n))"

subsection \<open>Files\<close>

text \<open>The lines of a procedure and of a file, given by the tokens of every line.\<close>

definition trailer :: "tasm_token_t list \<Rightarrow> bool" where
  "trailer t \<longleftrightarrow> t = [] \<or> t = [comment_token]"

inductive proc_text :: "tasm_ast list \<Rightarrow> tasm_token_t list list \<Rightarrow> bool" where
  nil: "proc_text [] []"
| empty: "trailer t \<Longrightarrow> proc_text ls tss \<Longrightarrow> proc_text ls (t # tss)"
| line: "statement us a \<Longrightarrow> trailer t \<Longrightarrow> proc_text ls tss \<Longrightarrow> proc_text (a # ls) ((us @ t) # tss)"

inductive file_text :: "tasm_ast list \<Rightarrow> tasm_token_t list list \<Rightarrow> bool" where
  nil: "file_text [] []"
| empty: "trailer t \<Longrightarrow> file_text ls tss \<Longrightarrow> file_text ls (t # tss)"
| line: "statement us a \<or> meta_line us a \<Longrightarrow> trailer t \<Longrightarrow> file_text ls tss \<Longrightarrow> file_text (a # ls) ((us @ t) # tss)"
| proc: "proc_text body bss \<Longrightarrow> trailer t \<Longrightarrow> trailer t' \<Longrightarrow> file_text ls tss \<Longrightarrow>
    file_text (AST_PROC (Some n) body # ls)
      (([tk TOKEN_PROC p, tk TOKEN_ID n] @ t) # bss @ (tk TOKEN_ENDP e # t') # tss)"

definition lines_source :: "bytes list \<Rightarrow> bytes" where
  "lines_source lines = concat (map (\<lambda>l. l @ [c_newline]) lines) @ [c_eof]"

definition denotes :: "bytes \<Rightarrow> tasm_ast list \<Rightarrow> bool" where
  "denotes src ls \<longleftrightarrow> (\<exists>lines tss. src = lines_source lines \<and> lines \<noteq> [] \<and> list_all printable_line lines \<and>
     list_all2 spelled_line tss lines \<and> file_text ls tss)"

end
