(* ===== verification/Token_Reader.thy ===== *)
theory Token_Reader
  imports Lexer_Tokens Source_Grammar
begin

text \<open>
  The lexer on the lines of the grammar: each line is read as its tokens, and a file of such lines as
  the tokens of its lines with a newline token behind each.
\<close>

primrec reads :: "tasm_lexer_t \<Rightarrow> tasm_token_t list \<Rightarrow> tasm_lexer_t \<Rightarrow> bool" where
  "reads lx [] lx' \<longleftrightarrow> lx' = lx"
| "reads lx (t # ts) lx' \<longleftrightarrow> (\<exists>lx1. tasm_lexer_get_next_token lx = Some (t, lx1) \<and> reads lx1 ts lx')"

lemma reads_append: "reads lx (ts @ us) lx' \<longleftrightarrow> (\<exists>lx1. reads lx ts lx1 \<and> reads lx1 us lx')"
  by (induction ts arbitrary: lx) auto

text \<open>The tokens \<open>ts\<close> are read, \<open>s\<close> is left.\<close>

definition reads_to :: "tasm_lexer_t \<Rightarrow> tasm_token_t list \<Rightarrow> bytes \<Rightarrow> bool" where
  "reads_to lx ts s \<longleftrightarrow> (\<exists>lx'. reads lx ts lx' \<and> quiet lx' \<and> rest lx' = s)"

lemma lexes_reads: "lexes lx t s lx' \<Longrightarrow> reads_to lx [t] s"
  by (auto simp: lexes_def reads_to_def)

lemma reads_to_append:
  assumes "reads_to lx ts s" and "\<And>lx1. quiet lx1 \<Longrightarrow> rest lx1 = s \<Longrightarrow> reads_to lx1 us s'"
  shows "reads_to lx (ts @ us) s'"
  using assms unfolding reads_to_def reads_append by blast

subsection \<open>Characters and strings\<close>

lemma quote_token:
  assumes "quiet lx" and "dropWhile blank (rest lx) = q # s"
    and "(q, t) \<in> set [(c_quote, tk TOKEN_QUOTA [c_quote]), (c_apost, tk TOKEN_APOST [c_apost])]"
  shows "\<exists>lx'. tasm_lexer_get_next_token lx = Some (t, lx') \<and> lexable lx' \<and> rest lx' = s \<and>
    prev_char lx' = q \<and> 0 < cursor lx'"
proof -
  from next_token_plain [OF assms(1)] assms(2) obtain lx1 where
    p: "tasm_lexer_get_next_token lx = plain_token lx1" "quiet lx1" "rest lx1 = q # s" by auto
  note cur = quiet_current [OF p(2,3)]
  have c: "q \<noteq> c_eof" "\<not> c_isalpha q" "q \<noteq> 95" "\<not> c_isdigit q" "q \<noteq> 48" "q \<noteq> 59"
    using assms(3) by (auto simp: char_defs)
  from advance_moved [OF cur(4)] c(1) cur(1) obtain lx2 where
    a: "tasm_lexer_advance lx1 = Some lx2" "moved lx1 1 lx2" by auto
  have "plain_token lx1 = Some (t, lx2)"
    using c cur(1) a(1) assms(3)
    by (auto simp: plain_token_def isbinprefix_def ishexprefix_def lexer_collect_one_chars_def Let_def char_defs)
  moreover have "prev_char lx2 = q" using moved_prev [OF a(2)] p(3) by simp
  moreover have "lexable lx2" "rest lx2 = s" using moved_lexable [OF cur(3) a(2)] moved_rest [OF a(2)] p(3) by simp_all
  moreover have "0 < cursor lx2" using a(2) by (simp add: moved_def)
  ultimately show ?thesis using p(1) by auto
qed

lemma closing_quote:
  assumes "quiet lx" and "rest lx = q # c_newline # s"
    and "(q, t) \<in> set [(c_quote, tk TOKEN_QUOTA [c_quote]), (c_apost, tk TOKEN_APOST [c_apost])]"
  shows "reads_to lx [t] (c_newline # s)"
proof -
  have "dropWhile blank (rest lx) = q # c_newline # s" using assms(2,3) by (auto simp: char_defs)
  from quote_token [OF assms(1) this assms(3)] obtain lx' where
    l: "tasm_lexer_get_next_token lx = Some (t, lx')" "lexable lx'" "rest lx' = c_newline # s" by blast
  from l(2,3) have "current_char lx' = c_newline" using rest_Cons [of lx'] by (simp add: lexable_def)
  with l show ?thesis by (auto simp: reads_to_def quiet_def)
qed

lemma lexable_current: "lexable lx \<Longrightarrow> rest lx = c # s \<Longrightarrow> current_char lx = c"
  using rest_Cons [of lx] by (simp add: lexable_def)

lemma reads_char:
  assumes "quiet lx" and "dropWhile blank (rest lx) = c_apost # c # c_apost # c_newline # s"
    and "c \<noteq> c_quote" "c \<noteq> c_apost" "c \<noteq> c_newline" "c \<noteq> c_eof" "c \<noteq> 0"
  shows "reads_to lx [tk TOKEN_APOST [c_apost], tk TOKEN_CHAR [c], tk TOKEN_APOST [c_apost]] (c_newline # s)"
proof -
  from quote_token [OF assms(1,2), of "tk TOKEN_APOST [c_apost]"] obtain lx1 where
    q: "tasm_lexer_get_next_token lx = Some (tk TOKEN_APOST [c_apost], lx1)" "lexable lx1"
    "rest lx1 = c # c_apost # c_newline # s" "prev_char lx1 = c_apost" by auto
  note c1 = lexable_current [OF q(2,3)]
  have ok1: "lx_ok lx1" using q(2) by (simp add: lexable_def)
  from advance_moved [OF ok1] c1 assms(6) obtain lx2 where
    a: "tasm_lexer_advance lx1 = Some lx2" "moved lx1 1 lx2" by auto
  have r2: "rest lx2 = c_apost # c_newline # s" using moved_rest [OF a(2)] q(3) by simp
  have l2: "lexable lx2" by (rule moved_lexable [OF q(2) a(2)])
  have c2: "current_char lx2 = c_apost" by (rule lexable_current [OF l2 r2])
  have "prev_char lx2 = c" using moved_prev [OF a(2)] q(3) by simp
  with l2 assms(3,4) have q2: "quiet lx2" by (simp add: quiet_def)
  have "tasm_lexer_get_next_token lx1 = tasm_lexer_collect_char lx1"
    using q(4) c1 assms(3,5,6) by (simp add: tasm_lexer_get_next_token_def Let_def char_defs)
  also have "\<dots> = Some (tk TOKEN_CHAR [c], lx2)"
    using a(1) c2 c1 assms(7) by (simp add: tasm_lexer_collect_char_def)
  finally show ?thesis
    using q(1) closing_quote [OF q2 r2, of "tk TOKEN_APOST [c_apost]"] by (auto simp: reads_to_def)
qed

lemma unescape_length: "unescape r = Some v \<Longrightarrow> length v \<le> length r"
proof (induction r arbitrary: v rule: unescape.induct)
  case (2 c r)
  show ?case
  proof (cases "c = 92")
    case True
    then obtain d r' where r: "r = d # r'" using 2(3) by (cases r) auto
    with 2(1) [OF True r] 2(3) True show ?thesis by (fastforce split: option.splits)
  next
    case False
    with 2(2) [OF False] 2(3) show ?thesis by (auto split: if_splits)
  qed
qed simp

lemma collect_str_unescapes:
  assumes "lexable lx" and "rest lx = r @ c_quote # s" and "unescape r = Some v" and "c_eof \<notin> set r"
    and "length acc + length r \<le> n" and "n \<le> 126"
  shows "\<exists>lx'. collect_str_from n acc lx = Some (acc @ v, lx') \<and> moved lx (length r) lx'"
  using assms
proof (induction r arbitrary: lx acc v rule: unescape.induct)
  case 1
  then have "current_char lx = c_quote" using lexable_current [of lx c_quote s] by simp
  with 1 show ?case using moved_refl [of lx] by (subst collect_str_from.simps) (simp add: lexable_def)
next
  case (2 c r)
  have c: "current_char lx = c" using lexable_current [OF "2.prems"(1)] "2.prems"(2) by simp
  have ok: "lx_ok lx" using "2.prems"(1) by (simp add: lexable_def)
  have ne: "c \<noteq> c_eof" "c \<noteq> c_quote" using "2.prems"(3,4) by (auto simp: c_quote_def split: if_splits)
  from advance_moved [OF ok] c ne(1) obtain lx1 where a: "tasm_lexer_advance lx = Some lx1" "moved lx 1 lx1" by auto
  have r1: "rest lx1 = r @ c_quote # s" using moved_rest [OF a(2)] "2.prems"(2) by simp
  have l1: "lexable lx1" by (rule moved_lexable [OF "2.prems"(1) a(2)])
  have len: "length acc < 128" "\<not> n < length acc" using "2.prems"(5,6) by simp_all
  show ?case
  proof (cases "c = 92")
    case False
    with "2.prems"(3) ne(2) obtain w where w: "unescape r = Some w" "v = c # w" by auto
    have "length (acc @ [c]) + length r \<le> n" "c_eof \<notin> set r" using "2.prems"(4,5) by simp_all
    from "2.IH"(2) [OF False ne(2) l1 r1 w(1) this(2,1) "2.prems"(6)] obtain lx' where
      "collect_str_from n (acc @ [c]) lx1 = Some (acc @ v, lx')" "moved lx1 (length r) lx'" by (auto simp: w(2))
    moreover from this(2) have "moved lx (length (c # r)) lx'" using moved_trans [OF a(2)] by simp
    ultimately show ?thesis
      using False c ne(2) a(1) len by (subst collect_str_from.simps) (simp del: not_less)
  next
    case True
    with "2.prems"(3) obtain d r' where r: "r = d # r'" by (cases r) auto
    from True r "2.prems"(3) obtain w where
      w: "unescape r' = Some w" "v = (case escape d of None \<Rightarrow> w | Some b \<Rightarrow> b # w)" by auto
    have d: "current_char lx1 = d" "d \<noteq> c_eof" using lexable_current [OF l1] r1 r "2.prems"(4) by auto
    from advance_moved [OF moved_ok [OF a(2)]] d obtain lx2 where
      b: "tasm_lexer_advance lx1 = Some lx2" "moved lx1 1 lx2" by auto
    have r2: "rest lx2 = r' @ c_quote # s" using moved_rest [OF b(2)] r1 r by simp
    have l2: "lexable lx2" by (rule moved_lexable [OF l1 b(2)])
    let ?acc = "case escape d of None \<Rightarrow> acc | Some b \<Rightarrow> acc @ [b]"
    have "length ?acc + length r' \<le> n" "c_eof \<notin> set r'"
      using "2.prems"(4,5) r by (auto split: option.split)
    from "2.IH"(1) [OF True r l2 r2 w(1) this(2,1) "2.prems"(6)] obtain lx' where
      e: "collect_str_from n ?acc lx2 = Some (?acc @ w, lx')" "moved lx2 (length r') lx'" by auto
    have "?acc @ w = acc @ v" by (simp add: w(2) split: option.split)
    moreover have "moved lx (length (c # r)) lx'"
      using moved_trans [OF moved_trans [OF a(2) b(2)] e(2)] r by (simp add: add.commute)
    ultimately show ?thesis
      using True c ne(2) a(1) b(1) d(1) e(1) len
      by (subst collect_str_from.simps) (auto simp del: not_less split: option.splits)
  qed
qed

lemma reads_str:
  assumes "quiet lx" and "dropWhile blank (rest lx) = c_quote # r @ c_quote # c_newline # s"
    and "unescape r = Some v" "r \<noteq> []" "hd r \<noteq> c_apost" and "c_newline \<notin> set r" "c_eof \<notin> set r"
  shows "reads_to lx [tk TOKEN_QUOTA [c_quote], tk TOKEN_STRING (takeWhile (\<lambda>b. b \<noteq> 0) v), tk TOKEN_QUOTA [c_quote]]
    (c_newline # s)"
proof -
  obtain c r' where r: "r = c # r'" using assms(4) by (cases r) auto
  from quote_token [OF assms(1,2), of "tk TOKEN_QUOTA [c_quote]"] obtain lx1 where
    q: "tasm_lexer_get_next_token lx = Some (tk TOKEN_QUOTA [c_quote], lx1)" "lexable lx1"
    "rest lx1 = r @ c_quote # c_newline # s" "prev_char lx1 = c_quote" "0 < cursor lx1" by auto
  have c1: "current_char lx1 = c" using lexable_current [OF q(2)] q(3) r by simp
  have c: "c \<noteq> c_quote" "c \<noteq> c_apost" "c \<noteq> c_newline" "c \<noteq> c_eof"
    using assms(3,5-7) r by (auto simp: c_quote_def split: if_splits)
  let ?n = "length (line_left lx1)"
  have "\<forall>b \<in> set (r @ [c_quote]). b \<noteq> c_newline" using assms(6) by (auto simp: char_defs)
  then have "takeWhile (\<lambda>c. c \<noteq> c_newline) ((r @ [c_quote]) @ c_newline # s) = r @ [c_quote]"
    by (subst takeWhile_append2) auto
  then have "line_left lx1 = r @ [c_quote]" by (simp add: line_left_def q(3))
  then have n: "length r \<le> ?n" "?n \<le> 126" using line_left_bound [OF q(2)] by simp_all
  have "current_char lx1 \<noteq> c_eof" using c(4) c1 by simp
  note pk = peek_line_resets [OF q(2) this q(5)]
  from collect_str_unescapes [OF q(2,3) assms(3,7), of "[]" ?n] n obtain lx2 where
    k: "collect_str_from ?n [] lx1 = Some (v, lx2)" "moved lx1 (length r) lx2" by auto
  have r2: "rest lx2 = c_quote # c_newline # s" using moved_rest [OF k(2)] q(3) by simp
  have l2: "lexable lx2" by (rule moved_lexable [OF q(2) k(2)])
  have q2: "quiet lx2" using l2 lexable_current [OF l2 r2] by (simp add: quiet_def)
  have "length v < 128" using unescape_length [OF assms(3)] n by simp
  with pk k(1) have "tasm_lexer_collect_str lx1 = Some (tk TOKEN_STRING (takeWhile (\<lambda>b. b \<noteq> 0) v), lx2)"
    by (simp add: tasm_lexer_collect_str_def)
  moreover have "tasm_lexer_get_next_token lx1 = tasm_lexer_collect_str lx1"
    using q(4) c c1 by (simp add: tasm_lexer_get_next_token_def Let_def)
  ultimately show ?thesis
    using q(1) closing_quote [OF q2 r2, of "tk TOKEN_QUOTA [c_quote]"] by (auto simp: reads_to_def)
qed

subsection \<open>Words and lines\<close>

lemma id_char_class: "c_isdigit c \<Longrightarrow> is_id_char c" "c_isxdigit c \<Longrightarrow> is_id_char c" "c_isalpha c \<Longrightarrow> is_id_char c"
  "is_id_char 95" "c = 48 \<or> c = 49 \<Longrightarrow> is_id_char c" "c \<in> {98, 66, 120, 88} \<Longrightarrow> is_id_char c"
  by (auto simp: is_id_char_def char_defs word_le_nat_alt)

lemma id_char_neither: "\<not> is_id_char c_quote" "\<not> is_id_char c_apost" "\<not> is_id_char c_newline" "\<not> blank 95"
  by (simp_all add: is_id_char_def char_defs)

lemma id_not_blank: "is_id_char c \<Longrightarrow> \<not> blank c"
  by (auto simp: is_id_char_def char_defs)

lemma word_end:
  assumes "separated w l" and "is_id_char (hd w)"
  obtains e t where "l @ c_newline # s = e # t" "\<not> is_id_char e" "e \<noteq> 46"
proof (cases l)
  case Nil
  then show thesis by (intro that [of c_newline s]) (simp_all add: id_char_neither, simp add: c_newline_def)
next
  case (Cons c l')
  with assms show thesis by (intro that [of c "l' @ c_newline # s"]) (simp_all add: separated_def)
qed

lemma name_reads:
  assumes "name_text w" and "quiet lx" and "dropWhile blank (rest lx) = w @ e # t" and "\<not> is_id_char e"
  shows "reads_to lx [tk (id_type w) w] (e # t)"
proof -
  from assms(1) obtain c w' where w: "w = c # w'" by (cases w) (auto simp: name_text_def)
  with assms(1) have c: "c_isalpha c \<or> c = 95" "\<forall>d \<in> set w'. is_id_char d" "is_id_char c"
    by (auto simp: name_text_def list_all_iff)
  have "takeWhile is_id_char (c # w' @ e # t) = w" "dropWhile is_id_char (w' @ e # t) = e # t"
    using c(2,3) assms(4) w by (simp_all add: takeWhile_append2 dropWhile_append2)
  with lexes_id [OF assms(2), of c "w' @ e # t"] assms(3) w c(1) show ?thesis by (auto intro: lexes_reads)
qed

lemma word_reads:
  assumes "word us w" and "quiet lx" and "dropWhile blank (rest lx) = w @ l @ c_newline # s" and "separated w l"
    and "0 \<notin> set w" "c_newline \<notin> set w" "c_eof \<notin> set w"
  shows "reads_to lx us (l @ c_newline # s)"
  using assms
proof cases
  case (name)
  then have "is_id_char (hd w)" using id_char_class(3,4) by (auto simp: name_text_def)
  from word_end [OF assms(4) this, of s] obtain e t where e: "l @ c_newline # s = e # t" "\<not> is_id_char e" by blast
  from name_reads [OF name(2) assms(2) _ e(2)] assms(3) show ?thesis unfolding name(1) e(1) by simp
next
  case (decimal)
  then have d: "w \<noteq> []" "\<forall>d \<in> set w. c_isdigit d" by (simp_all add: digits_text_def list_all_iff)
  then have "is_id_char (hd w)" by (intro id_char_class(1)) simp
  from word_end [OF assms(4) this, of s] obtain e t where e: "l @ c_newline # s = e # t" "\<not> is_id_char e" "e \<noteq> 46"
    by blast
  then have "\<not> c_isdigit e" "e \<notin> {98, 66, 120, 88}" using id_char_class by blast+
  with lexes_decimal [OF assms(2) _ d, of e t] assms(3) e(3) show ?thesis
    unfolding decimal(1) e(1) by (auto intro: lexes_reads)
next
  case (fraction d f)
  then have d: "d \<noteq> []" "\<forall>c \<in> set (d @ f). c_isdigit c" by (auto simp: digits_text_def list_all_iff)
  then have "is_id_char (hd w)" unfolding fraction(2) by (intro id_char_class(1)) simp
  from word_end [OF assms(4) this, of s] obtain e t where e: "l @ c_newline # s = e # t" "\<not> is_id_char e" "e \<noteq> 46"
    by blast
  then have "\<not> c_isdigit e" using id_char_class by blast
  with lexes_float [OF assms(2) _ d, of e t] assms(3) e(3) show ?thesis
    unfolding fraction(1,2) e(1) by (auto intro: lexes_reads)
next
  case (hex d x)
  have "is_id_char (hd w)" by (simp add: hex(2) id_char_class(5))
  from word_end [OF assms(4) this, of s] obtain e t where e: "l @ c_newline # s = e # t" "\<not> is_id_char e" by blast
  from hex(3) have d: "\<forall>c \<in> set d. c_isxdigit c" by (simp add: digits_text_def list_all_iff)
  have "\<not> c_isxdigit e" using e(2) id_char_class by blast
  with lexes_hex [OF assms(2) _ _ d, of x e t] assms(3) hex(4) show ?thesis
    unfolding hex(1,2) e(1) by (auto intro: lexes_reads)
next
  case (binary d x)
  have "is_id_char (hd w)" by (simp add: binary(2) id_char_class(5))
  from word_end [OF assms(4) this, of s] obtain e t where e: "l @ c_newline # s = e # t" "\<not> is_id_char e" by blast
  from binary(3) have d: "\<forall>c \<in> set d. c = 48 \<or> c = 49" by (simp add: digits_text_def list_all_iff)
  have "e \<noteq> 48" "e \<noteq> 49" using e(2) id_char_class(5) by blast+
  with lexes_binary [OF assms(2) _ _ d, of x e t] assms(3) binary(4) show ?thesis
    unfolding binary(1,2) e(1) by (auto intro: lexes_reads)
next
  case (sign c t)
  from lexes_one [OF assms(2), of c "l @ c_newline # s" "tk t [c]"] assms(3) sign show ?thesis
    by (auto simp: sign_words_def intro: lexes_reads)
next
  case (char c)
  have "l = []" using assms(4) id_char_neither by (simp add: char(2) separated_def)
  with reads_char [OF assms(2), of c s] assms(3,5-7) char show ?thesis by auto
next
  case (str r v)
  have "l = []" using assms(4) id_char_neither by (simp add: str(2) separated_def)
  with reads_str [OF assms(2) _ str(3-5), of s] assms(3,5-7) str show ?thesis by auto
qed

definition endl_token :: tasm_token_t where
  "endl_token = tk TOKEN_ENDLINE (bytes_of ''endl'')"

lemma word_start: "word us w \<Longrightarrow> \<exists>c w'. w = c # w' \<and> \<not> blank c"
proof (induction rule: word.induct)
  case (name w)
  then show ?case using id_not_blank id_char_class(3,4) by (cases w) (auto simp: name_text_def)
next
  case (decimal w)
  then show ?case using id_not_blank [OF id_char_class(1)] by (cases w) (auto simp: digits_text_def)
next
  case (fraction w f)
  then show ?case using id_not_blank [OF id_char_class(1)] by (cases w) (auto simp: digits_text_def)
qed (auto simp: sign_words_def char_defs)

lemma drop_blanks: "blanks b \<Longrightarrow> \<not> blank c \<Longrightarrow> dropWhile blank (b @ c # s) = c # s"
  by (induction b) (auto simp: blanks_def)

lemma newline_not_blank: "\<not> blank c_newline" "\<not> blank 59"
  by (simp_all add: c_newline_def)

lemma line_reads:
  assumes "spelled_line ts l" and "quiet lx" and "rest lx = l @ c_newline # s"
    and "0 \<notin> set l" "c_newline \<notin> set l" "c_eof \<notin> set l"
  shows "reads_to lx (ts @ [endl_token]) s"
  using assms
proof (induction arbitrary: lx rule: spelled_line.induct)
  case (ends b)
  have "dropWhile blank (rest lx) = c_newline # s"
    unfolding ends.prems(2) by (rule drop_blanks [OF ends.hyps newline_not_blank(1)])
  from lexes_one [OF ends.prems(1) this, of endl_token] show ?case by (auto simp: endl_token_def intro: lexes_reads)
next
  case (comment b c)
  have d: "dropWhile blank (rest lx) = 59 # c @ c_newline # s"
    unfolding comment.prems(2) using drop_blanks [OF comment.hyps newline_not_blank(2)] by simp
  from lexes_comment [OF comment.prems(1) d] comment.prems(4,5) have "reads_to lx [comment_token] (c_newline # s)"
    by (auto simp: comment_token_def intro: lexes_reads)
  then show ?case
  proof (rule reads_to_append)
    fix lx1 assume l: "quiet lx1" "rest lx1 = c_newline # s"
    then have "dropWhile blank (rest lx1) = c_newline # s" by (simp add: newline_not_blank)
    from lexes_one [OF l(1) this, of endl_token] show "reads_to lx1 [endl_token] s"
      by (auto simp: endl_token_def intro: lexes_reads)
  qed
next
  case (word b us w l ts)
  from word_start [OF word.hyps(2)] obtain c w' where w: "w = c # w'" "\<not> blank c" by blast
  have "dropWhile blank (rest lx) = w @ l @ c_newline # s"
    unfolding word.prems(2) using drop_blanks [OF word.hyps(1) w(2)] by (simp add: w(1))
  from word_reads [OF word.hyps(2) word.prems(1) this word.hyps(3)] word.prems(3-5)
  have "reads_to lx us (l @ c_newline # s)" by simp
  then have "reads_to lx (us @ ts @ [endl_token]) s"
    using word.IH word.prems(3-5) by (auto intro: reads_to_append)
  then show ?case by simp
qed

text \<open>The tokens of the lines of a file.\<close>

definition file_tokens :: "tasm_token_t list list \<Rightarrow> tasm_token_t list" where
  "file_tokens tss = concat (map (\<lambda>ts. ts @ [endl_token]) tss)"

lemma file_tokens_simps [simp]:
  "file_tokens [] = []" "file_tokens (ts # tss) = ts @ endl_token # file_tokens tss"
  "file_tokens (xs @ ys) = file_tokens xs @ file_tokens ys"
  by (simp_all add: file_tokens_def)

lemma lines_source_simps:
  "lines_source [] = [c_eof]" "lines_source (l # ls) = l @ c_newline # lines_source ls"
  by (simp_all add: lines_source_def)

lemma lines_read:
  assumes "list_all2 spelled_line tss lines" and "list_all printable_line lines"
    and "quiet lx" and "rest lx = lines_source lines"
  shows "reads_to lx (file_tokens tss) [c_eof]"
  using assms
proof (induction arbitrary: lx rule: list_all2_induct)
  case Nil
  then show ?case by (simp add: reads_to_def lines_source_simps)
next
  case (Cons ts tss l lines)
  then have "reads_to lx (ts @ [endl_token]) (lines_source lines)"
    using line_reads [of ts l lx "lines_source lines"] by (simp add: lines_source_simps printable_line_def)
  from reads_to_append [OF this, of "file_tokens tss" "[c_eof]"] Cons show ?case by simp
qed

lemma long_lines:
  assumes "\<And>k. length (takeWhile (\<lambda>c. c \<noteq> c_newline) (drop k s)) \<le> n" and "length l \<le> n"
  shows "length (takeWhile (\<lambda>c. c \<noteq> c_newline) (drop k (l @ c_newline # s))) \<le> n"
proof (cases "k \<le> length l")
  case True
  have tw: "length (takeWhile (\<lambda>c. c \<noteq> c_newline) (xs @ c_newline # s)) \<le> length xs" for xs
    by (induction xs) simp_all
  show ?thesis using True assms(2) tw [of "drop k l"] by simp
next
  case False
  then obtain j where "k = length l + Suc j" by (metis add_Suc_right less_iff_Suc_add not_le)
  then show ?thesis using assms(1) [of j] by simp
qed

lemma lines_text_source:
  assumes "list_all printable_line lines" and "lines \<noteq> []"
  shows "text_source (lines_source lines)"
proof -
  have "length (takeWhile (\<lambda>c. c \<noteq> c_newline) (drop k (lines_source ls))) \<le> 126"
    if "list_all printable_line ls" for ls k
    using that
  proof (induction ls arbitrary: k)
    case Nil
    then show ?case by (cases k) (simp_all add: lines_source_simps)
  next
    case (Cons l ls)
    then show ?case unfolding lines_source_simps by (intro long_lines) (simp_all add: printable_line_def)
  qed
  moreover have "\<exists>body. lines_source ls = body @ [c_newline, c_eof] \<and> 0 \<notin> set body \<and> c_eof \<notin> set body"
    if "list_all printable_line ls" "ls \<noteq> []" for ls
    using that
  proof (induction ls rule: induct_list012)
    case (3 l l' ls)
    then obtain body where b: "lines_source (l' # ls) = body @ [c_newline, c_eof]" "0 \<notin> set body" "c_eof \<notin> set body" by auto
    with 3(3) show ?case
      by (intro exI [of _ "l @ c_newline # body"])
        (simp add: lines_source_simps(2) [of l] b(1) printable_line_def, simp add: char_defs)
  qed (auto simp: lines_source_simps printable_line_def)
  ultimately show ?thesis using assms by (auto simp: text_source_def)
qed

text \<open>The lexer starts with the first character as the one before it too, so that a file may not begin
  with an apostrophe.\<close>

definition opens_char :: "tasm_token_t list \<Rightarrow> bool" where
  "opens_char ts \<longleftrightarrow> ts \<noteq> [] \<and> tok_type (hd ts) = TOKEN_APOST"

lemma word_apost: "word us w \<Longrightarrow> hd w = c_apost \<Longrightarrow> us \<noteq> [] \<and> tok_type (hd us) = TOKEN_APOST"
proof (induction rule: word.induct)
  case (name w)
  then show ?case by (auto simp: name_text_def char_defs)
next
  case (decimal w)
  then show ?case by (cases w) (auto simp: digits_text_def char_defs)
next
  case (fraction w f)
  then show ?case by (cases w) (auto simp: digits_text_def char_defs)
qed (auto simp: sign_words_def char_defs)

lemma line_apost: "spelled_line ts l \<Longrightarrow> l \<noteq> [] \<Longrightarrow> hd l = c_apost \<Longrightarrow> opens_char ts"
proof (induction rule: spelled_line.induct)
  case (ends b)
  then show ?case by (cases b) (auto simp: blanks_def c_apost_def)
next
  case (comment b c)
  then show ?case by (cases b) (auto simp: blanks_def c_apost_def)
next
  case (word b us w l ts)
  then show ?case using word_apost [OF word.hyps(2)] word_start [OF word.hyps(2)]
    by (cases b) (auto simp: blanks_def c_apost_def opens_char_def)
qed

lemma source_read:
  assumes "list_all2 spelled_line tss lines" and "list_all printable_line lines" and "lines \<noteq> []"
    and "\<forall>ts \<in> set tss. \<not> opens_char ts"
  shows "\<exists>lx. tasm_lexer_init (lines_source lines) = Some lx \<and> lexable lx \<and> reads_to lx (file_tokens tss) [c_eof]"
proof -
  from init_lexable [OF lines_text_source [OF assms(2,3)]] obtain lx where
    lx: "tasm_lexer_init (lines_source lines) = Some lx" "lexable lx" "source_code lx = lines_source lines" "cursor lx = 0"
    by blast
  have r: "rest lx = lines_source lines" using lx(3,4) by (simp add: rest_def)
  have p: "prev_char lx = current_char lx" using lx(2,4) by (simp add: lexable_def lx_ok_def)
  from assms(3,1,4) obtain l ls ts where l: "lines = l # ls" "spelled_line ts l" "\<not> opens_char ts"
    by (cases lines) (auto simp: list_all2_Cons2)
  have "current_char lx = hd (l @ c_newline # lines_source ls)"
    using rest_Cons [of lx] lx(2) r l(1) by (cases l) (auto simp: lexable_def lines_source_simps)
  then have "current_char lx \<noteq> c_apost"
    using line_apost [OF l(2)] l(3) by (cases l) (auto simp: c_newline_def c_apost_def)
  with lx(2) p have "quiet lx" by (auto simp: quiet_def)
  from lines_read [OF assms(1,2) this r] lx(1,2) show ?thesis by blast
qed

end
