(* ===== verification/Token_Stream.thy ===== *)
theory Token_Stream
  imports Token_Reader Tasm_Parser
begin

text \<open>
  A parser whose coming tokens are known: \<open>coming ps ts\<close> says that the window and what the lexer will
  deliver behind it are the tokens \<open>ts\<close> and then \<open>TOKEN_EOF\<close> for ever. Each parsing function
  takes its tokens off the front: operands, ends of lines, statements and declarations as the grammar
  has them.
\<close>

definition eof_token :: tasm_token_t where
  "eof_token = tk TOKEN_EOF (bytes_of ''eof'')"

definition coming :: "tasm_parser_t \<Rightarrow> tasm_token_t list \<Rightarrow> bool" where
  "coming ps ts \<longleftrightarrow> (\<exists>n a b us. ts @ replicate n eof_token = a # b # us \<and>
     current_token ps = a \<and> next_token ps = b \<and> reads_to (lexer ps) us [c_eof])"

lemma coming_current: "coming ps (a # ts) \<Longrightarrow> current_token ps = a"
  by (auto simp: coming_def)

lemma coming_tok: "coming ps (a # ts) \<Longrightarrow> tok ps = tok_type a"
  by (simp add: tok_def coming_current)

lemma coming_next: "coming ps (a # b # ts) \<Longrightarrow> next_token ps = b"
  by (auto simp: coming_def)

lemma replicate_Cons: "replicate n x = a # ys \<Longrightarrow> a = x \<and> (\<exists>m. ys = replicate m x)"
  by (cases n) auto

lemma coming_end: "coming ps [] \<Longrightarrow> current_token ps = eof_token \<and> tok ps = TOKEN_EOF"
  by (auto simp: coming_def tok_def eof_token_def dest!: replicate_Cons)

lemma coming_same:
  "lexer ps' = lexer ps \<Longrightarrow> current_token ps' = current_token ps \<Longrightarrow> next_token ps' = next_token ps \<Longrightarrow>
     coming ps' ts \<longleftrightarrow> coming ps ts"
  by (simp add: coming_def)

lemma append_eof: "ts @ replicate n eof_token = b # us \<Longrightarrow> ts @ replicate (Suc n) eof_token = b # us @ [eof_token]"
  by (metis append_Cons append_assoc replicate_append_same replicate_Suc)

lemma coming_window:
  assumes "ts @ replicate n eof_token = b # us" and "next_token ps = b" and "reads_to (lexer ps) us [c_eof]"
  shows "\<exists>ps'. next_window ps = Some ps' \<and> coming ps' ts \<and> is_err ps' = is_err ps"
proof (cases us)
  case Nil
  with assms(3) have "quiet (lexer ps)" "rest (lexer ps) = [c_eof]" by (auto simp: reads_to_def)
  from lexes_eof [OF this] Nil assms append_eof [OF assms(1)] show ?thesis
    by (auto simp: next_window_def lexes_def coming_def eof_token_def simp del: replicate.simps)
next
  case (Cons t us')
  with assms(3) obtain lx where "tasm_lexer_get_next_token (lexer ps) = Some (t, lx)" "reads_to lx us' [c_eof]"
    by (auto simp: reads_to_def)
  with Cons assms(1,2) show ?thesis by (auto simp: next_window_def coming_def)
qed

text \<open>What a parsing function delivers: a result, and a parser in front of the tokens that are left.\<close>

definition gives :: "('a \<times> tasm_parser_t) option \<Rightarrow> tasm_parser_t \<Rightarrow> 'a \<Rightarrow> tasm_token_t list \<Rightarrow> bool" where
  "gives r ps v ts \<longleftrightarrow> (\<exists>ps'. r = Some (v, ps') \<and> coming ps' ts \<and> is_err ps' = is_err ps)"

definition comes :: "tasm_parser_t option \<Rightarrow> tasm_parser_t \<Rightarrow> tasm_token_t list \<Rightarrow> bool" where
  "comes r ps ts \<longleftrightarrow> (\<exists>ps'. r = Some ps' \<and> coming ps' ts \<and> is_err ps' = is_err ps)"

lemma eat_comes: "coming ps (a # ts) \<Longrightarrow> t = tok_type a \<Longrightarrow> comes (eat ps t) ps ts"
  using coming_window [of ts _ "next_token ps" _ ps]
  by (auto simp: comes_def tasm_parser_eat_def coming_tok) (auto simp: coming_def)

lemma eat_end: "coming ps [] \<Longrightarrow> comes (eat ps TOKEN_EOF) ps []"
proof -
  assume c: "coming ps []"
  then obtain n us where n: "replicate n eof_token = current_token ps # next_token ps # us"
    "reads_to (lexer ps) us [c_eof]" by (auto simp: coming_def)
  then have "[] @ replicate (n - 1) eof_token = next_token ps # us" by (cases n) simp_all
  from coming_window [OF this refl n(2)] coming_end [OF c] show ?thesis by (simp add: comes_def tasm_parser_eat_def)
qed

lemma eat_if_comes:
  "coming ps (a # ts) \<Longrightarrow> comes (eat_if ps t) ps (if tok_type a = t then ts else a # ts)"
  "coming ps [] \<Longrightarrow> comes (eat_if ps t) ps []"
  using eat_comes [of ps a ts t] eat_end [of ps] coming_end [of ps]
  by (auto simp: eat_if_def coming_tok) (auto simp: comes_def)

lemma comes_bind:
  assumes "comes r ps ts" and "\<And>ps1. coming ps1 ts \<Longrightarrow> is_err ps1 = is_err ps \<Longrightarrow> gives (f ps1) ps1 v us"
  shows "gives (Option.bind r f) ps v us"
  using assms by (auto simp: comes_def gives_def)

lemma comes_bind_comes:
  assumes "comes r ps ts" and "\<And>ps1. coming ps1 ts \<Longrightarrow> is_err ps1 = is_err ps \<Longrightarrow> comes (f ps1) ps1 us"
  shows "comes (Option.bind r f) ps us"
  using assms by (auto simp: comes_def)

lemma gives_bind:
  assumes "gives r ps w ts" and "\<And>ps1. coming ps1 ts \<Longrightarrow> is_err ps1 = is_err ps \<Longrightarrow> gives (f w ps1) ps1 v us"
  shows "gives (Option.bind r (\<lambda>(w, ps1). f w ps1)) ps v us"
  using assms by (auto simp: gives_def)

lemma gives_found: "gives r ps a ts \<Longrightarrow> gives (found r) ps (Some a) ts"
  by (auto simp: gives_def found_def)

lemma gives_here: "coming ps ts \<Longrightarrow> gives (Some (v, ps)) ps v ts"
  by (simp add: gives_def)

subsection \<open>Operands\<close>

lemma number_cases:
  assumes "number t w v"
  shows "t = TOKEN_DECIMAL_NUMBER \<and> c_atoi w = Some v \<or> t = TOKEN_FLOAT_NUMBER \<and> v = c_strtof w \<or>
    t = TOKEN_HEX_NUMBER \<and> v = radix_value w 16 \<or> t = TOKEN_BINARY_NUMBER \<and> v = radix_value w 2"
  using assms by cases auto

lemma num_lit_gives:
  assumes "number t (if neg then 45 # w else w) v" and "coming ps (tk t w # ts)"
  shows "gives (tasm_parse_num_lit ps neg) ps (AST_NUMBER (if neg then 45 # w else w) v) ts"
proof -
  have c: "tok_value (current_token ps) = Some w" "tok ps = t"
    using coming_current [OF assms(2)] coming_tok [OF assms(2)] by simp_all
  from eat_comes [OF assms(2), of t] have "comes (eat ps t) ps ts" by simp
  then obtain ps1 where "eat ps t = Some ps1" "coming ps1 ts" "is_err ps1 = is_err ps" by (auto simp: comes_def)
  with c number_cases [OF assms(1)] show ?thesis
    by (cases neg) (auto simp: tasm_parse_num_lit_def gives_def Let_def)
qed

lemma number_operand_gives:
  assumes "number t w v" and "coming ps (tk t w # ts)"
  shows "gives (tasm_parse_number_operand ps) ps (Some (AST_NUMBER w v)) ts"
proof -
  have t: "tok ps = t" "t \<noteq> TOKEN_MINUS" using coming_tok [OF assms(2)] number_cases [OF assms(1)] by auto
  then have "is_operand_number ps" using number_cases [OF assms(1)] by (auto simp: is_operand_number_def)
  with t num_lit_gives [of t False w v ps ts] assms show ?thesis
    by (auto simp: tasm_parse_number_operand_def eat_if_def intro: gives_found)
qed

lemma negative_operand_gives:
  assumes "number t (45 # w) v" and "coming ps (tk TOKEN_MINUS s # tk t w # ts)"
  shows "gives (tasm_parse_number_operand ps) ps (Some (AST_NUMBER (45 # w) v)) ts"
  unfolding tasm_parse_number_operand_def
proof (rule comes_bind)
  show "comes (eat_if ps TOKEN_MINUS) ps (tk t w # ts)" using eat_if_comes(1) [OF assms(2), of TOKEN_MINUS] by simp
  fix ps1 assume c: "coming ps1 (tk t w # ts)"
  then have "is_operand_number ps1" using coming_tok [OF c] number_cases [OF assms(1)] by (auto simp: is_operand_number_def)
  moreover have "tok ps = TOKEN_MINUS" using coming_tok [OF assms(2)] by simp
  ultimately show "gives (if is_operand_number ps1 then found (tasm_parse_num_lit ps1 (tok ps = TOKEN_MINUS))
      else Some (None, ps1)) ps1 (Some (AST_NUMBER (45 # w) v)) ts"
    using num_lit_gives [of t True w v ps1 ts] assms(1) c by (auto intro: gives_found)
qed

lemma char_lit_gives:
  assumes "coming ps ([tk TOKEN_APOST a, tk TOKEN_CHAR c, tk TOKEN_APOST b] @ ts)"
  shows "gives (tasm_parse_char_lit ps) ps (AST_CHAR (Some c)) ts"
  unfolding tasm_parse_char_lit_def
proof (rule comes_bind)
  show "comes (eat ps TOKEN_APOST) ps ([tk TOKEN_CHAR c, tk TOKEN_APOST b] @ ts)"
    using eat_comes assms by fastforce
  fix ps1 assume c1: "coming ps1 ([tk TOKEN_CHAR c, tk TOKEN_APOST b] @ ts)"
  show "gives (do { ps2 \<leftarrow> eat ps1 TOKEN_CHAR; ps3 \<leftarrow> eat ps2 TOKEN_APOST;
      Some (AST_CHAR (tok_value (current_token ps1)), ps3) }) ps1 (AST_CHAR (Some c)) ts"
  proof (rule comes_bind)
    show "comes (eat ps1 TOKEN_CHAR) ps1 (tk TOKEN_APOST b # ts)" using eat_comes c1 by fastforce
    fix ps2 assume c2: "coming ps2 (tk TOKEN_APOST b # ts)"
    have "tok_value (current_token ps1) = Some c" using coming_current c1 by fastforce
    with eat_comes [OF c2, of TOKEN_APOST]
    show "gives (do { ps3 \<leftarrow> eat ps2 TOKEN_APOST; Some (AST_CHAR (tok_value (current_token ps1)), ps3) }) ps2
        (AST_CHAR (Some c)) ts"
      by (auto intro: comes_bind gives_here)
  qed
qed

lemma str_lit_gives:
  assumes "coming ps ([tk TOKEN_QUOTA a, tk TOKEN_STRING v, tk TOKEN_QUOTA b] @ ts)"
  shows "gives (tasm_parse_str_lit ps) ps (AST_STRING v) ts"
  unfolding tasm_parse_str_lit_def
proof (rule comes_bind)
  show "comes (eat ps TOKEN_QUOTA) ps ([tk TOKEN_STRING v, tk TOKEN_QUOTA b] @ ts)"
    using eat_comes assms by fastforce
  fix ps1 assume c1: "coming ps1 ([tk TOKEN_STRING v, tk TOKEN_QUOTA b] @ ts)"
  show "gives (do { ps2 \<leftarrow> eat ps1 TOKEN_STRING; ps3 \<leftarrow> eat ps2 TOKEN_QUOTA;
      v \<leftarrow> tok_value (current_token ps1); Some (AST_STRING v, ps3) }) ps1 (AST_STRING v) ts"
  proof (rule comes_bind)
    show "comes (eat ps1 TOKEN_STRING) ps1 (tk TOKEN_QUOTA b # ts)" using eat_comes c1 by fastforce
    fix ps2 assume c2: "coming ps2 (tk TOKEN_QUOTA b # ts)"
    have "tok_value (current_token ps1) = Some v" using coming_current c1 by fastforce
    with eat_comes [OF c2, of TOKEN_QUOTA]
    show "gives (do { ps3 \<leftarrow> eat ps2 TOKEN_QUOTA; v \<leftarrow> tok_value (current_token ps1); Some (AST_STRING v, ps3) }) ps2
        (AST_STRING v) ts"
      by (auto intro: comes_bind gives_here)
  qed
qed

lemma label_call_gives: "coming ps (tk TOKEN_ID n # ts) \<Longrightarrow> gives (tasm_parse_label_call ps) ps (AST_LABEL_CALL n) ts"
  using eat_comes [of ps "tk TOKEN_ID n" ts TOKEN_ID]
  by (auto simp: tasm_parse_label_call_def coming_current comes_def gives_def)

lemma operand_gives:
  assumes "operand_text k us a" and "coming ps (us @ ts)"
  shows "gives (parse_operand_kind k ps) ps (Some a) ts"
  using assms(1)
proof cases
  case (int t w v)
  then have c: "coming ps (tk t w # ts)" using assms(2) by simp
  then have "is_operand_int ps" using int(4) by (auto simp: is_operand_int_def coming_tok)
  with int(3,5) num_lit_gives [of t False w v ps ts] c show ?thesis
    by (auto simp: int(2) tasm_parse_int_operand_def tasm_parse_jmp_operand_def intro: gives_found)
next
  case (number t w v)
  then have c: "coming ps (tk t w # ts)" using assms(2) by simp
  then have "\<not> is_operand_char ps" using number_cases [OF number(4)] by (auto simp: is_operand_char_def coming_tok)
  with number_operand_gives [OF number(4) c] show ?thesis
    by (simp add: number(1,3) tasm_parse_push_operand_def)
next
  case (negative t w v)
  then have c: "coming ps (tk TOKEN_MINUS [45] # tk t w # ts)" using assms(2) by simp
  then have "\<not> is_operand_char ps" by (simp add: is_operand_char_def coming_tok)
  with negative_operand_gives [OF negative(4) c] show ?thesis
    by (simp add: negative(1,3) tasm_parse_push_operand_def)
next
  case (char c)
  from char_lit_gives [of ps _ c _ ts] assms(2) char(2) have "gives (tasm_parse_char_lit ps) ps (AST_CHAR (Some c)) ts" by simp
  moreover have "is_operand_char ps" using assms(2) char(2) by (simp add: is_operand_char_def coming_tok)
  ultimately show ?thesis by (simp add: char(1,3) tasm_parse_push_operand_def gives_found)
next
  case (label n)
  then have c: "coming ps (tk TOKEN_ID n # ts)" using assms(2) by simp
  then have "is_operand_label_call ps" "\<not> is_operand_int ps"
    by (simp_all add: is_operand_label_call_def is_operand_int_def coming_tok)
  with label(3) label_call_gives [OF c] show ?thesis
    by (auto simp: label(2) tasm_parse_label_operand_def tasm_parse_jmp_operand_def intro: gives_found)
qed

lemma operand_table_gives:
  assumes "map_of operand_table op = Some (k, e, msg)" and "operand_text k us a" and "coming ps (us @ ts)"
  shows "gives (parse_operand op ps) ps (Some a) ts"
  using operand_gives [OF assms(2,3)] assms(1)
  by (auto simp: gives_def parse_operand_def err_if_def)

subsection \<open>Lines\<close>

lemma end_of_line_comes:
  assumes "trailer t" and "coming ps (t @ endl_token # ts)"
  shows "comes (end_of_line ps) ps ts"
  unfolding end_of_line_def
proof (rule comes_bind_comes)
  show "comes (eat_if ps TOKEN_COMMENT) ps (endl_token # ts)"
    using assms eat_if_comes(1) [of ps "hd (t @ [endl_token])" "tl (t @ [endl_token]) @ ts" TOKEN_COMMENT]
    by (auto simp: trailer_def comment_token_def endl_token_def)
  fix ps1 assume c: "coming ps1 (endl_token # ts)"
  with eat_comes [OF c, of TOKEN_ENDLINE]
  show "comes (if tok ps1 = TOKEN_EOF then eat ps1 TOKEN_EOF else eat ps1 TOKEN_ENDLINE) ps1 ts"
    by (simp add: coming_tok endl_token_def)
qed

lemma instruction_gives:
  assumes "statement us (AST_OP op n oprnd)" and "trailer t" and "coming ps (us @ t @ endl_token # ts)"
  shows "gives (tasm_parse_instruction ps) ps (AST_OP op n oprnd) ts"
proof -
  from assms(1) obtain vs where us: "us = tk (TOKEN_OP op) n # vs" and
    o: "\<And>ps1 ts. coming ps1 (vs @ ts) \<Longrightarrow> gives (parse_operand op ps1) ps1 oprnd ts"
  proof cases
    case plain
    then show thesis using that [of "[]"] by (auto simp: parse_operand_def intro: gives_here)
  next
    case (operand k e msg us' a)
    then show thesis using that [of us'] operand_table_gives by auto
  qed
  have c: "coming ps (tk (TOKEN_OP op) n # vs @ t @ endl_token # ts)" using assms(3) us by simp
  have "gives (do { ps1 \<leftarrow> eat ps (TOKEN_OP op); (oprnd', ps2) \<leftarrow> parse_operand op ps1; ps3 \<leftarrow> end_of_line ps2;
      Some (AST_OP op n oprnd', ps3) }) ps (AST_OP op n oprnd) ts"
  proof (rule comes_bind)
    show "comes (eat ps (TOKEN_OP op)) ps (vs @ t @ endl_token # ts)" using eat_comes [OF c] by simp
    fix ps1 assume "coming ps1 (vs @ t @ endl_token # ts)"
    from o [OF this] show "gives (do { (oprnd', ps2) \<leftarrow> parse_operand op ps1; ps3 \<leftarrow> end_of_line ps2;
      Some (AST_OP op n oprnd', ps3) }) ps1 (AST_OP op n oprnd) ts"
    proof (rule gives_bind)
      fix ps2 assume "coming ps2 (t @ endl_token # ts)"
      from end_of_line_comes [OF assms(2) this]
      show "gives (do { ps3 \<leftarrow> end_of_line ps2; Some (AST_OP op n oprnd, ps3) }) ps2 (AST_OP op n oprnd) ts"
        by (auto intro: comes_bind gives_here)
    qed
  qed
  then show ?thesis using coming_tok [OF c] coming_current [OF c] by (simp add: tasm_parse_instruction_def)
qed

lemma label_decl_gives:
  assumes "coming ps (tk TOKEN_ID n # tk TOKEN_COLON c # ts)"
  shows "gives (tasm_parse_label_decl ps) ps (AST_LABEL_DECL n) ts"
proof -
  have "gives (do { ps1 \<leftarrow> eat ps TOKEN_ID; ps2 \<leftarrow> eat ps1 TOKEN_COLON; Some (AST_LABEL_DECL n, ps2) }) ps (AST_LABEL_DECL n) ts"
  proof (rule comes_bind)
    show "comes (eat ps TOKEN_ID) ps (tk TOKEN_COLON c # ts)" using eat_comes [OF assms] by simp
    fix ps1 assume "coming ps1 (tk TOKEN_COLON c # ts)"
    from eat_comes [OF this, of TOKEN_COLON]
    show "gives (do { ps2 \<leftarrow> eat ps1 TOKEN_COLON; Some (AST_LABEL_DECL n, ps2) }) ps1 (AST_LABEL_DECL n) ts"
      by (auto intro: comes_bind gives_here)
  qed
  then show ?thesis using coming_current [OF assms] by (simp add: tasm_parse_label_decl_def)
qed

text \<open>A label or a declaration leaves the end of its line to the loop over lines, which skips it.\<close>

definition skipped :: "tasm_token_t list \<Rightarrow> bool" where
  "skipped t \<longleftrightarrow> set t \<subseteq> {comment_token, endl_token}"

lemma trailer_skipped: "trailer t \<Longrightarrow> skipped (t @ [endl_token])"
  by (auto simp: trailer_def skipped_def)

definition line_gives :: "parse_opt_result \<Rightarrow> tasm_parser_t \<Rightarrow> tasm_ast \<Rightarrow> tasm_token_t list \<Rightarrow> bool" where
  "line_gives r ps a ts \<longleftrightarrow> (\<exists>t. skipped t \<and> gives r ps (Some a) (t @ ts))"

lemma line_givesI: "gives r ps a (t @ ts) \<Longrightarrow> skipped t \<Longrightarrow> line_gives (found r) ps a ts"
  using gives_found by (auto simp: line_gives_def)

lemma statement_gives:
  assumes "statement us a" and "trailer t" and "coming ps (us @ t @ endl_token # ts)"
  shows "line_gives (tasm_parse_line ps) ps a ts" and "line_gives (tasm_parse_proc_line ps) ps a ts"
proof -
  have "line_gives (tasm_parse_line ps) ps a ts \<and> line_gives (tasm_parse_proc_line ps) ps a ts"
  proof (cases "\<exists>n. a = AST_LABEL_DECL n")
    case True
    then obtain n where a: "a = AST_LABEL_DECL n" by blast
    with assms(1) have us: "us = [tk TOKEN_ID n, tk TOKEN_COLON [58]]" by (cases rule: statement.cases) auto
    have c: "coming ps (tk TOKEN_ID n # tk TOKEN_COLON [58] # (t @ [endl_token]) @ ts)" using assms(3) us by simp
    have "is_line_label_decl ps" using coming_tok [OF c] coming_next [OF c] by (simp add: is_line_label_decl_def)
    with line_givesI [OF label_decl_gives [OF c] trailer_skipped [OF assms(2)]] show ?thesis
      by (simp add: a tasm_parse_line_def tasm_parse_proc_line_def)
  next
    case False
    with assms(1) obtain op n oprnd where a: "a = AST_OP op n oprnd" by cases auto
    from assms(1) obtain vs where "us = tk (TOKEN_OP op) n # vs" unfolding a by cases auto
    with assms(3) have "tok ps = TOKEN_OP op" using coming_tok by fastforce
    then have "\<not> is_line_label_decl ps" "\<not> is_line_proc ps" "is_line_instruction ps"
      by (simp_all add: is_line_label_decl_def is_line_proc_def is_line_instruction_def)
    moreover have "line_gives (found (tasm_parse_instruction ps)) ps a ts"
      using line_givesI [of _ ps a "[]" ts] instruction_gives [OF assms(1) [unfolded a] assms(2,3)]
      by (simp add: a skipped_def)
    ultimately show ?thesis by (simp add: tasm_parse_line_def tasm_parse_proc_line_def)
  qed
  then show "line_gives (tasm_parse_line ps) ps a ts" and "line_gives (tasm_parse_proc_line ps) ps a ts" by simp_all
qed

lemma ctype_gives:
  assumes "coming ps (ctype_token a # ts)"
  shows "gives (parse_ctype c ps) ps (ctype_code (fst a)) ts"
proof -
  have t: "tok ps = TOKEN_TCI (fst a)" using coming_tok [OF assms] by (simp add: ctype_token_def)
  then have n: "ctype_number ps = ctype_code (fst a)" by (simp add: ctype_number_def token_number_def)
  from eat_comes [OF assms, of "tok ps"] t show ?thesis
    by (simp add: parse_ctype_def is_token_ctype_def n ctype_token_def) (auto simp: comes_def gives_def)
qed

lemma cfunction_args_give:
  assumes "coming ps (map ctype_token args @ x # ts)" and "x = comment_token \<or> x = endl_token"
  shows "gives (parse_cfunction_args ps) ps (map (ctype_code \<circ> fst) args) (x # ts)"
  using assms(1)
proof (induction args arbitrary: ps)
  case Nil
  with assms(2) coming_tok [of ps x ts] have "cfunction_stop ps"
    by (auto simp: cfunction_stop_def comment_token_def endl_token_def)
  with Nil show ?case by (simp add: parse_cfunction_args.simps gives_here)
next
  case (Cons a args)
  then have "\<not> cfunction_stop ps"
    using coming_tok [of ps "ctype_token a"] by (simp add: cfunction_stop_def ctype_token_def)
  moreover have "gives (do { (t, ps1) \<leftarrow> parse_ctype 4100 ps; (ts, ps2) \<leftarrow> parse_cfunction_args ps1; Some (t # ts, ps2) })
      ps (map (ctype_code \<circ> fst) (a # args)) (x # ts)"
  proof (rule gives_bind)
    show "gives (parse_ctype 4100 ps) ps (ctype_code (fst a)) (map ctype_token args @ x # ts)"
      using ctype_gives Cons.prems by simp
    fix ps1 assume "coming ps1 (map ctype_token args @ x # ts)"
    from Cons.IH [OF this] show "gives (do { (ts', ps2) \<leftarrow> parse_cfunction_args ps1; Some (ctype_code (fst a) # ts', ps2) }) ps1
      (map (ctype_code \<circ> fst) (a # args)) (x # ts)"
      by (auto simp: gives_def)
  qed
  ultimately show ?case by (subst parse_cfunction_args.simps) simp
qed

lemma cfunction_gives:
  assumes "coming ps ([tk TOKEN_CFUNCTION d, ctype_token ret, tk TOKEN_ID n] @ map ctype_token args @ x # ts)"
    and "x = comment_token \<or> x = endl_token"
  shows "gives (tasm_parse_cfunction ps) ps (AST_CFUNCTION (ctype_code (fst ret)) (map (ctype_code \<circ> fst) args)
    (word_of_nat (length args)) (Some n)) (x # ts)" (is "gives _ _ ?a _")
  unfolding tasm_parse_cfunction_def
proof (rule comes_bind)
  show "comes (eat ps TOKEN_CFUNCTION) ps (ctype_token ret # tk TOKEN_ID n # map ctype_token args @ x # ts)"
    using eat_comes assms(1) by fastforce
  fix ps1 assume c: "coming ps1 (ctype_token ret # tk TOKEN_ID n # map ctype_token args @ x # ts)"
  from ctype_gives [OF c, of 4000]
  show "gives (do { (rt, ps2) \<leftarrow> parse_ctype 4000 ps1; ps3 \<leftarrow> eat ps2 TOKEN_ID; (as, ps4) \<leftarrow> parse_cfunction_args ps3;
      Some (AST_CFUNCTION rt as (word_of_nat (length as)) (tok_value (current_token ps2)), ps4) }) ps1 ?a (x # ts)"
  proof (rule gives_bind)
    fix ps2 assume c2: "coming ps2 (tk TOKEN_ID n # map ctype_token args @ x # ts)"
    have v: "tok_value (current_token ps2) = Some n" using coming_current [OF c2] by simp
    show "gives (do { ps3 \<leftarrow> eat ps2 TOKEN_ID; (as, ps4) \<leftarrow> parse_cfunction_args ps3;
      Some (AST_CFUNCTION (ctype_code (fst ret)) as (word_of_nat (length as)) (tok_value (current_token ps2)), ps4) })
      ps2 ?a (x # ts)"
    proof (rule comes_bind)
      show "comes (eat ps2 TOKEN_ID) ps2 (map ctype_token args @ x # ts)" using eat_comes [OF c2] by simp
      fix ps3 assume "coming ps3 (map ctype_token args @ x # ts)"
      from cfunction_args_give [OF this assms(2)]
      show "gives (do { (as, ps4) \<leftarrow> parse_cfunction_args ps3;
        Some (AST_CFUNCTION (ctype_code (fst ret)) as (word_of_nat (length as)) (tok_value (current_token ps2)), ps4) })
        ps3 ?a (x # ts)" by (auto simp: gives_def v)
    qed
  qed
qed

lemma data_gives:
  assumes "coming ps (tk TOKEN_DATA d # us @ ts)"
    and "operand_text Push_operand us a \<or> (\<exists>p q v. us = [tk TOKEN_QUOTA p, tk TOKEN_STRING v, tk TOKEN_QUOTA q] \<and> a = AST_STRING v)"
  shows "gives (tasm_parse_data ps) ps (AST_DATA (Some a)) ts"
  unfolding tasm_parse_data_def
proof (rule comes_bind)
  show "comes (eat ps TOKEN_DATA) ps (us @ ts)" using eat_comes [OF assms(1)] by simp
  fix ps1 assume c: "coming ps1 (us @ ts)"
  have "gives (if tok ps1 = TOKEN_QUOTA then found (tasm_parse_str_lit ps1)
       else if tok ps1 = TOKEN_APOST then found (tasm_parse_char_lit ps1)
       else tasm_parse_number_operand ps1) ps1 (Some a) ts"
    using assms(2)
  proof
    assume o: "operand_text Push_operand us a"
    then have "tok ps1 \<noteq> TOKEN_QUOTA" using c coming_tok number_cases by cases fastforce+
    with operand_gives [OF o c] show ?thesis by (simp add: tasm_parse_push_operand_def is_operand_char_def)
  next
    assume "\<exists>p q v. us = [tk TOKEN_QUOTA p, tk TOKEN_STRING v, tk TOKEN_QUOTA q] \<and> a = AST_STRING v"
    then obtain p q v where u: "us = [tk TOKEN_QUOTA p, tk TOKEN_STRING v, tk TOKEN_QUOTA q]" "a = AST_STRING v" by blast
    with c have "tok ps1 = TOKEN_QUOTA" by (simp add: coming_tok)
    with str_lit_gives [of ps1 p v q ts] c u show ?thesis by (simp add: gives_found)
  qed
  then show "gives (do { (v, ps2) \<leftarrow> if tok ps1 = TOKEN_QUOTA then found (tasm_parse_str_lit ps1)
       else if tok ps1 = TOKEN_APOST then found (tasm_parse_char_lit ps1)
       else tasm_parse_number_operand ps1; Some (AST_DATA v, ps2) }) ps1 (AST_DATA (Some a)) ts"
    by (rule gives_bind) (rule gives_here)
qed

lemma meta_gives:
  assumes "meta_line us a" and "trailer t" and "coming ps (us @ t @ endl_token # ts)"
  shows "line_gives (tasm_parse_line ps) ps a ts"
proof -
  let ?ts = "t @ endl_token # ts"
  obtain x xs where x: "?ts = x # xs" "x = comment_token \<or> x = endl_token" using assms(2) by (auto simp: trailer_def)
  from assms(1) obtain u us' where us: "us = tk TOKEN_AT [64] # u # us'" by cases auto
  with assms(3) have c: "coming ps (tk TOKEN_AT [64] # u # us' @ ?ts)" by simp
  have "gives (tasm_parse_metadata ps) ps (Some a) ?ts"
    unfolding tasm_parse_metadata_def
  proof (rule comes_bind)
    show "comes (eat ps TOKEN_AT) ps (u # us' @ ?ts)" using eat_comes [OF c] by simp
    fix ps1 assume c1: "coming ps1 (u # us' @ ?ts)"
    from assms(1) show "gives (if tok ps1 = TOKEN_CFUNCTION then found (tasm_parse_cfunction ps1)
      else if tok ps1 = TOKEN_CSTRUCT then found (tasm_parse_cstruct ps1)
      else if tok ps1 = TOKEN_DATA then found (tasm_parse_data ps1)
      else do { ps2 \<leftarrow> tasm_parser_eat ps1 (Inr 8000); Some (None, ps2) }) ps1 (Some a) ?ts"
    proof cases
      case (const vs b d)
      with us have u: "u = tk TOKEN_DATA d" "us' = vs" by auto
      with c1 data_gives [of ps1 d vs ?ts b] const show ?thesis by (simp add: coming_tok gives_found)
    next
      case (str d v)
      with us have u: "u = tk TOKEN_DATA d" "us' = [tk TOKEN_QUOTA [c_quote], tk TOKEN_STRING v, tk TOKEN_QUOTA [c_quote]]"
        by simp_all
      have "gives (tasm_parse_data ps1) ps1 (AST_DATA (Some (AST_STRING v))) ?ts"
        using c1 u by (intro data_gives [of ps1 d us']) auto
      then show ?thesis using c1 by (simp add: coming_tok gives_found str(2) u(1))
    next
      case (cfunction d ret n args)
      with us have u: "u = tk TOKEN_CFUNCTION d" "us' = ctype_token ret # tk TOKEN_ID n # map ctype_token args" by auto
      with c1 cfunction_gives [of ps1 d ret n args x xs] x cfunction show ?thesis by (simp add: coming_tok gives_found)
    qed
  qed
  moreover have "\<not> is_line_label_decl ps" "\<not> is_line_proc ps" "\<not> is_line_instruction ps" "is_line_meta ps"
    using coming_tok [OF c]
    by (simp_all add: is_line_label_decl_def is_line_proc_def is_line_instruction_def is_line_meta_def)
  ultimately have "gives (tasm_parse_line ps) ps (Some a) ((t @ [endl_token]) @ ts)" by (simp add: tasm_parse_line_def)
  with trailer_skipped [OF assms(2)] show ?thesis unfolding line_gives_def by blast
qed

end
