(* ===== verification/Grammar_Parser.thy ===== *)
theory Grammar_Parser
  imports Token_Stream Tasm_Main
begin

text \<open>
  The parser on the texts of the grammar: the two loops over lines deliver the trees of the lines and
  skip what is left of them, so that a source is parsed, without an error, to the tree it denotes.
  The locale \<open>line_reader\<close> is the contract of such a loop.
\<close>

text \<open>The tokens a line can start with.\<close>

definition front :: "tasm_token_t list \<Rightarrow> bool" where
  "front ts \<longleftrightarrow> ts = [] \<or> tok_type (hd ts) \<notin> {TOKEN_COMMENT, TOKEN_ENDLINE, TOKEN_EOF}"

lemma skipped_simps [simp]:
  "skipped []" "skipped (x # t) \<longleftrightarrow> (x = comment_token \<or> x = endl_token) \<and> skipped t"
  "skipped (t @ t') \<longleftrightarrow> skipped t \<and> skipped t'"
  by (auto simp: skipped_def)

lemma eat_if_skipped:
  assumes "coming ps (sk @ ts)" and "skipped sk" and "front ts" and "t = TOKEN_COMMENT \<or> t = TOKEN_ENDLINE \<or> t = TOKEN_EOF"
  shows "\<exists>sk'. comes (eat_if ps t) ps (sk' @ ts) \<and> skipped sk' \<and> length sk' \<le> length sk \<and>
    (sk \<noteq> [] \<and> tok ps = t \<longrightarrow> length sk' < length sk)"
proof (cases sk)
  case Nil
  show ?thesis
  proof (cases ts)
    case tsn: Nil
    with Nil assms(1) eat_if_comes(2) [of ps t] show ?thesis by (intro exI [of _ "[]"]) simp
  next
    case (Cons x xs)
    with Nil assms eat_if_comes(1) [of ps x xs t] show ?thesis
      by (intro exI [of _ "[]"]) (auto simp: front_def)
  qed
next
  case (Cons x xs)
  with assms(1,2) eat_if_comes(1) [of ps x "xs @ ts" t] coming_tok [of ps x "xs @ ts"] show ?thesis
    by (intro exI [of _ "if tok_type x = t then xs else x # xs"]) auto
qed

lemma strays_come:
  assumes "coming ps (x # sk @ ts)" and "skipped (x # sk)" and "front ts"
  shows "\<exists>sk'. comes (skip_strays c d ps) ps (sk' @ ts) \<and> skipped sk' \<and> length sk' \<le> length sk"
proof -
  have t: "tok ps = TOKEN_ENDLINE \<or> tok ps = TOKEN_COMMENT"
    using coming_tok [OF assms(1)] assms(2) by (auto simp: comment_token_def endl_token_def)
  then have s: "skip_strays c d ps = do { ps4 \<leftarrow> eat_if ps TOKEN_ENDLINE; ps5 \<leftarrow> eat_if ps4 TOKEN_COMMENT; eat_if ps5 TOKEN_EOF }"
    by (auto simp: skip_strays_def err_if_def is_stray_def is_line_cinterface_token_def is_token_ctype_def is_line_endp_def)
  from eat_if_skipped [of ps "x # sk" ts TOKEN_ENDLINE] assms obtain sk1 ps4 where
    a: "eat_if ps TOKEN_ENDLINE = Some ps4" "coming ps4 (sk1 @ ts)" "is_err ps4 = is_err ps" "skipped sk1"
    "length sk1 \<le> Suc (length sk)" "tok ps = TOKEN_ENDLINE \<longrightarrow> length sk1 \<le> length sk"
    by (auto simp: comes_def less_Suc_eq_le)
  from eat_if_skipped [OF a(2,4) assms(3), of TOKEN_COMMENT] obtain sk2 ps5 where
    b: "eat_if ps4 TOKEN_COMMENT = Some ps5" "coming ps5 (sk2 @ ts)" "is_err ps5 = is_err ps4" "skipped sk2"
    "length sk2 \<le> length sk1" "sk1 \<noteq> [] \<and> tok ps4 = TOKEN_COMMENT \<longrightarrow> length sk2 < length sk1"
    by (auto simp: comes_def)
  from eat_if_skipped [OF b(2,4) assms(3), of TOKEN_EOF] obtain sk3 where
    e: "comes (eat_if ps5 TOKEN_EOF) ps5 (sk3 @ ts)" "skipped sk3" "length sk3 \<le> length sk2" by auto
  have "length sk2 \<le> length sk"
  proof (cases "tok ps = TOKEN_ENDLINE")
    case False
    then have "ps4 = ps" using a(1) by (simp add: eat_if_def)
    with False t a(5) b(5,6) show ?thesis by (cases sk1) auto
  qed (use a(6) b(5) in simp)
  with e a(1,3) b(1,3) show ?thesis unfolding s by (intro exI [of _ sk3]) (simp add: comes_def)
qed

locale line_reader =
  fixes loop :: "tasm_parser_t \<Rightarrow> (tasm_ast list \<times> tasm_parser_t) option"
    and stop :: "tasm_parser_t \<Rightarrow> bool"
    and line :: "tasm_parser_t \<Rightarrow> parse_opt_result"
    and mark :: "tasm_ast option \<Rightarrow> tasm_parser_t \<Rightarrow> tasm_parser_t"
  assumes unfold: "loop ps = (if stop ps then Some ([], ps) else do {
        (l, ps1) \<leftarrow> line ps;
        (ls, ps2) \<leftarrow> loop (mark l ps1);
        Some (case l of None \<Rightarrow> ls | Some a \<Rightarrow> a # ls, ps2) })"
    and goes_on: "tok ps = TOKEN_ENDLINE \<or> tok ps = TOKEN_COMMENT \<Longrightarrow> \<not> stop ps"
    and strays: "tok ps = TOKEN_ENDLINE \<or> tok ps = TOKEN_COMMENT \<Longrightarrow>
      \<exists>c d. line ps = map_option (Pair None) (skip_strays c d ps)"
    and mark_none: "mark None ps = ps"
    and mark_same: "coming (mark l ps) ts \<longleftrightarrow> coming ps ts" "is_err (mark l ps) = is_err ps"
begin

lemma skip_gives:
  assumes "coming ps (sk @ ts)" and "skipped sk" and "front ts"
    and "\<And>ps'. coming ps' ts \<Longrightarrow> is_err ps' = is_err ps \<Longrightarrow> gives (loop ps') ps' ls us"
  shows "gives (loop ps) ps ls us"
  using assms
proof (induction "length sk" arbitrary: sk ps rule: less_induct)
  case less
  show ?case
  proof (cases sk)
    case Nil
    with less.prems show ?thesis by simp
  next
    case (Cons x sk')
    with less.prems(1) have "tok ps = tok_type x" by (simp add: coming_tok)
    with Cons less.prems(2) have t: "tok ps = TOKEN_ENDLINE \<or> tok ps = TOKEN_COMMENT"
      by (auto simp: comment_token_def endl_token_def)
    from strays [OF t] obtain c d where l: "line ps = map_option (Pair None) (skip_strays c d ps)" by blast
    from strays_come [of ps x sk' ts c d] less.prems Cons obtain sk1 ps1 where
      s: "skip_strays c d ps = Some ps1" "coming ps1 (sk1 @ ts)" "is_err ps1 = is_err ps" "skipped sk1"
      "length sk1 < length sk" by (auto simp: comes_def less_Suc_eq_le)
    have "gives (loop ps1) ps1 ls us"
      using less.hyps [OF s(5,2,4) less.prems(3)] less.prems(4) s(3) by simp
    moreover have "loop ps = loop ps1"
      using goes_on [OF t] l s(1) by (subst unfold) (cases "loop ps1"; simp add: mark_none)
    ultimately show ?thesis using s(3) by (simp add: gives_def)
  qed
qed

lemma line_gives_loop:
  assumes "\<not> stop ps" and "line_gives (line ps) ps a ts"
    and "\<And>sk ps'. skipped sk \<Longrightarrow> coming ps' (sk @ ts) \<Longrightarrow> gives (loop ps') ps' ls us"
  shows "gives (loop ps) ps (a # ls) us"
proof -
  from assms(2) obtain t ps1 where l: "line ps = Some (Some a, ps1)" "skipped t" "coming ps1 (t @ ts)"
    "is_err ps1 = is_err ps" by (auto simp: line_gives_def gives_def)
  with assms(3) [of t "mark (Some a) ps1"] obtain ps2 where
    "loop (mark (Some a) ps1) = Some (ls, ps2)" "coming ps2 us" "is_err ps2 = is_err ps1"
    by (auto simp: mark_same gives_def)
  with assms(1) l show ?thesis by (subst unfold) (auto simp: gives_def)
qed

end

lemma marks_keep:
  "coming (note_line l ps) ts \<longleftrightarrow> coming ps ts" "is_err (note_line l ps) = is_err ps"
  "coming (note_file_line l ps) ts \<longleftrightarrow> coming ps ts" "is_err (note_file_line l ps) = is_err ps"
  by (auto simp: note_line_def note_file_line_def coming_def split: option.splits tasm_ast.splits optype_t.splits)

lemma mark_nothing: "note_line None ps = ps" "note_file_line None ps = ps"
  by (simp_all add: note_line_def note_file_line_def)

lemma end_line_tok:
  assumes "tok ps = TOKEN_ENDLINE \<or> tok ps = TOKEN_COMMENT"
  shows "\<not> is_line_label_decl ps" "\<not> is_line_proc ps" "\<not> is_line_instruction ps" "\<not> is_line_meta ps" "tok ps \<noteq> TOKEN_DATA"
  using assms by (auto simp: is_line_label_decl_def is_line_proc_def is_line_instruction_def is_line_meta_def)

interpretation file_reader: line_reader parse_file_lines "\<lambda>ps. tok ps = TOKEN_EOF" tasm_parse_line note_file_line
proof unfold_locales
  fix ps assume "tok ps = TOKEN_ENDLINE \<or> tok ps = TOKEN_COMMENT"
  from end_line_tok [OF this] show "\<exists>c d. tasm_parse_line ps = map_option (Pair None) (skip_strays c d ps)"
    by (intro exI [of _ 1200] exI [of _ 5100]) (simp add: tasm_parse_line_def map_option_case split: option.split)
qed (rule parse_file_lines.simps, auto simp: marks_keep mark_nothing)

interpretation proc_reader: line_reader parse_proc_lines "\<lambda>ps. tok ps = TOKEN_ENDP \<or> tok ps = TOKEN_EOF"
  tasm_parse_proc_line note_line
proof unfold_locales
  fix ps assume "tok ps = TOKEN_ENDLINE \<or> tok ps = TOKEN_COMMENT"
  from end_line_tok [OF this] show "\<exists>c d. tasm_parse_proc_line ps = map_option (Pair None) (skip_strays c d ps)"
    by (intro exI [of _ 1201] exI [of _ 5101]) (simp add: tasm_parse_proc_line_def err_if_def map_option_case split: option.split)
qed (rule parse_proc_lines.simps, auto simp: marks_keep mark_nothing)

lemma statement_front:
  assumes "statement us a \<or> meta_line us a"
  shows "\<exists>u us'. us = u # us' \<and> (tok_type u = TOKEN_ID \<or> tok_type u = TOKEN_AT \<or> (\<exists>op. tok_type u = TOKEN_OP op))"
  using assms by (auto elim!: statement.cases meta_line.cases)

lemma proc_lines_give:
  assumes "proc_text ls tss" and "skipped sk" and "coming ps (sk @ file_tokens tss @ tk TOKEN_ENDP e # ts)"
  shows "gives (parse_proc_lines ps) ps ls (tk TOKEN_ENDP e # ts)"
  using assms
proof (induction arbitrary: sk ps rule: proc_text.induct)
  case nil
  show ?case
  proof (rule proc_reader.skip_gives [OF _ nil.prems(1)])
    show "coming ps (sk @ tk TOKEN_ENDP e # ts)" using nil.prems(2) by simp
    show "front (tk TOKEN_ENDP e # ts)" by (simp add: front_def)
    fix ps' assume "coming ps' (tk TOKEN_ENDP e # ts)"
    then show "gives (parse_proc_lines ps') ps' [] (tk TOKEN_ENDP e # ts)"
      by (subst parse_proc_lines.simps) (simp add: coming_tok gives_here)
  qed
next
  case (empty t ls tss)
  have "skipped (sk @ t @ [endl_token])" using empty.prems(1) trailer_skipped [OF empty.hyps(1)] by simp
  from empty.IH [OF this] empty.prems(2) show ?case by simp
next
  case (line us a t ls tss)
  let ?r = "file_tokens tss @ tk TOKEN_ENDP e # ts"
  from statement_front [of us a] line.hyps(1) obtain u us' where
    u: "us = u # us'" "tok_type u = TOKEN_ID \<or> tok_type u = TOKEN_AT \<or> (\<exists>op. tok_type u = TOKEN_OP op)" by blast
  show ?case
  proof (rule proc_reader.skip_gives [OF _ line.prems(1)])
    show "coming ps (sk @ us @ t @ endl_token # ?r)" using line.prems(2) by simp
    show "front (us @ t @ endl_token # ?r)" using u by (auto simp: front_def)
    fix ps' assume c: "coming ps' (us @ t @ endl_token # ?r)"
    then have "tok ps' = tok_type u" using u(1) by (simp add: coming_tok)
    with u(2) have "\<not> (tok ps' = TOKEN_ENDP \<or> tok ps' = TOKEN_EOF)" by auto
    then show "gives (parse_proc_lines ps') ps' (a # ls) (tk TOKEN_ENDP e # ts)"
      by (rule proc_reader.line_gives_loop [OF _ statement_gives(2) [OF line.hyps(1,2) c]]) (rule line.IH)
  qed
qed

lemma proc_gives:
  assumes "proc_text body bss" and "trailer t" and "trailer t'"
    and "coming ps ([tk TOKEN_PROC p, tk TOKEN_ID n] @ t @ endl_token # file_tokens bss @ tk TOKEN_ENDP e # t' @ endl_token # ts)"
  shows "gives (tasm_parse_proc ps) ps (AST_PROC (Some n) body) ts"
proof -
  let ?e = "tk TOKEN_ENDP e # t' @ endl_token # ts"
  let ?b = "(t @ [endl_token]) @ file_tokens bss @ ?e"
  from eat_comes [of ps "tk TOKEN_PROC p" "tk TOKEN_ID n # ?b" TOKEN_PROC] assms(4) obtain ps1 where
    1: "eat ps TOKEN_PROC = Some ps1" "coming ps1 (tk TOKEN_ID n # ?b)" "is_err ps1 = is_err ps" by (auto simp: comes_def)
  from eat_comes [OF 1(2), of TOKEN_ID] obtain ps2 where
    2: "eat ps1 TOKEN_ID = Some ps2" "coming ps2 ?b" "is_err ps2 = is_err ps1" by (auto simp: comes_def)
  from proc_lines_give [OF assms(1) trailer_skipped [OF assms(2)] 2(2)] obtain ps3 where
    3: "parse_proc_lines ps2 = Some (body, ps3)" "coming ps3 ?e" "is_err ps3 = is_err ps2" by (auto simp: gives_def)
  from eat_comes [OF 3(2), of TOKEN_ENDP] obtain ps4 where
    4: "eat ps3 TOKEN_ENDP = Some ps4" "coming ps4 (t' @ endl_token # ts)" "is_err ps4 = is_err ps3" by (auto simp: comes_def)
  define ps5 where "ps5 = (if proc_return_warning ps4
       then tasm_parser_warn ps4 ''procedure: there is no ret opcode. It may cause possible unpredicted behaivours''
       else ps4)\<lparr>proc_return_warning := True\<rparr>"
  have "coming ps5 (t' @ endl_token # ts)" "is_err ps5 = is_err ps4"
    using 4(2) coming_same [of ps5 ps4] by (simp_all add: ps5_def tasm_parser_warn_def)
  with end_of_line_comes [OF assms(3), of ps5 ts] obtain ps6 where
    "end_of_line ps5 = Some ps6" "coming ps6 ts" "is_err ps6 = is_err ps4" by (auto simp: comes_def)
  moreover have "tok_value (current_token ps1) = Some n" using coming_current [OF 1(2)] by simp
  ultimately show ?thesis
    using 1(1,3) 2(1,3) 3(1,3) 4(1,3) by (simp add: tasm_parse_proc_def gives_def ps5_def Let_def)
qed

lemma file_lines_give:
  assumes "file_text ls tss" and "skipped sk" and "coming ps (sk @ file_tokens tss)"
  shows "gives (parse_file_lines ps) ps ls []"
  using assms
proof (induction arbitrary: sk ps rule: file_text.induct)
  case nil
  show ?case
  proof (rule file_reader.skip_gives [OF _ nil.prems(1)])
    show "coming ps (sk @ [])" "front []" using nil.prems(2) by (simp_all add: front_def)
    fix ps' assume "coming ps' []"
    then show "gives (parse_file_lines ps') ps' [] []"
      by (subst parse_file_lines.simps) (simp add: coming_end gives_here)
  qed
next
  case (empty t ls tss)
  have "skipped (sk @ t @ [endl_token])" using empty.prems(1) trailer_skipped [OF empty.hyps(1)] by simp
  from empty.IH [OF this] empty.prems(2) show ?case by simp
next
  case (line us a t ls tss)
  from statement_front [OF line.hyps(1)] obtain u us' where
    u: "us = u # us'" "tok_type u = TOKEN_ID \<or> tok_type u = TOKEN_AT \<or> (\<exists>op. tok_type u = TOKEN_OP op)" by blast
  show ?case
  proof (rule file_reader.skip_gives [OF _ line.prems(1)])
    show "coming ps (sk @ us @ t @ endl_token # file_tokens tss)" using line.prems(2) by simp
    show "front (us @ t @ endl_token # file_tokens tss)" using u by (auto simp: front_def)
    fix ps' assume c: "coming ps' (us @ t @ endl_token # file_tokens tss)"
    then have "tok ps' = tok_type u" using u(1) by (simp add: coming_tok)
    with u(2) have ne: "tok ps' \<noteq> TOKEN_EOF" by auto
    have "line_gives (tasm_parse_line ps') ps' a (file_tokens tss)"
      using line.hyps(1) statement_gives(1) [OF _ line.hyps(2) c] meta_gives [OF _ line.hyps(2) c] by blast
    then show "gives (parse_file_lines ps') ps' (a # ls) []"
      by (rule file_reader.line_gives_loop [OF ne]) (rule line.IH)
  qed
next
  case (proc body bss t t' ls tss n p e)
  let ?r = "[tk TOKEN_PROC p, tk TOKEN_ID n] @ t @ endl_token # file_tokens bss @ tk TOKEN_ENDP e # t' @ endl_token # file_tokens tss"
  show ?case
  proof (rule file_reader.skip_gives [OF _ proc.prems(1)])
    show "coming ps (sk @ ?r)" using proc.prems(2) by simp
    show "front ?r" by (simp add: front_def)
    fix ps' assume c: "coming ps' ?r"
    then have t: "tok ps' = TOKEN_PROC" using coming_tok [of ps' "tk TOKEN_PROC p"] by simp
    then have "tok ps' \<noteq> TOKEN_EOF" by simp
    moreover from t have "\<not> is_line_label_decl ps'" "is_line_proc ps'"
      by (simp_all add: is_line_label_decl_def is_line_proc_def)
    then have "line_gives (tasm_parse_line ps') ps' (AST_PROC (Some n) body) (file_tokens tss)"
      using line_givesI [of _ ps' _ "[]"] proc_gives [OF proc.hyps(1-3) c] by (simp add: tasm_parse_line_def)
    ultimately show "gives (parse_file_lines ps') ps' (AST_PROC (Some n) body # ls) []"
      by (rule file_reader.line_gives_loop) (rule proc.IH)
  qed
qed

lemma file_opens_char: "file_text ls tss \<Longrightarrow> \<forall>ts \<in> set tss. \<not> opens_char ts"
proof (induction rule: file_text.induct)
  case (line us a t ls tss)
  with statement_front [OF line.hyps(1)] show ?case by (auto simp: opens_char_def)
next
  case (proc body bss t t' ls tss n p e)
  have "\<forall>ts \<in> set bss. \<not> opens_char ts" using proc.hyps(1)
  proof (induction rule: proc_text.induct)
    case (line us a t ls tss)
    with statement_front [of us a] show ?case by (auto simp: opens_char_def)
  qed (auto simp: opens_char_def trailer_def comment_token_def)
  with proc show ?case by (auto simp: opens_char_def)
qed (auto simp: opens_char_def trailer_def comment_token_def)

lemma source_parsed:
  assumes "denotes src ls"
  shows "\<exists>ps. parse_source src = Some (AST_FILE ls, ps) \<and> \<not> is_err ps"
proof -
  from assms obtain lines tss where d: "src = lines_source lines" "lines \<noteq> []" "list_all printable_line lines"
    "list_all2 spelled_line tss lines" "file_text ls tss" unfolding denotes_def by blast
  from source_read [OF d(4,3,2) file_opens_char [OF d(5)]] obtain lx where
    lx: "tasm_lexer_init src = Some lx" "reads_to lx (file_tokens tss) [c_eof]" unfolding d(1) by blast
  let ?none = "tasm_token_create TOKEN_NONE None"
  have "tss \<noteq> []" using d(2,4) by auto
  then obtain b us where b: "file_tokens tss = b # us"
    by (cases tss; cases "hd tss") auto
  with lx(2) obtain lx1 where n: "tasm_lexer_get_next_token lx = Some (b, lx1)" "reads_to lx1 us [c_eof]"
    by (auto simp: reads_to_def)
  define ps where "ps = \<lparr>current_token = ?none, prev_token = ?none, next_token = b, lexer = lx1, is_err = False,
    proc_return_warning = True, global_hlt_warning = True, diags = []\<rparr>"
  have i: "tasm_parser_init lx = Some ps" by (simp add: tasm_parser_init_def n(1) ps_def)
  have "coming ps (?none # file_tokens tss)"
    unfolding coming_def b by (intro exI [of _ 0] exI [of _ ?none] exI [of _ b] exI [of _ us]) (simp add: ps_def n(2))
  from eat_comes [OF this, of TOKEN_NONE] obtain ps1 where
    1: "eat ps TOKEN_NONE = Some ps1" "coming ps1 (file_tokens tss)" "\<not> is_err ps1" by (auto simp: comes_def ps_def)
  from file_lines_give [OF d(5), of "[]" ps1] 1(2,3) obtain ps2 where
    2: "parse_file_lines ps1 = Some (ls, ps2)" "coming ps2 []" "\<not> is_err ps2" by (auto simp: gives_def)
  define ps3 where "ps3 = (if global_hlt_warning ps2 then tasm_parser_warn ps2
    ''file: there is no hlt opcode. It may cause possible unpredicted behaivours'' else ps2)\<lparr>global_hlt_warning := True\<rparr>"
  have 3: "coming ps3 []" "\<not> is_err ps3"
    using 2(2,3) coming_same [of ps3 ps2] by (simp_all add: ps3_def tasm_parser_warn_def)
  from eat_end [OF 3(1)] 3(2) obtain ps4 where 4: "eat ps3 TOKEN_EOF = Some ps4" "\<not> is_err ps4" by (auto simp: comes_def)
  have "end_of_line ps3 = Some ps4"
    using coming_end [OF 3(1)] 4(1) by (simp add: end_of_line_def eat_if_def)
  then have "tasm_parse_file ps = Some (AST_FILE ls, ps4)"
    using 1(1) 2(1) by (simp add: tasm_parse_file_def ps3_def Let_def)
  with lx(1) i 4(2) show ?thesis by (simp add: parse_source_def)
qed

end
