(* ===== verification/Source_Printer.thy ===== *)
theory Source_Printer
  imports Source_Grammar Keywords
begin

text \<open>
  A printer for syntax trees: one line for each statement and declaration, the lines of a procedure
  between those that open and close it, words one blank apart. Every tree whose texts can be spelled
  is printed as a source that denotes it.
\<close>

subsection \<open>Printing\<close>

definition quoted :: "bytes \<Rightarrow> bytes" where
  "quoted v = concat (map (\<lambda>c. case map_of [(10, 110), (9, 116), (13, 114), (92, 92), (34, 34)] c of
     None \<Rightarrow> [c] | Some e \<Rightarrow> [92, e]) v)"

fun operand_bytes :: "tasm_ast \<Rightarrow> bytes" where
  "operand_bytes (AST_NUMBER w v) = w"
| "operand_bytes (AST_LABEL_CALL n) = n"
| "operand_bytes (AST_CHAR (Some c)) = c_apost # c @ [c_apost]"
| "operand_bytes (AST_STRING v) = c_quote # quoted v @ [c_quote]"
| "operand_bytes _ = []"

definition ctype_text :: "u8 \<Rightarrow> bytes" where
  "ctype_text r = bytes_of (tci_ctypes ! unat r)"

fun line_bytes :: "tasm_ast \<Rightarrow> bytes" where
  "line_bytes (AST_OP op n None) = n"
| "line_bytes (AST_OP op n (Some a)) = n @ 32 # operand_bytes a"
| "line_bytes (AST_LABEL_DECL n) = n @ [58]"
| "line_bytes (AST_DATA (Some a)) = bytes_of ''@data '' @ operand_bytes a"
| "line_bytes (AST_CFUNCTION r args count (Some n)) =
     bytes_of ''@cfun '' @ ctype_text r @ 32 # n @ concat (map (\<lambda>t. 32 # ctype_text t) args)"
| "line_bytes _ = []"

fun print_line :: "tasm_ast \<Rightarrow> bytes list" where
  "print_line (AST_PROC (Some n) body) = (bytes_of ''proc '' @ n) # map line_bytes body @ [bytes_of ''endp'']"
| "print_line a = [line_bytes a]"

definition print_lines :: "tasm_ast list \<Rightarrow> bytes list" where
  "print_lines ls = concat (map print_line ls)"

definition print_source :: "tasm_ast list \<Rightarrow> bytes" where
  "print_source ls = lines_source (print_lines ls)"

subsection \<open>Trees that can be spelled\<close>

definition label_name :: "bytes \<Rightarrow> bool" where
  "label_name n \<longleftrightarrow> name_text n \<and> id_type n = TOKEN_ID"

definition int_spelled :: "bytes \<Rightarrow> bytes \<Rightarrow> u32 \<Rightarrow> bool" where
  "int_spelled s w v \<longleftrightarrow> digits_text c_isdigit w \<and> c_atoi (s @ w) = Some v"

definition float_spelled :: "bytes \<Rightarrow> bytes \<Rightarrow> u32 \<Rightarrow> bool" where
  "float_spelled s w v \<longleftrightarrow>
     (let d = takeWhile c_isdigit w; f = dropWhile c_isdigit w
      in d \<noteq> [] \<and> f \<noteq> [] \<and> hd f = 46 \<and> list_all c_isdigit (tl f) \<and> v = c_strtof (s @ w))"

fun operand_spelled :: "operand_kind \<Rightarrow> tasm_ast \<Rightarrow> bool" where
  "operand_spelled k (AST_NUMBER w v) \<longleftrightarrow>
     (case k of
        Push_operand \<Rightarrow> if is_minus w then int_spelled [45] (tl w) v \<or> float_spelled [45] (tl w) v
          else int_spelled [] w v \<or> float_spelled [] w v
      | Label_operand \<Rightarrow> False
      | _ \<Rightarrow> int_spelled [] w v)"
| "operand_spelled k (AST_LABEL_CALL n) \<longleftrightarrow> (k = Jmp_operand \<or> k = Label_operand) \<and> label_name n"
| "operand_spelled k (AST_CHAR (Some c)) \<longleftrightarrow> k = Push_operand \<and> length c = 1 \<and> c \<noteq> [c_quote] \<and> c \<noteq> [c_apost]"
| "operand_spelled k _ \<longleftrightarrow> False"

fun statement_spelled :: "tasm_ast \<Rightarrow> bool" where
  "statement_spelled (AST_OP op n oprnd) \<longleftrightarrow> name_text n \<and> id_type n = TOKEN_OP op \<and>
     (case map_of operand_table op of
        None \<Rightarrow> oprnd = None
      | Some (k, e, msg) \<Rightarrow> (case oprnd of None \<Rightarrow> False | Some a \<Rightarrow> operand_spelled k a))"
| "statement_spelled (AST_LABEL_DECL n) \<longleftrightarrow> label_name n"
| "statement_spelled _ \<longleftrightarrow> False"

definition ctype_spelled :: "u8 \<Rightarrow> bool" where
  "ctype_spelled r \<longleftrightarrow> unat r < length all_ctypes"

definition string_spelled :: "bytes \<Rightarrow> bool" where
  "string_spelled v \<longleftrightarrow> v \<noteq> [] \<and> hd v \<noteq> c_apost \<and> 0 \<notin> set v"

fun line_spelled :: "tasm_ast \<Rightarrow> bool" where
  "line_spelled (AST_PROC (Some n) body) \<longleftrightarrow> label_name n \<and> list_all statement_spelled body"
| "line_spelled (AST_DATA (Some (AST_STRING v))) \<longleftrightarrow> string_spelled v"
| "line_spelled (AST_DATA (Some a)) \<longleftrightarrow> operand_spelled Push_operand a"
| "line_spelled (AST_CFUNCTION r args count (Some n)) \<longleftrightarrow> label_name n \<and> ctype_spelled r \<and> list_all ctype_spelled args \<and>
     count = word_of_nat (length args)"
| "line_spelled a \<longleftrightarrow> statement_spelled a"

subsection \<open>Printed words and lines\<close>

lemma spelled_word:
  assumes "word us w" and "separated w l" and "spelled_line ts l"
  shows "spelled_line (us @ ts) (w @ l)"
  using spelled_line.word [of "[]", OF _ assms] by (simp add: blanks_def)

lemma spelled_last: "word us w \<Longrightarrow> spelled_line us w"
  using spelled_word [of us w "[]" "[]"] spelled_line.ends [of "[]"] by (simp add: blanks_def separated_def)

lemma spelled_space: "spelled_line ts l \<Longrightarrow> spelled_line ts (32 # l)"
proof (induction rule: spelled_line.induct)
  case (ends b)
  then show ?case by (intro spelled_line.ends) (simp add: blanks_def)
next
  case (comment b c)
  then show ?case using spelled_line.comment [of "32 # b" c] by (simp add: blanks_def)
next
  case (word b us w l ts)
  then show ?case using spelled_line.word [of "32 # b" us w l ts] by (simp add: blanks_def)
qed

lemma separated_space: "is_id_char (hd w) \<or> hd w = 64 \<Longrightarrow> separated w (32 # l)"
  by (auto simp: separated_def is_id_char_def char_defs)

lemma name_hd: "name_text w \<Longrightarrow> is_id_char (hd w)"
  by (auto simp: name_text_def is_id_char_def c_isalnum_def)

lemma spelled_name:
  assumes "name_text n" and "id_type n = t" and "spelled_line ts l"
  shows "spelled_line (tk t n # ts) (n @ 32 # l)"
  using spelled_word [OF word.name [OF assms(1)] separated_space spelled_space [OF assms(3)]]
    name_hd [OF assms(1)] assms(2) by simp

lemma id_type_bytes: "t \<noteq> TOKEN_ID \<Longrightarrow> (s, t) \<in> set keyword_table \<Longrightarrow> id_type (bytes_of s) = t"
  by (simp add: id_type_keyword)

lemma keyword_types:
  "id_type (bytes_of ''proc'') = TOKEN_PROC" "id_type (bytes_of ''endp'') = TOKEN_ENDP"
  "id_type (bytes_of ''data'') = TOKEN_DATA" "id_type (bytes_of ''cfun'') = TOKEN_CFUNCTION"
  by (rule id_type_bytes; simp add: keyword_table_def)+

lemma keyword_names:
  "name_text (bytes_of ''proc'')" "name_text (bytes_of ''endp'')"
  "name_text (bytes_of ''data'')" "name_text (bytes_of ''cfun'')"
  by (simp_all add: name_text_def bytes_of_def byte_of_char_def is_id_char_def char_defs)

lemma quoted_simps: "quoted [] = []" "quoted (c # v) = (case map_of [(10, 110), (9, 116), (13, 114), (92, 92), (34, 34)] c of
     None \<Rightarrow> [c] | Some e \<Rightarrow> [92, e]) @ quoted v"
  by (simp_all add: quoted_def)

lemma unescape_quoted: "unescape (quoted v) = Some v"
  by (induction v) (auto simp: quoted_simps escape_def c_quote_def)

lemma quoted_start: "v \<noteq> [] \<Longrightarrow> hd v \<noteq> c_apost \<Longrightarrow> quoted v \<noteq> [] \<and> hd (quoted v) \<noteq> c_apost"
  by (cases v) (auto simp: quoted_simps c_apost_def)

lemma int_spelled_word:
  assumes "int_spelled s w v"
  shows "word [tk TOKEN_DECIMAL_NUMBER w] w" and "number TOKEN_DECIMAL_NUMBER (s @ w) v"
  using assms by (auto simp: int_spelled_def intro: word.decimal number.decimal)

lemma float_spelled_word:
  assumes "float_spelled s w v"
  shows "word [tk TOKEN_FLOAT_NUMBER w] w" and "number TOKEN_FLOAT_NUMBER (s @ w) v"
proof -
  let ?d = "takeWhile c_isdigit w" and ?f = "dropWhile c_isdigit w"
  from assms have f: "?d \<noteq> []" "?f \<noteq> []" "hd ?f = 46" "list_all c_isdigit (tl ?f)" "v = c_strtof (s @ w)"
    by (simp_all add: float_spelled_def Let_def)
  then have "w = ?d @ 46 # tl ?f" by (metis list.collapse takeWhile_dropWhile_id)
  moreover have "digits_text c_isdigit ?d" using f(1) by (auto simp: digits_text_def list_all_iff dest: set_takeWhileD)
  ultimately show "word [tk TOKEN_FLOAT_NUMBER w] w" using word.fraction [of ?d "tl ?f"] f(4) by simp
  show "number TOKEN_FLOAT_NUMBER (s @ w) v" by (simp add: f(5) number.fraction)
qed

lemma minus_word: "word us w \<Longrightarrow> spelled_line (tk TOKEN_MINUS [45] # us) (45 # w)"
  using spelled_word [OF word.sign [of 45 TOKEN_MINUS], of w us] spelled_last [of us w]
  by (simp add: sign_words_def separated_def is_id_char_def char_defs)

lemma operand_spelled_text:
  assumes "operand_spelled k a"
  shows "\<exists>us. operand_text k us a \<and> spelled_line us (operand_bytes a)"
  using assms
proof (induction k a rule: operand_spelled.induct)
  case (1 k w v)
  have pos: "int_spelled [] w v \<Longrightarrow> \<exists>us. operand_text k us (AST_NUMBER w v) \<and> spelled_line us w" if "k \<noteq> Label_operand" for k
    using that int_spelled_word [of "[]" w v] spelled_last operand_text.int operand_text.number by (cases k) fastforce+
  have fl: "float_spelled [] w v \<Longrightarrow> \<exists>us. operand_text Push_operand us (AST_NUMBER w v) \<and> spelled_line us w"
    using float_spelled_word [of "[]" w v] spelled_last operand_text.number by fastforce
  have neg: "int_spelled [45] (tl w) v \<or> float_spelled [45] (tl w) v \<Longrightarrow> w = 45 # tl w \<Longrightarrow>
      \<exists>us. operand_text Push_operand us (AST_NUMBER w v) \<and> spelled_line us w"
    using int_spelled_word [of "[45]" "tl w" v] float_spelled_word [of "[45]" "tl w" v] minus_word
      operand_text.negative [of _ "tl w" v] by (metis append_Cons append_Nil)
  have "w = 45 # tl w" if "is_minus w" using that by (cases w) (auto simp: is_minus_def)
  with 1 pos fl neg show ?case by (cases k) (auto split: if_splits)
next
  case (2 k n)
  then have "word [tk TOKEN_ID n] n" using word.name [of n] by (simp add: label_name_def)
  with 2 spelled_last show ?case by (auto intro: operand_text.label)
next
  case (3 k c)
  then obtain b where b: "c = [b]" by (cases c; cases "tl c") auto
  with 3 have "word [tk TOKEN_APOST [c_apost], tk TOKEN_CHAR [b], tk TOKEN_APOST [c_apost]] [c_apost, b, c_apost]"
    by (intro word.char) auto
  from spelled_last [OF this] 3 operand_text.char [of "[b]"] show ?case by (auto simp: b)
qed auto

lemma statement_spelled_text:
  assumes "statement_spelled a"
  shows "\<exists>us. statement us a \<and> spelled_line us (line_bytes a)"
  using assms
proof (induction a rule: statement_spelled.induct)
  case (1 op n oprnd)
  show ?case
  proof (cases "map_of operand_table op")
    case None
    with 1 have "statement [tk (TOKEN_OP op) n] (AST_OP op n oprnd)" "word [tk (TOKEN_OP op) n] n"
      using word.name [of n] by (auto intro: statement.plain)
    with 1 None spelled_last show ?thesis by auto
  next
    case (Some kem)
    then obtain k e msg where t: "map_of operand_table op = Some (k, e, msg)" by (cases kem) auto
    with 1 obtain a where a: "oprnd = Some a" "operand_spelled k a" by (auto split: option.splits)
    from operand_spelled_text [OF a(2)] obtain us where u: "operand_text k us a" "spelled_line us (operand_bytes a)" by blast
    from 1 spelled_name [of n, OF _ _ u(2)] statement.operand [OF t u(1)] show ?thesis by (auto simp: a(1))
  qed
next
  case (2 n)
  then have n: "name_text n" "id_type n = TOKEN_ID" by (simp_all add: label_name_def)
  have c: "spelled_line [tk TOKEN_COLON [58]] [58]"
    by (rule spelled_last [OF word.sign]) (simp add: sign_words_def)
  have "separated n [58]" using name_hd [OF n(1)] by (simp add: separated_def is_id_char_def char_defs)
  from spelled_word [OF word.name [OF n(1)] this c] n(2) statement.label [of n] show ?case by auto
qed auto

lemma ctype_spelled_text:
  assumes "ctype_spelled r"
  shows "\<exists>t. ctype_code t = r \<and> word [ctype_token (t, ctype_text r)] (ctype_text r) \<and> name_text (ctype_text r)"
proof -
  let ?t = "all_ctypes ! unat r"
  have i: "unat r < length tci_ctypes" "unat r < length all_ctypes"
    using assms by (simp_all add: ctype_spelled_def all_ctypes_def tci_ctypes_def)
  have "list_all (name_text \<circ> bytes_of) tci_ctypes"
    by (simp add: tci_ctypes_def name_text_def bytes_of_def byte_of_char_def is_id_char_def char_defs)
  then have n: "name_text (ctype_text r)" using i(1) by (simp add: ctype_text_def list_all_length)
  have "(tci_ctypes ! unat r, ?t) \<in> set (zip tci_ctypes all_ctypes)" using i by (auto simp: set_zip)
  then have "id_type (ctype_text r) = TOKEN_TCI ?t"
    unfolding ctype_text_def by (intro id_type_bytes) (force simp: keyword_table_def)+
  moreover have "ctype_code ?t = r"
  proof -
    have m: "map (unat \<circ> ctype_code) all_ctypes = [0..<length all_ctypes]" by (simp add: all_ctypes_def)
    have "unat (ctype_code ?t) = map (unat \<circ> ctype_code) all_ctypes ! unat r" using i(2) by simp
    also have "\<dots> = unat r" unfolding m using i(2) by simp
    finally show ?thesis by (simp only: word_unat_eq_iff)
  qed
  ultimately show ?thesis using word.name [OF n] n by (auto simp: ctype_token_def)
qed

lemma ctypes_spelled_text:
  assumes "list_all ctype_spelled args"
  shows "\<exists>as. map (ctype_code \<circ> fst) as = args \<and>
    spelled_line (map ctype_token as) (concat (map (\<lambda>t. 32 # ctype_text t) args))"
  using assms
proof (induction args)
  case Nil
  then show ?case using spelled_line.ends [of "[]"] by (simp add: blanks_def)
next
  case (Cons r args)
  then have "list_all ctype_spelled args" by simp
  from Cons.IH [OF this] obtain as where a: "map (ctype_code \<circ> fst) as = args"
    "spelled_line (map ctype_token as) (concat (map (\<lambda>t. 32 # ctype_text t) args))" by blast
  from Cons.prems ctype_spelled_text obtain t where
    t: "ctype_code t = r" "word [ctype_token (t, ctype_text r)] (ctype_text r)" "name_text (ctype_text r)" by auto
  have "separated (ctype_text r) (concat (map (\<lambda>t. 32 # ctype_text t) args))"
    using name_hd [OF t(3)] by (cases args) (simp_all add: separated_def is_id_char_def char_defs)
  from spelled_space [OF spelled_word [OF t(2) this a(2)]] a(1) t(1) show ?case
    by (intro exI [of _ "(t, ctype_text r) # as"]) (simp add: comp_def)
qed

lemma spelled_at:
  assumes "name_text (bytes_of w)" and "id_type (bytes_of w) = t" and "spelled_line ts l" and "is_id_char (byte_of_char (hd w))"
  shows "spelled_line (tk TOKEN_AT [64] # tk t (bytes_of w) # ts) (64 # bytes_of w @ 32 # l)"
  using spelled_word [OF word.sign [of 64 TOKEN_AT] _ spelled_name [OF assms(1-3)]] assms(4)
  by (simp add: sign_words_def separated_def is_id_char_def char_defs)

lemma line_spelled_text:
  assumes "line_spelled a" and "\<nexists>n body. a = AST_PROC (Some n) body"
  shows "\<exists>us. (statement us a \<or> meta_line us a) \<and> spelled_line us (line_bytes a)"
proof -
  have at: "bytes_of ''@data '' = 64 # bytes_of ''data'' @ [32]" "bytes_of ''@cfun '' = 64 # bytes_of ''cfun'' @ [32]"
    "is_id_char (byte_of_char (hd ''data''))" "is_id_char (byte_of_char (hd ''cfun''))"
    by (simp_all add: bytes_of_def byte_of_char_def is_id_char_def char_defs)
  note data_at = spelled_at [OF keyword_names(3) keyword_types(3) _ at(3)]
    and cfun_at = spelled_at [OF keyword_names(4) keyword_types(4) _ at(4)]
  have const: "\<exists>us. (statement us (AST_DATA (Some b)) \<or> meta_line us (AST_DATA (Some b))) \<and>
      spelled_line us (line_bytes (AST_DATA (Some b)))" if b: "operand_spelled Push_operand b" for b
    using operand_spelled_text [OF b] data_at meta_line.const by (fastforce simp: at(1))
  have str: "\<exists>us. (statement us (AST_DATA (Some (AST_STRING v))) \<or> meta_line us (AST_DATA (Some (AST_STRING v)))) \<and>
      spelled_line us (line_bytes (AST_DATA (Some (AST_STRING v))))" if v: "string_spelled v" for v
  proof -
    from v quoted_start [of v] have "word [tk TOKEN_QUOTA [c_quote], tk TOKEN_STRING (takeWhile (\<lambda>b. b \<noteq> 0) v),
        tk TOKEN_QUOTA [c_quote]] (c_quote # quoted v @ [c_quote])"
      by (intro word.str [OF unescape_quoted]) (auto simp: string_spelled_def)
    moreover have "takeWhile (\<lambda>b. b \<noteq> 0) v = v" using v by (auto simp: string_spelled_def takeWhile_eq_all_conv)
    ultimately have "spelled_line [tk TOKEN_QUOTA [c_quote], tk TOKEN_STRING v, tk TOKEN_QUOTA [c_quote]]
        (operand_bytes (AST_STRING v))" using spelled_last by simp
    from data_at [OF this] meta_line.str [of "bytes_of ''data''" v] show ?thesis by (auto simp: at(1))
  qed
  have cfun: "\<exists>us. (statement us a \<or> meta_line us a) \<and> spelled_line us (line_bytes a)"
    if a: "a = AST_CFUNCTION r args count (Some n)" "line_spelled a" for r args count n
  proof -
    from a have l: "label_name n" "ctype_spelled r" "list_all ctype_spelled args" "count = word_of_nat (length args)" by simp_all
    from ctypes_spelled_text [OF l(3)] obtain as where as: "map (ctype_code \<circ> fst) as = args"
      "spelled_line (map ctype_token as) (concat (map (\<lambda>t. 32 # ctype_text t) args))" by blast
    from ctype_spelled_text [OF l(2)] obtain t where
      t: "ctype_code t = r" "word [ctype_token (t, ctype_text r)] (ctype_text r)" "name_text (ctype_text r)" by blast
    have n: "name_text n" "id_type n = TOKEN_ID" using l(1) by (simp_all add: label_name_def)
    have "separated n (concat (map (\<lambda>t. 32 # ctype_text t) args))"
      using name_hd [OF n(1)] by (cases args) (simp_all add: separated_def is_id_char_def char_defs)
    from spelled_word [OF word.name [OF n(1)] this as(2)] n(2)
    have "spelled_line (tk TOKEN_ID n # map ctype_token as) (n @ concat (map (\<lambda>t. 32 # ctype_text t) args))" by simp
    from cfun_at [OF spelled_word [OF t(2) separated_space [of "ctype_text r"] spelled_space [OF this]]] name_hd [OF t(3)]
    have "spelled_line ([tk TOKEN_AT [64], tk TOKEN_CFUNCTION (bytes_of ''cfun''), ctype_token (t, ctype_text r), tk TOKEN_ID n] @
      map ctype_token as) (line_bytes a)" by (simp add: a(1) at(2))
    moreover have "length args = length as" using as(1) by auto
    ultimately show ?thesis using meta_line.cfunction [of "bytes_of ''cfun''" "(t, ctype_text r)" n as] as(1) t(1) l(4) a(1) by auto
  qed
  have "statement_spelled a \<or> (\<exists>v. a = AST_DATA (Some (AST_STRING v)) \<and> string_spelled v) \<or>
      (\<exists>b. a = AST_DATA (Some b) \<and> operand_spelled Push_operand b) \<or>
      (\<exists>r args count n. a = AST_CFUNCTION r args count (Some n))"
    using assms by (cases a rule: line_spelled.cases) auto
  with const str cfun assms(1) statement_spelled_text show ?thesis by blast
qed

lemma body_spelled_text:
  assumes "list_all statement_spelled body"
  shows "\<exists>bss. proc_text body bss \<and> list_all2 spelled_line bss (map line_bytes body)"
  using assms
proof (induction body)
  case Nil
  then show ?case using proc_text.nil by auto
next
  case (Cons a body)
  then obtain bss where b: "proc_text body bss" "list_all2 spelled_line bss (map line_bytes body)" by auto
  from Cons.prems statement_spelled_text obtain us where u: "statement us a" "spelled_line us (line_bytes a)" by auto
  from proc_text.line [OF u(1) _ b(1), of "[]"] u(2) b(2) show ?case
    by (intro exI [of _ "us # bss"]) (simp add: trailer_def)
qed

lemma file_spelled_text:
  assumes "list_all line_spelled ls"
  shows "\<exists>tss. file_text ls tss \<and> list_all2 spelled_line tss (print_lines ls)"
  using assms
proof (induction ls)
  case Nil
  then show ?case using file_text.nil by (auto simp: print_lines_def)
next
  case (Cons a ls)
  then obtain tss where t: "file_text ls tss" "list_all2 spelled_line tss (print_lines ls)" by auto
  have tr: "trailer []" by (simp add: trailer_def)
  show ?case
  proof (cases "\<exists>n body. a = AST_PROC (Some n) body")
    case True
    then obtain n body where a: "a = AST_PROC (Some n) body" by blast
    with Cons.prems have n: "name_text n" "id_type n = TOKEN_ID" "list_all statement_spelled body" by (simp_all add: label_name_def)
    from body_spelled_text [OF n(3)] obtain bss where
      b: "proc_text body bss" "list_all2 spelled_line bss (map line_bytes body)" by blast
    have "spelled_line [tk TOKEN_PROC (bytes_of ''proc''), tk TOKEN_ID n] (bytes_of ''proc'' @ 32 # n)"
      using spelled_name [OF keyword_names(1) keyword_types(1) spelled_last [OF word.name [OF n(1)]]] n(2) by simp
    moreover have "bytes_of ''proc '' = bytes_of ''proc'' @ [32]" by (simp add: bytes_of_def byte_of_char_def)
    ultimately have p: "spelled_line [tk TOKEN_PROC (bytes_of ''proc''), tk TOKEN_ID n] (bytes_of ''proc '' @ n)" by simp
    have e: "spelled_line [tk TOKEN_ENDP (bytes_of ''endp'')] (bytes_of ''endp'')"
      using spelled_last [OF word.name [OF keyword_names(2)]] keyword_types(2) by simp
    from file_text.proc [OF b(1) tr tr t(1), of n "bytes_of ''proc''" "bytes_of ''endp''"] b(2) p e t(2)
    show ?thesis unfolding print_lines_def by (auto simp: a intro!: exI list_all2_appendI)
  next
    case False
    with Cons.prems line_spelled_text [of a] obtain us where
      u: "statement us a \<or> meta_line us a" "spelled_line us (line_bytes a)" by auto
    have "print_line a = [line_bytes a]" using False by (cases a rule: print_line.cases) auto
    with file_text.line [OF u(1) tr t(1)] u(2) t(2) show ?thesis
      by (intro exI [of _ "us # tss"]) (simp add: print_lines_def)
  qed
qed

lemma print_denotes:
  assumes "list_all line_spelled ls" and "list_all printable_line (print_lines ls)" and "ls \<noteq> []"
  shows "denotes (print_source ls) ls"
proof -
  have "print_line a \<noteq> []" for a by (cases a rule: print_line.cases) auto
  then have "print_lines ls \<noteq> []" using assms(3) by (cases ls) (auto simp: print_lines_def)
  with assms(2) file_spelled_text [OF assms(1)] show ?thesis by (auto simp: denotes_def print_source_def)
qed

subsection \<open>Decimal numbers\<close>

lemma digit_byte: "n < 10 \<Longrightarrow> unat (48 + word_of_nat n :: u8) = 48 + n"
proof -
  assume n: "n < 10"
  have "(48 + word_of_nat n :: u8) = word_of_nat (48 + n)" by simp
  also have "unat \<dots> = 48 + n" using n by (intro unat_of_nat_id) simp
  finally show ?thesis .
qed

lemma digit_byte_props:
  assumes "n < 10"
  shows "c_isdigit (48 + word_of_nat n)" and "digit_val (48 + word_of_nat n) = n"
proof -
  show d: "c_isdigit (48 + word_of_nat n)"
    using digit_byte [OF assms] assms by (simp add: c_isdigit_def word_le_nat_alt)
  show "digit_val (48 + word_of_nat n) = n"
    using digit_byte [OF assms] by (simp add: digit_val_def d)
qed

lemma dec_nat_digits: "dec_nat n \<noteq> [] \<and> (\<forall>d \<in> set (dec_nat n). c_isdigit d)"
proof (induction n rule: dec_nat.induct)
  case (1 n)
  show ?case
  proof (cases "n < 10")
    case True
    then show ?thesis using digit_byte_props(1) by (subst (1 2) dec_nat.simps) simp
  next
    case False
    with 1 show ?thesis using digit_byte_props(1) [of "n mod 10"] by (subst (1 2) dec_nat.simps) auto
  qed
qed

lemma dec_nat_value: "foldl (\<lambda>k c. 10 * k + digit_val c) 0 (dec_nat n) = n"
proof (induction n rule: dec_nat.induct)
  case (1 n)
  show ?case
  proof (cases "n < 10")
    case True
    then show ?thesis using digit_byte_props(2) by (subst dec_nat.simps) simp
  next
    case False
    with 1 show ?thesis using digit_byte_props(2) [of "n mod 10"] by (subst dec_nat.simps) simp
  qed
qed

lemma dec_nat_length: "n < 10 ^ Suc k \<Longrightarrow> length (dec_nat n) \<le> Suc k"
proof (induction k arbitrary: n)
  case 0
  then show ?case by (subst dec_nat.simps) simp
next
  case (Suc k)
  show ?case
  proof (cases "n < 10")
    case False
    with Suc.prems have "n div 10 < 10 ^ Suc k" by simp
    from Suc.IH [OF this] False show ?thesis by (subst dec_nat.simps) simp
  qed (subst dec_nat.simps, simp)
qed

lemma digit_less: "c_isdigit c \<Longrightarrow> digit_val c < 10"
  by (auto simp: digit_val_def c_isdigit_def word_le_nat_alt)

lemma digits_dec_nat: "digits_val 10 (dec_nat n) = n"
proof -
  have "takeWhile (\<lambda>c. digit_val c < 10) (dec_nat n) = dec_nat n"
    using dec_nat_digits [of n] digit_less unfolding takeWhile_eq_all_conv by blast
  then show ?thesis by (simp only: digits_val_def dec_nat_value)
qed

lemma dec_nat_not_minus: "\<not> is_minus (dec_nat n)"
  using dec_nat_digits [of n] by (cases "dec_nat n") (auto simp: is_minus_def c_isdigit_def)

lemma signed_fmt_d: "signed_val 10 (fmt_d i) = i"
proof (cases "i < 0")
  case True
  then show ?thesis by (simp add: signed_val_def fmt_d_def is_minus_def digits_dec_nat)
next
  case False
  then show ?thesis using dec_nat_not_minus [of "nat i"] by (simp add: signed_val_def fmt_d_def digits_dec_nat)
qed

lemma atoi_fmt_d: "- (2 ^ 31) \<le> i \<Longrightarrow> i < 2 ^ 31 \<Longrightarrow> c_atoi (fmt_d i) = Some (word_of_int i)"
  by (simp add: c_atoi_def signed_fmt_d)

lemma fmt_d_bytes: "0 \<notin> set (fmt_d i)" "c_eof \<notin> set (fmt_d i)" "c_newline \<notin> set (fmt_d i)"
proof -
  have "\<not> c_isdigit 0" "\<not> c_isdigit c_eof" "\<not> c_isdigit c_newline" by (simp_all add: char_defs)
  then have "0 \<notin> set (dec_nat n)" "c_eof \<notin> set (dec_nat n)" "c_newline \<notin> set (dec_nat n)" for n
    using dec_nat_digits by blast+
  then show "0 \<notin> set (fmt_d i)" "c_eof \<notin> set (fmt_d i)" "c_newline \<notin> set (fmt_d i)"
    by (simp_all add: fmt_d_def c_eof_def c_newline_def)
qed

lemma fmt_d_length: "- (2 ^ 31) \<le> i \<Longrightarrow> i < 2 ^ 31 \<Longrightarrow> length (fmt_d i) \<le> 11"
proof -
  assume b: "- (2 ^ 31) \<le> i" "i < 2 ^ 31"
  have "length (dec_nat (nat \<bar>i\<bar>)) \<le> Suc 9" using b by (intro dec_nat_length) simp
  then show ?thesis by (simp add: fmt_d_def abs_if split: if_splits)
qed

lemma fmt_d_spelled:
  assumes "- (2 ^ 31) \<le> i" and "i < 2 ^ 31"
  shows "operand_spelled Push_operand (AST_NUMBER (fmt_d i) (word_of_int i))"
proof -
  have "digits_text c_isdigit (dec_nat n)" for n
    using dec_nat_digits [of n] by (simp add: digits_text_def list_all_iff)
  with atoi_fmt_d [OF assms] dec_nat_not_minus [of "nat i"] show ?thesis
    by (cases "i < 0") (auto simp: fmt_d_def is_minus_def int_spelled_def)
qed

end
