(* ===== verification/Source_Properties.thy ===== *)
theory Source_Properties
  imports Grammar_Parser Source_Printer Parser_Progress File_Properties
begin

text \<open>
  The properties of the assembler's front end: the scanner on text files, mnemonics, the language that
  is accepted, printing and parsing, literals, the syntax tree and the diagnostics of a parse, and when the loops over lines end.
\<close>

subsection \<open>Sample sources\<close>

definition halt_source :: bytes where "halt_source = bytes_of ''hlt'' @ [c_newline, c_eof]"

definition stray_source :: bytes where "stray_source = bytes_of ''7'' @ [c_newline, c_eof]"

lemma halt_source_text: "text_source halt_source"
  using lines_text_source [of "[bytes_of ''hlt'']"]
  by (simp add: halt_source_def lines_source_simps printable_line_def bytes_of_def byte_of_char_def char_defs)

lemma halt_lexer: "\<exists>lx. tasm_lexer_init halt_source = Some lx \<and> quiet lx \<and> rest lx = halt_source"
proof -
  from init_lexable [OF halt_source_text] obtain lx where lx: "tasm_lexer_init halt_source = Some lx" "lexable lx"
    "source_code lx = halt_source" "cursor lx = 0" by blast
  then have "prev_char lx = halt_source ! 0" using lx_ok_prev [of lx] by (simp add: lexable_def)
  with lx show ?thesis
    by (simp add: quiet_def rest_def halt_source_def bytes_of_def byte_of_char_def char_defs)
qed

lemma parse_halt:
  "\<exists>ps. parse_source halt_source = Some (AST_FILE [AST_OP OP_HALT (bytes_of ''hlt'') None], ps) \<and> \<not> is_err ps"
proof -
  have "map_option (\<lambda>(a, ps). (a, is_err ps)) (parse_source halt_source) =
      Some (AST_FILE [AST_OP OP_HALT (bytes_of ''hlt'') None], False)" by code_simp
  then show ?thesis by (auto simp: map_option_eq_Some)
qed

subsection \<open>The lexer\<close>

text \<open>C11. On a text file every request for a token returns: the lexer never reads outside the source,
  no token overruns its buffer, the cursor moves on, and \<open>TOKEN_EOF\<close> means the end of the text.\<close>

theorem lexer_returns:
  assumes "lexable lx"
  shows "\<exists>t lx'. tasm_lexer_get_next_token lx = Some (t, lx') \<and> lexable lx' \<and>
    source_code lx' = source_code lx \<and> cursor lx' < length (source_code lx) \<and>
    (if tok_type t = TOKEN_EOF then current_char lx' = c_eof else cursor lx < cursor lx')"
proof -
  from next_token_scans [OF assms] obtain t lx' n where
    t: "tasm_lexer_get_next_token lx = Some (t, lx')" "moved lx n lx'"
      "if tok_type t = TOKEN_EOF then current_char lx' = c_eof else 0 < n" unfolding scans_def by blast
  have l: "lexable lx'" by (rule moved_lexable [OF assms t(2)])
  then have "cursor lx' < length (source_code lx')" unfolding lexable_def lx_ok_def by blast
  with t l show ?thesis by (auto simp: moved_def split: if_splits)
qed

theorem lexer_returns_witness:
  "\<exists>lx t lx'. tasm_lexer_init halt_source = Some lx \<and> tasm_lexer_get_next_token lx = Some (t, lx') \<and> lexable lx'"
proof -
  from halt_lexer obtain lx where "tasm_lexer_init halt_source = Some lx" "lexable lx" by (auto simp: quiet_def)
  with lexer_returns [of lx] show ?thesis by blast
qed

text \<open>The mnemonics: a name is lexed as an instruction exactly when it is the mnemonic of that
  instruction, all in lower or all in upper case.\<close>

theorem mnemonics_exact:
  "id_type v = TOKEN_OP op \<longleftrightarrow>
     (\<exists>l u. (l, u, op) \<in> set (zip inst_strings_lower (zip inst_strings_upper all_optypes)) \<and>
       (v = bytes_of l \<or> v = bytes_of u))"
  using id_type_op by (simp add: mnemonics_def)

subsection \<open>The language\<close>

text \<open>C5. The parser accepts the language: a source that the grammar allows, with any indentation, empty
  lines and comments, is parsed without an error to the tree it denotes.\<close>

theorem source_accepted:
  assumes "denotes src ls"
  shows "\<exists>ps. parse_source src = Some (AST_FILE ls, ps) \<and> \<not> is_err ps"
  by (rule source_parsed [OF assms])

theorem source_accepted_witness:
  "\<exists>ps. parse_source ([9] @ bytes_of ''hlt ; the end'' @ [c_newline, c_eof]) =
      Some (AST_FILE [AST_OP OP_HALT (bytes_of ''hlt'') None], ps) \<and> \<not> is_err ps"
proof -
  let ?l = "9 # bytes_of ''hlt'' @ 32 # 59 # bytes_of '' the end''" and ?op = "tk (TOKEN_OP OP_HALT) (bytes_of ''hlt'')"
  have "name_text (bytes_of ''hlt'')"
    by (simp add: name_text_def bytes_of_def byte_of_char_def is_id_char_def char_defs)
  moreover have "id_type (bytes_of ''hlt'') = TOKEN_OP OP_HALT"
    by (rule id_type_bytes)
      (simp_all add: keyword_table_def inst_strings_lower_def inst_strings_upper_def all_optypes_def)
  ultimately have w: "word [?op] (bytes_of ''hlt'')" using word.name [of "bytes_of ''hlt''"] by simp
  have "spelled_line ([?op] @ [comment_token]) ([9] @ bytes_of ''hlt'' @ [32] @ 59 # bytes_of '' the end'')"
    by (rule spelled_line.word [OF _ w _ spelled_line.comment])
      (simp_all add: blanks_def separated_def bytes_of_def byte_of_char_def is_id_char_def char_defs)
  moreover have "file_text [AST_OP OP_HALT (bytes_of ''hlt'') None] [[?op] @ [comment_token]]"
    by (rule file_text.line [OF disjI1 [OF statement.plain] _ file_text.nil]) (simp_all add: operand_table_def trailer_def)
  moreover have "printable_line ?l" by (simp add: printable_line_def bytes_of_def byte_of_char_def char_defs)
  ultimately have "denotes (lines_source [?l]) [AST_OP OP_HALT (bytes_of ''hlt'') None]"
    unfolding denotes_def by (intro exI [of _ "[?l]"] exI [of _ "[[?op] @ [comment_token]]"]) simp
  from source_accepted [OF this] show ?thesis
    by (simp add: lines_source_def bytes_of_def byte_of_char_def)
qed

text \<open>C17. Printing and parsing: a tree whose texts can be spelled, printed line by line, is parsed back to
  itself without an error.\<close>

theorem source_roundtrip:
  assumes "list_all line_spelled ls" and "list_all printable_line (print_lines ls)" and "ls \<noteq> []"
  shows "\<exists>ps. parse_source (print_source ls) = Some (AST_FILE ls, ps) \<and> \<not> is_err ps"
  by (rule source_parsed [OF print_denotes [OF assms]])

definition print_demo :: "tasm_ast list" where
  "print_demo =
    [AST_DATA (Some (AST_STRING [104, 105, 10])),
     AST_LABEL_DECL (bytes_of ''a''),
     AST_OP OP_PUSH (bytes_of ''push'') (Some (AST_CHAR (Some [120]))),
     AST_OP OP_JMP (bytes_of ''JMP'') (Some (AST_LABEL_CALL (bytes_of ''a''))),
     AST_PROC (Some (bytes_of ''p'')) [AST_OP OP_RET (bytes_of ''ret'') None]]"

lemma print_demo_ok: "list_all line_spelled print_demo" "list_all printable_line (print_lines print_demo)"
proof -
  have k: "id_type (bytes_of ''push'') = TOKEN_OP OP_PUSH" "id_type (bytes_of ''JMP'') = TOKEN_OP OP_JMP"
    "id_type (bytes_of ''ret'') = TOKEN_OP OP_RET"
    by (rule id_type_bytes;
      simp add: keyword_table_def inst_strings_lower_def inst_strings_upper_def all_optypes_def)+
  have i: "id_type (bytes_of ''a'') = TOKEN_ID" "id_type (bytes_of ''p'') = TOKEN_ID" by code_simp+
  have n: "name_text (bytes_of ''a'')" "name_text (bytes_of ''p'')" "name_text (bytes_of ''push'')"
    "name_text (bytes_of ''JMP'')" "name_text (bytes_of ''ret'')"
    by (simp_all add: name_text_def bytes_of_def byte_of_char_def is_id_char_def char_defs)
  show "list_all line_spelled print_demo"
    using k i n by (simp add: print_demo_def label_name_def string_spelled_def operand_table_def char_defs)
  show "list_all printable_line (print_lines print_demo)"
    by (simp add: print_demo_def print_lines_def printable_line_def quoted_def bytes_of_def byte_of_char_def char_defs)
qed

theorem source_roundtrip_witness:
  "\<exists>ps. parse_source (print_source print_demo) = Some (AST_FILE print_demo, ps) \<and> \<not> is_err ps"
  by (rule source_roundtrip [OF print_demo_ok]) (simp add: print_demo_def)

subsection \<open>Literals\<close>

text \<open>C18. Integer literals are read back as printed: the source of one \<open>push\<close> of a printed 32 bit
  integer is parsed, without an error, to the instruction with that integer.\<close>

theorem decimal_roundtrip:
  assumes "- (2 ^ 31) \<le> i" and "i < 2 ^ 31"
  shows "\<exists>ps. parse_source (bytes_of ''push '' @ fmt_d i @ [c_newline, c_eof]) =
      Some (AST_FILE [AST_OP OP_PUSH (bytes_of ''push'') (Some (AST_NUMBER (fmt_d i) (word_of_int i)))], ps) \<and>
    \<not> is_err ps"
proof -
  let ?ls = "[AST_OP OP_PUSH (bytes_of ''push'') (Some (AST_NUMBER (fmt_d i) (word_of_int i)))]"
  have "id_type (bytes_of ''push'') = TOKEN_OP OP_PUSH"
    by (rule id_type_bytes)
      (simp_all add: keyword_table_def inst_strings_lower_def inst_strings_upper_def all_optypes_def)
  then have "list_all line_spelled ?ls"
    using fmt_d_spelled [OF assms]
    by (simp add: operand_table_def name_text_def bytes_of_def byte_of_char_def is_id_char_def char_defs
        del: operand_spelled.simps)
  moreover have "list_all printable_line (print_lines ?ls)"
    using fmt_d_length [OF assms] fmt_d_bytes [of i]
    by (simp add: print_lines_def printable_line_def bytes_of_def byte_of_char_def char_defs)
  ultimately show ?thesis
    using source_parsed [OF print_denotes, of ?ls]
    by (simp add: print_source_def print_lines_def lines_source_def bytes_of_def byte_of_char_def)
qed

theorem decimal_roundtrip_witness:
  "\<exists>ps. parse_source (bytes_of ''push '' @ fmt_d (- 5) @ [c_newline, c_eof]) =
      Some (AST_FILE [AST_OP OP_PUSH (bytes_of ''push'') (Some (AST_NUMBER (fmt_d (- 5)) (word_of_int (- 5))))], ps) \<and>
    \<not> is_err ps"
  by (rule decimal_roundtrip) simp_all

text \<open>A hexadecimal literal is stored byte by byte in the order written: in memory its bytes are those of
  its value, the most significant first. As an operand, on a little-endian machine, it is therefore
  another number.\<close>

lemma bit_le_byte: "k < 4 \<Longrightarrow> j < 8 \<Longrightarrow> bit (le_bytes 4 (unat (w :: u32)) ! k) j \<longleftrightarrow> bit w (8 * k + j)"
proof -
  assume k: "k < 4" "j < 8"
  have nth: "k < m \<Longrightarrow> le_bytes m n ! k = word_of_nat (n div 256 ^ k)" for m n k
  proof (induction m arbitrary: n k)
    case (Suc m)
    then show ?case by (cases k) (simp_all add: div_mult2_eq)
  qed simp
  have "unat w div 256 ^ k = drop_bit (8 * k) (unat w)"
    by (simp add: drop_bit_eq_div power_mult)
  with nth [OF k(1)] k(2) show ?thesis
    by (simp add: bit_simps add.commute)
qed

lemma swap_endian_rev: "le_bytes 4 (unat (swap_endian_uint32 w)) = rev (le_bytes 4 (unat w))"
proof (rule nth_equalityI)
  fix k :: nat
  assume "k < length (le_bytes 4 (unat (swap_endian_uint32 w)))"
  then have k: "k < 4" by simp
  show "le_bytes 4 (unat (swap_endian_uint32 w)) ! k = rev (le_bytes 4 (unat w)) ! k"
  proof (rule bit_word_eqI)
    fix j :: nat
    assume "j < LENGTH(8)"
    then have j: "j < 8" by simp
    have "(8 * k + j) div 8 = k" "(8 * k + j) mod 8 = j" "8 * k + j < 32" using k j by simp_all
    moreover have "rev (le_bytes 4 (unat w)) ! k = le_bytes 4 (unat w) ! (3 - k)" using k by (simp add: rev_nth)
    ultimately show "bit (le_bytes 4 (unat (swap_endian_uint32 w)) ! k) j = bit (rev (le_bytes 4 (unat w)) ! k) j"
      using k j bit_le_byte [of k j "swap_endian_uint32 w"] bit_le_byte [of "3 - k" j w]
        bit_swap_endian [of "8 * k + j" w] by simp
  qed
qed simp

text \<open>C38. Hexadecimal literals are byte strings: the operand in memory holds the bytes of the literal's
  value with the most significant one first.\<close>

theorem hex_literal_bytes:
  assumes "\<forall>c \<in> set s. c_isxdigit c" and "digits_val 16 s < 2 ^ 32"
  shows "le_bytes 4 (unat (radix_value s 16)) = rev (le_bytes 4 (digits_val 16 s))"
proof -
  have "\<not> is_minus s" using assms(1) by (cases s) (auto simp: is_minus_def char_defs)
  then have "c_strtoll s 16 = int (digits_val 16 s)" using assms(2) by (simp add: c_strtoll_def signed_val_def)
  then have "radix_value s 16 = swap_endian_uint32 (word_of_nat (digits_val 16 s))" by (simp add: radix_value_def)
  moreover have "unat (word_of_nat (digits_val 16 s) :: u32) = digits_val 16 s"
    using assms(2) by (intro unat_of_nat_id) simp
  ultimately show ?thesis by (simp add: swap_endian_rev)
qed

theorem hex_literal_bytes_witness: "le_bytes 4 (unat (radix_value [49] 16)) = rev (le_bytes 4 1)"
proof -
  have v: "digits_val 16 [49] = 1" by (simp add: digits_val_def digit_val_def c_isdigit_def)
  have "\<forall>c \<in> set [49]. c_isxdigit c" by (simp add: char_defs)
  from hex_literal_bytes [OF this] show ?thesis by (simp only: v) simp
qed

subsection \<open>The parser\<close>

lemma parse_source_init:
  assumes "parse_source src = Some (ast, ps)"
  obtains ps0 where "tasm_parse_file ps0 = Some (ast, ps)" "tokens_ok ps0" "reported ps0" "\<not> is_err ps0"
  using assms init_parser by (auto simp: parse_source_def)

lemma parsed_lines:
  assumes "parse_source src = Some (ast, ps)" and "\<not> is_err ps"
  shows "\<exists>ls. ast = AST_FILE ls \<and> list_all wf_line ls \<and>
    list_all (\<lambda>x. operands_ok (snd x) \<and> value_fits (snd x)) (flat_lines ls)"
proof -
  obtain ps0 where "tasm_parse_file ps0 = Some (ast, ps)" "tokens_ok ps0" using assms(1) by (rule parse_source_init)
  from file_good [OF this assms(2)] obtain ls where "ast = AST_FILE ls" "list_all good_file_line ls" by blast
  then show ?thesis by (auto simp: good_file_line_def list_all_iff flat_lines_def)
qed



text \<open>C30. No silent failure, no false alarm: the error flag of a parse is set exactly when an error was
  reported.\<close>

theorem parse_errors_reported:
  assumes "parse_source src = Some (ast, ps)"
  shows "is_err ps \<longleftrightarrow> (\<exists>d \<in> set (diags ps). is_error d)"
proof -
  obtain ps0 where "tasm_parse_file ps0 = Some (ast, ps)" "reported ps0" using assms by (rule parse_source_init)
  from reports.file_R [OF this(1)] this(2) show ?thesis by (simp add: reported_def)
qed

theorem parse_errors_reported_witness:
  "\<exists>ast ps. parse_source stray_source = Some (ast, ps) \<and> (\<exists>d \<in> set (diags ps). is_error d)"
proof -
  have "map_option (\<lambda>(a, ps). is_err ps) (parse_source stray_source) = Some True" by code_simp
  then obtain ast ps where "parse_source stray_source = Some (ast, ps)" "is_err ps"
    by (auto simp: map_option_eq_Some)
  with parse_errors_reported show ?thesis by blast
qed

text \<open>C29. When the loops over lines end: on a text file the loop at file level returns exactly when no
  line that it comes to starts with a minus or the word \<open>data\<close> and every line function it calls
  returns; inside a procedure only the minus stops it.\<close>

theorem line_loops_return:
  assumes "lexable (lexer ps)"
  shows "((parse_file_lines ps \<noteq> None) = (\<forall>ps'. file_reach ps ps' \<longrightarrow> tok ps' = TOKEN_EOF \<or>
      \<not> (tok ps' = TOKEN_MINUS \<or> tok ps' = TOKEN_DATA) \<and> tasm_parse_line ps' \<noteq> None)) \<and>
    ((parse_proc_lines ps \<noteq> None) = (\<forall>ps'. proc_reach ps ps' \<longrightarrow> tok ps' = TOKEN_ENDP \<or> tok ps' = TOKEN_EOF \<or>
      tok ps' \<noteq> TOKEN_MINUS \<and> tasm_parse_proc_line ps' \<noteq> None))"
  using file_loop.returns_iff [OF assms] proc_loop.returns_iff [OF assms]
  by (simp_all add: file_loop.fine_def proc_loop.fine_def disj_assoc)

theorem line_loops_return_witness:
  "\<exists>ps. lexable (lexer ps) \<and> tok ps = TOKEN_MINUS \<and> parse_file_lines ps = None"
proof -
  obtain lx where lx: "lexable lx" using halt_lexer by (auto simp: quiet_def)
  define ps where "ps = \<lparr>current_token = tasm_token_create TOKEN_MINUS (Some [45]), prev_token = eof_token,
    next_token = eof_token, lexer = lx, is_err = False, proc_return_warning = True, global_hlt_warning = True,
    diags = []\<rparr>"
  have ps: "lexable (lexer ps)" "tok ps = TOKEN_MINUS" by (simp_all add: ps_def lx tok_def)
  with line_loops_return [OF ps(1)] file_reach.here [of ps] have "parse_file_lines ps = None" by force
  with ps show ?thesis by blast
qed

end
