(* ===== verification/Tvm_Main.thy ===== *)
theory Tvm_Main
  imports Tvm_Loader Tvm_Run Cli
begin

text \<open>
  The virtual machine as a program, \<open>src/tvm.c\<close>: the command line, loading of the program file and of
  its first native library, the run, and the release of what was allocated. The file system, the C
  allocator, the dynamic linker and libffi are parameters. The result is the exit status with
  everything that went to the standard output, or that the run has not ended within its fuel.

  What the native interface allocates in its arena is not part of the modelled memory, the arena's
  first buffer is.
\<close>

datatype ended = Exited int bytes | Unfinished

definition tci_arena_capacity :: nat where "tci_arena_capacity = 4096"

definition CLR_RED :: bytes where "CLR_RED = CLR ''0;31''"

definition cli_tvm_usage_text :: bytes where
  "cli_tvm_usage_text = CLR_RED @ bytes_of ''Invalid usage!'' @ CLR_END @
     bytes_of '' can not found input file.'' @ [10] @ bytes_of ''    tvm <input.bin>'' @ [10]"

text \<open>The native library of the program: the first module is loaded, others are ignored.\<close>

definition load_natives ::
  "ffi_env \<Rightarrow> tci_t \<Rightarrow> machine \<Rightarrow> (int \<times> bytes + tci_t \<times> machine) option" where
  "load_natives ff tc vm =
     (if module_count (metadata (program vm)) = 0 then Some (Inr (tc, vm))
      else do {
        let name = mod_name (modules (metadata (program vm)) 0);
        let out1 = out vm @ bytes_of ''xx:'' @ name @ [10];
        loaded \<leftarrow> tci_load_module ff tc name;
        case loaded of
          Inl n \<Rightarrow> Some (Inl (n, out1))
        | Inr (tc1, msg) \<Rightarrow> do {
            tc2 \<leftarrow> tci_metaprogram_to_ffi ff tc1 (program vm);
            Some (Inr (tc2, vm\<lparr>out := out1 @ msg\<rparr>)) } })"

text \<open>\<open>tvm_destroy\<close> and \<open>tci_destroy\<close>: the global variables are part of the machine here, what is
  released are the arenas.\<close>

definition tvm_destroy :: "memory \<Rightarrow> arena_t \<Rightarrow> memory option" where
  "tvm_destroy m ar = (if ar = [] then Some m else arena_destroy m ar)"

definition tci_destroy :: "memory \<Rightarrow> arena_t \<Rightarrow> memory option" where
  "tci_destroy m ar = arena_destroy m ar"

definition tvm_finish ::
  "ffi_env \<Rightarrow> tci_t \<Rightarrow> arena_t \<Rightarrow> arena_t \<Rightarrow> machine \<Rightarrow> ended option" where
  "tvm_finish ff tc program_arena ffi_arena vm =
     (case tci_unload_all ff tc of
        Inl n \<Rightarrow> Some (Exited n (out vm))
      | Inr _ \<Rightarrow> do {
          m1 \<leftarrow> tvm_destroy (mem vm) program_arena;
          m2 \<leftarrow> tci_destroy m1 ffi_arena;
          Some (Exited 0 (out vm)) })"

text \<open>An exception during the run ends the process with status 1.\<close>

definition run_and_finish ::
  "nat \<Rightarrow> vm_env \<Rightarrow> arena_t \<Rightarrow> arena_t \<Rightarrow> machine \<Rightarrow> ended option" where
  "run_and_finish n env program_arena ffi_arena vm = do {
     r \<leftarrow> tvm_run n env vm;
     case r of
       Raised e vm1 \<Rightarrow> Some (Exited 1 (out vm1))
     | Running vm1 \<Rightarrow> Some Unfinished
     | Halted vm1 \<Rightarrow> tvm_finish (ffi env) (tci env) program_arena ffi_arena vm1 }"

definition tvm_main ::
  "nat \<Rightarrow> policy \<Rightarrow> junk \<Rightarrow> ffi_env \<Rightarrow> (bytes \<Rightarrow> bytes option) \<Rightarrow> memory \<Rightarrow> bytes list \<Rightarrow> ended option" where
  "tvm_main n al jk ff fs m argv = do {
     (valid, args) \<leftarrow> cli_tvm_parse_command_line no_args argv;
     if \<not> valid then Some (Exited 1 (if cli_tvm_usage (length argv) then [] else cli_tvm_usage_text))
     else do {
       fname \<leftarrow> file_name args;
       let (ffi_arena, m1) = arena_init al jk m tci_arena_capacity;
       let (program_arena, m2) = arena_init al jk m1 program_arena_capacity;
       case fs fname of
         None \<Rightarrow> Some (Exited 1 [])
       | Some content \<Rightarrow> do {
           let env = \<lparr>policy_of = al, junk_of = jk, ffi = ff, tci = tci_init\<rparr>;
           (vm, program_arena1) \<leftarrow> tvm_load_program_from_file env content program_arena (tvm_init m2);
           natives \<leftarrow> load_natives ff tci_init vm;
           case natives of
             Inl (k, printed) \<Rightarrow> Some (Exited k printed)
           | Inr (tc, vm1) \<Rightarrow>
               run_and_finish n (env\<lparr>tci := tc\<rparr>) program_arena1 ffi_arena vm1 } } }"

subsection \<open>The end of a process\<close>

lemma load_natives_none: "module_count (metadata (program vm)) = 0 \<Longrightarrow> load_natives ff tc vm = Some (Inr (tc, vm))"
  by (simp add: load_natives_def)

text \<open>The two ways in which the loading of the libraries is done.\<close>

lemma loaded_natives:
  assumes "load_natives ff tc0 vm = Some (Inr (tc, vm1))"
  obtains "module_count (metadata (program vm)) = 0" "tc = tc0" "vm1 = vm"
  | tc1 msg where "module_count (metadata (program vm)) \<noteq> 0"
      "tci_load_module ff tc0 (mod_name (modules (metadata (program vm)) 0)) = Some (Inr (tc1, msg))"
      "tci_metaprogram_to_ffi ff tc1 (program vm) = Some tc"
      "vm1 = vm\<lparr>out := out vm @ bytes_of ''xx:'' @ mod_name (modules (metadata (program vm)) 0) @ [10] @ msg\<rparr>"
proof (cases "module_count (metadata (program vm)) = 0")
  case True
  with assms have "tc = tc0" "vm1 = vm" by (simp_all add: load_natives_def)
  with True show thesis by (rule that(1))
next
  case False
  let ?name = "mod_name (modules (metadata (program vm)) 0)"
  from assms False obtain z where z: "tci_load_module ff tc0 ?name = Some z" by (auto simp: load_natives_def Let_def)
  note that2 = that(2) [OF False]
  show thesis by (cases z; use assms z False that2 in \<open>auto simp: load_natives_def Let_def\<close>)
qed

text \<open>What the loop did, and what a process that has ended has printed.\<close>

definition halted_message :: bytes where
  "halted_message = bytes_of ''Program halted '' @ CLR_GREEN @ bytes_of ''succesfully...'' @ [10] @ CLR_END"

lemma tvm_run_halted:
  assumes "tvm_run n env vm = Some (Halted vm')"
  obtains vm1 where "tvm_run_loop n env vm = Some (Halted vm1)" "out vm' = out vm1 @ halted_message"
proof -
  from assms obtain r where r: "tvm_run_loop n env vm = Some r" by (auto simp: tvm_run_def)
  show thesis
    by (cases r; use assms r that in \<open>auto simp: tvm_run_def halted_message_def\<close>)
qed

lemma tvm_run_raised:
  assumes "tvm_run n env vm = Some (Raised e vm')"
  shows "tvm_run_loop n env vm = Some (Raised e vm')"
proof -
  from assms obtain r where r: "tvm_run_loop n env vm = Some r" by (auto simp: tvm_run_def)
  show ?thesis by (cases r; use assms r in \<open>auto simp: tvm_run_def\<close>)
qed

lemma run_and_finish_cases:
  assumes "run_and_finish n env ar1 ar2 vm = Some (Exited st printed)" and "tci_module_count (tci env) = 0"
  obtains vm' where "tvm_run_loop n env vm = Some (Halted vm')" "st = 0" "printed = out vm' @ halted_message"
  | e vm' where "tvm_run_loop n env vm = Some (Raised e vm')" "st = 1" "printed = out vm'"
proof -
  from assms(1) obtain r where r: "tvm_run n env vm = Some r" by (auto simp: run_and_finish_def)
  show thesis
  proof (cases r)
    case (Halted vm1)
    with assms r have "st = 0" "printed = out vm1"
      by (auto simp: run_and_finish_def tvm_finish_def tci_unload_all_def)
    with tvm_run_halted [OF r [unfolded Halted]] that(1) show thesis by metis
  next
    case (Raised e vm1)
    with assms r tvm_run_raised that(2) show thesis by (simp add: run_and_finish_def)
  next
    case (Running vm1)
    with assms r show thesis by (simp add: run_and_finish_def)
  qed
qed

end
