(* ===== verification/Source_Machine.thy ===== *)
theory Source_Machine
  imports Tasm_Properties Tvm_Run "HOL-Library.Sublist"
begin

text \<open>
  What an assembly program means, without an assembler: an interpreter of the syntax tree. Control
  is the list of the lines that are still to be executed, a return address is such a list too, a jump
  continues behind the declaration of its label and a call with the body of its procedure and what
  follows it. Everything else is the state of the virtual machine without its code, instruction
  pointer and return stack.
\<close>

subsection \<open>The machine without its control\<close>

definition strip :: "machine \<Rightarrow> machine" where
  "strip vm = vm\<lparr>program := (program vm)\<lparr>code := (\<lambda>_. zero_opcode), prog_size := 0\<rparr>,
     ip := 0, rsp := 0, return_stack := (\<lambda>_. 0), tgc_counter := 0\<rparr>"

definition control_ops :: "optype_t list" where
  "control_ops = [OP_JMP, OP_JZ, OP_JNZ, OP_CALL, OP_RET]"

lemma strip_simps [simp]:
  "stack (strip vm) = stack vm" "sp (strip vm) = sp vm" "frame (strip vm) = frame vm"
  "gframe (strip vm) = gframe vm" "halted (strip vm) = halted vm" "frames (strip vm) = frames vm"
  "heap (strip vm) = heap vm" "mem (strip vm) = mem vm" "data_ptr (strip vm) = data_ptr vm"
  "out (strip vm) = out vm" "metadata (program (strip vm)) = metadata (program vm)"
  "const_table (program (strip vm)) = const_table (program vm)"
  "top_obj k (strip vm) = top_obj k vm" "strip (strip vm) = strip vm" "strip (tick vm) = strip vm"
  by (simp_all add: strip_def top_obj_def tick_def)

definition strip_result :: "step_result \<Rightarrow> step_result" where
  "strip_result r = map_option (\<lambda>(e, vm). (e, strip vm)) r"

lemma strip_result_simps [simp]:
  "strip_result None = None" "strip_result (exc e vm) = exc e (strip vm)"
  "strip_result (ok vm) = ok (strip vm)"
  "strip_result (Option.bind x f) = Option.bind x (\<lambda>a. strip_result (f a))"
  "strip_result (if b then r1 else r2) = (if b then strip_result r1 else strip_result r2)"
  "strip_result (case y of None \<Rightarrow> r1 | Some a \<Rightarrow> g a) =
     (case y of None \<Rightarrow> strip_result r1 | Some a \<Rightarrow> strip_result (g a))"
  "strip_result (case z of Inl n \<Rightarrow> h n | Inr a \<Rightarrow> k a) =
     (case z of Inl n \<Rightarrow> strip_result (h n) | Inr a \<Rightarrow> strip_result (k a))"
  "strip_result (case p of (a, b) \<Rightarrow> l a b) = (case p of (a, b) \<Rightarrow> strip_result (l a b))"
  by (auto simp: strip_result_def exc_def ok_def split: bind_splits option.splits sum.splits prod.splits)

lemma top_obj_upd [simp]:
  "top_obj k (vm\<lparr>sp := n\<rparr>) = stack vm (n - k)" "top_obj k (vm\<lparr>mem := m\<rparr>) = top_obj k vm"
  "top_obj k (vm\<lparr>out := os\<rparr>) = top_obj k vm"
  by (simp_all add: top_obj_def)

text \<open>An operation that neither reads nor keeps what is stripped.\<close>

definition control_free :: "(machine \<Rightarrow> step_result) \<Rightarrow> bool" where
  "control_free f \<longleftrightarrow> (\<forall>vm. strip_result (f (strip vm)) = strip_result (f vm))"

lemma strip_upd [simp]:
  "strip (vm\<lparr>ip := i\<rparr>) = strip vm"
  "strip (next_ip vm) = strip vm"
  "strip (set_top k ob vm) = set_top k ob (strip vm)"
  "strip (push_obj ob vm) = push_obj ob (strip vm)"
  "strip (vm\<lparr>sp := n\<rparr>) = strip vm\<lparr>sp := n\<rparr>"
  "strip (vm\<lparr>frames := fs\<rparr>) = strip vm\<lparr>frames := fs\<rparr>"
  "strip (vm\<lparr>gframe := gf\<rparr>) = strip vm\<lparr>gframe := gf\<rparr>"
  "strip (vm\<lparr>halted := h\<rparr>) = strip vm\<lparr>halted := h\<rparr>"
  "strip (vm\<lparr>mem := m\<rparr>) = strip vm\<lparr>mem := m\<rparr>"
  "strip (vm\<lparr>heap := hp\<rparr>) = strip vm\<lparr>heap := hp\<rparr>"
  "strip (vm\<lparr>out := os\<rparr>) = strip vm\<lparr>out := os\<rparr>"
  "strip (vm\<lparr>frame := fr\<rparr>) = strip vm\<lparr>frame := fr\<rparr>"
  "strip (vm\<lparr>rsp := n\<rparr>) = strip vm" "strip (vm\<lparr>return_stack := rs\<rparr>) = strip vm"
  by (simp_all add: strip_def next_ip_def set_top_def push_obj_def top_obj_def)

lemma bin_op_control_free: "control_free (bin_op b f)"
  by (simp add: control_free_def bin_op_def)

lemma un_op_control_free: "control_free (un_op f)"
  by (simp add: control_free_def un_op_def)

lemma div_op_control_free: "control_free (div_op f)"
  using bin_op_control_free by (simp add: control_free_def div_op_def)

lemma heap_set_control_free: "control_free (heap_set off n)"
  by (simp add: control_free_def heap_set_def Let_def cong: if_cong option.case_cong)

lemma native_call_program:
  "metadata p = metadata q \<Longrightarrow> tci_native_call ff tc p = tci_native_call ff tc q"
  by (intro ext) (simp add: tci_native_call_def)

lemma native_control_free: "control_free (op_native env opnd)"
proof -
  have "tci_native_call ff tc (program (strip vm)) = tci_native_call ff tc (program vm)" for ff tc vm
    by (rule native_call_program) simp
  then show ?thesis by (simp add: control_free_def op_native_def Let_def cong: if_cong sum.case_cong)
qed

lemma heap_ops_control_free: "control_free op_hset" "control_free op_hsetof"
  using heap_set_control_free
  by (simp_all add: control_free_def op_hset_def op_hsetof_def Let_def)

lemma mem_ops_control_free: "control_free (op_halloc env)" "control_free op_deref" "control_free (op_derefb opnd)"
  "control_free op_puts" "control_free op_putc" "control_free (op_loadc opnd)" "control_free (op_aloadc opnd)"
  by (simp_all add: control_free_def op_halloc_def op_deref_def op_derefb_def op_puts_def op_putc_def
      op_loadc_def op_aloadc_def const_addr_def Let_def cong: if_cong)

lemma var_ops_control_free: "control_free (op_load opnd)" "control_free (op_store opnd)"
  "control_free (op_gload opnd)" "control_free (op_gstore opnd)"
  by (simp_all add: control_free_def op_load_def op_store_def op_gload_def op_gstore_def)

lemma stack_ops_control_free: "control_free op_nop" "control_free (op_push opnd)" "control_free op_pop"
  "control_free op_dup" "control_free (op_cln opnd)" "control_free (op_swap opnd)" "control_free op_halt"
  by (simp_all add: control_free_def op_nop_def op_push_def op_pop_def op_dup_def op_cln_def op_swap_def
      op_halt_def Let_def)

lemma exec_op_control_free:
  "t \<notin> set control_ops \<Longrightarrow> control_free (\<lambda>vm. exec_op t env opnd vm)"
  by (cases t) (simp_all add: control_ops_def alu2_defs alu1_defs op_div_def op_mod_def bin_op_control_free
      un_op_control_free div_op_control_free native_control_free heap_ops_control_free mem_ops_control_free
      var_ops_control_free stack_ops_control_free)

subsection \<open>The interpreter\<close>

record src_state =
  src_rest :: flat
  src_rets :: "flat list"
  src_vm :: machine

type_synonym src_result = "(exception_t \<times> src_state) option"

text \<open>The lines from the next instruction on, and from the \<open>k\<close>-th instruction on.\<close>

definition to_op :: "flat \<Rightarrow> flat" where
  "to_op fl = dropWhile (\<lambda>x. \<not> is_op (snd x)) fl"

primrec from_op :: "flat \<Rightarrow> nat \<Rightarrow> flat" where
  "from_op [] k = []"
| "from_op (x # fl) k =
     (if is_op (snd x) then (case k of 0 \<Rightarrow> x # fl | Suc j \<Rightarrow> from_op fl j) else from_op fl k)"

text \<open>What follows the declaration of a label, and what begins with a procedure's body.\<close>

definition declares :: "bytes \<Rightarrow> bytes option \<times> tasm_ast \<Rightarrow> bool" where
  "declares name x = (case snd x of AST_LABEL_DECL m \<Rightarrow> full_name (fst x) m = name | _ \<Rightarrow> False)"

definition after_label :: "flat \<Rightarrow> bytes \<Rightarrow> flat" where
  "after_label fl name = tl (dropWhile (\<lambda>x. \<not> declares name x) fl)"

definition is_proc :: "bytes \<Rightarrow> tasm_ast \<Rightarrow> bool" where
  "is_proc name l = (case l of AST_PROC pname body \<Rightarrow> pname = Some name | _ \<Rightarrow> False)"

definition at_proc :: "tasm_ast list \<Rightarrow> bytes \<Rightarrow> flat" where
  "at_proc ls name = flat_lines (dropWhile (\<lambda>l. \<not> is_proc name l) ls)"

definition jump_target :: "tasm_ast list \<Rightarrow> bytes option \<Rightarrow> tasm_ast option \<Rightarrow> flat" where
  "jump_target ls p oprnd = (case oprnd of
     Some (AST_NUMBER text v) \<Rightarrow> from_op (flat_lines ls) (unat v)
   | Some (AST_LABEL_CALL n) \<Rightarrow> after_label (flat_lines ls) (full_name p n)
   | _ \<Rightarrow> [])"

definition call_target :: "tasm_ast list \<Rightarrow> tasm_ast option \<Rightarrow> flat" where
  "call_target ls oprnd = (case oprnd of Some (AST_LABEL_CALL n) \<Rightarrow> at_proc ls n | _ \<Rightarrow> [])"

text \<open>The object that an instruction without a target works on.\<close>

definition literal_type :: "optype_t \<Rightarrow> stack_obj_type_t" where
  "literal_type op = (case map_of number_ops op of None \<Rightarrow> STACK_OBJ_TYPE_NUMBER | Some t \<Rightarrow> t)"

definition literal :: "optype_t \<Rightarrow> tasm_ast option \<Rightarrow> object_t" where
  "literal op oprnd =
     (if op = OP_PUSH \<or> map_of number_ops op \<noteq> None then (case oprnd of
        Some (AST_NUMBER text v) \<Rightarrow> vm_operand (literal_type op) v
      | Some (AST_CHAR (Some text)) \<Rightarrow> vm_operand STACK_OBJ_TYPE_CHARACTER (scast (first_char text))
      | _ \<Rightarrow> zero_object)
      else zero_object)"

definition src_exc :: "exception_t \<Rightarrow> src_state \<Rightarrow> src_result" where "src_exc e s = Some (e, s)"

definition src_ok :: "src_state \<Rightarrow> src_result" where "src_ok s = Some (EXCEPT_OK, s)"

text \<open>A jump behind the last instruction is an exception.\<close>

definition src_goto :: "flat \<Rightarrow> src_state \<Rightarrow> src_result" where
  "src_goto t s =
     (if op_count t = 0 then src_exc EXCEPT_INVALID_INSTRUCTION_ACCESS s else src_ok (s\<lparr>src_rest := t\<rparr>))"

definition src_branch :: "(u32 \<Rightarrow> bool) \<Rightarrow> flat \<Rightarrow> flat \<Rightarrow> src_state \<Rightarrow> src_result" where
  "src_branch test t next_lines s =
     (let vm = src_vm s in
      if sp vm < 1 then src_exc EXCEPT_STACK_UNDERFLOW s
      else if op_count t = 0 then src_exc EXCEPT_INVALID_INSTRUCTION_ACCESS s
      else src_ok (s\<lparr>src_rest := (if test (ui32 (top_obj 1 vm)) then t else next_lines),
                     src_vm := vm\<lparr>sp := sp vm - 1\<rparr>\<rparr>))"

definition src_call :: "flat \<Rightarrow> flat \<Rightarrow> src_state \<Rightarrow> src_result" where
  "src_call t next_lines s =
     (if RETURN_STACK_CAPACITY \<le> length (src_rets s) then src_exc EXCEPT_RETURN_STACK_OVERFLOW s
      else if op_count t = 0 then src_exc EXCEPT_INVALID_INSTRUCTION_ACCESS s
      else do {
        (fr, fs) \<leftarrow> tvm_frame_next (frames (src_vm s)) (frame (src_vm s));
        src_ok (s\<lparr>src_rest := t, src_rets := next_lines # src_rets s,
                  src_vm := (src_vm s)\<lparr>frame := fr, frames := fs\<rparr>\<rparr>) })"

definition src_ret :: "src_state \<Rightarrow> src_result" where
  "src_ret s = (case src_rets s of
     [] \<Rightarrow> src_exc EXCEPT_RETURN_STACK_UNDERFLOW s
   | t # ts \<Rightarrow> do {
       (fr, fs) \<leftarrow> tvm_frame_prev (frames (src_vm s)) (frame (src_vm s));
       src_ok (s\<lparr>src_rest := t, src_rets := ts, src_vm := (src_vm s)\<lparr>frame := fr, frames := fs\<rparr>\<rparr>) })"

text \<open>Any other instruction acts on the state of the machine, and goes on with the next line.\<close>

definition src_other :: "optype_t \<Rightarrow> vm_env \<Rightarrow> object_t \<Rightarrow> flat \<Rightarrow> src_state \<Rightarrow> src_result" where
  "src_other op env ob next_lines s =
     map_option (\<lambda>(e, vm). (e, if e = EXCEPT_OK then s\<lparr>src_rest := next_lines, src_vm := vm\<rparr> else s))
       (strip_result (exec_op op env ob (src_vm s)))"

definition src_op :: "vm_env \<Rightarrow> tasm_ast list \<Rightarrow> bytes option \<Rightarrow> optype_t \<Rightarrow> tasm_ast option \<Rightarrow> flat \<Rightarrow>
    src_state \<Rightarrow> src_result" where
  "src_op env ls p op oprnd next_lines s =
     (if op = OP_JMP then src_goto (jump_target ls p oprnd) s
      else if op = OP_JZ then src_branch (\<lambda>v. v = 0) (jump_target ls p oprnd) next_lines s
      else if op = OP_JNZ then src_branch (\<lambda>v. v \<noteq> 0) (jump_target ls p oprnd) next_lines s
      else if op = OP_CALL then src_call (call_target ls oprnd) next_lines s
      else if op = OP_RET then src_ret s
      else src_other op env (literal op oprnd) next_lines s)"

definition src_step :: "vm_env \<Rightarrow> tasm_ast list \<Rightarrow> src_state \<Rightarrow> src_result" where
  "src_step env ls s = (case to_op (src_rest s) of
     (p, AST_OP op iname oprnd) # next_lines \<Rightarrow> src_op env ls p op oprnd next_lines s
   | _ \<Rightarrow> None)"

text \<open>A run ends when the program has halted, or when there is no instruction left.\<close>

definition src_running :: "src_state \<Rightarrow> bool" where
  "src_running s \<longleftrightarrow> \<not> halted (src_vm s) \<and> op_count (src_rest s) \<noteq> 0"

datatype src_outcome = Src_Halted src_state | Src_Raised exception_t src_state | Src_Running src_state

primrec src_run :: "nat \<Rightarrow> vm_env \<Rightarrow> tasm_ast list \<Rightarrow> src_state \<Rightarrow> src_outcome option" where
  "src_run 0 env ls s = Some (if src_running s then Src_Running s else Src_Halted s)"
| "src_run (Suc n) env ls s =
     (if src_running s
      then (case src_step env ls s of
              None \<Rightarrow> None
            | Some (e, s1) \<Rightarrow> if e \<noteq> EXCEPT_OK then Some (Src_Raised e s1) else src_run n env ls s1)
      else Some (Src_Halted s))"

definition src_init :: "tasm_ast list \<Rightarrow> machine \<Rightarrow> src_state" where
  "src_init ls vm = \<lparr>src_rest = flat_lines ls, src_rets = [], src_vm = strip vm\<rparr>"

end
