(* ===== verification/Source_Simulation.thy ===== *)
theory Source_Simulation
  imports Source_Machine
begin

text \<open>
  The virtual machine with the assembled program in its code array simulates the interpreter of
  \<open>Source_Machine\<close> step by step: the instruction pointer is the number of instructions before the
  lines that are left, and so is every return address.
\<close>

subsection \<open>Addresses of lists of lines\<close>

definition addr :: "flat \<Rightarrow> flat \<Rightarrow> nat" where
  "addr fl t = op_count fl - op_count t"

lemma suffix_op_count: "suffix t fl \<Longrightarrow> op_count t \<le> op_count fl"
  by (auto simp: suffix_def)

lemma to_op_suffix: "suffix (to_op t) t"
  by (simp add: to_op_def suffix_dropWhile)

lemma op_count_to_op: "op_count (to_op t) = op_count t"
  by (induction t) (auto simp: to_op_def)

lemma to_op_cases:
  assumes "op_count t \<noteq> 0"
  obtains p op iname oprnd next_lines where "to_op t = (p, AST_OP op iname oprnd) # next_lines"
proof (cases "to_op t")
  case Nil
  with assms op_count_to_op [of t] show thesis by simp
next
  case (Cons x xs)
  then have "is_op (snd x)" unfolding to_op_def by (metis dropWhile_eq_Cons_conv)
  then obtain op iname oprnd where "snd x = AST_OP op iname oprnd" by (cases "snd x") auto
  with Cons that show thesis by (cases x) auto
qed

lemma from_op_suffix: "suffix (from_op fl k) fl"
  by (induction fl arbitrary: k) (auto intro: suffix_ConsI split: nat.splits)

lemma op_count_from_op: "op_count (from_op fl k) = op_count fl - k"
  by (induction fl arbitrary: k) (auto split: nat.splits)

lemma after_label_split:
  assumes "\<exists>x \<in> set fl. declares name x"
  obtains pre x where "fl = pre @ x # after_label fl name" "declares name x"
proof -
  have "dropWhile (\<lambda>x. \<not> declares name x) fl \<noteq> []" using assms by (simp add: dropWhile_eq_Nil_conv)
  then obtain x xs where d: "dropWhile (\<lambda>x. \<not> declares name x) fl = x # xs" by (cases "dropWhile (\<lambda>x. \<not> declares name x) fl") auto
  then have "declares name x" by (metis dropWhile_eq_Cons_conv)
  moreover have "fl = takeWhile (\<lambda>x. \<not> declares name x) fl @ x # after_label fl name"
    using d takeWhile_dropWhile_id [of "\<lambda>x. \<not> declares name x" fl] by (simp add: after_label_def)
  ultimately show thesis by (rule that [rotated])
qed

lemma label_entries_declared:
  "name \<in> fst ` set (label_entries k fl) \<Longrightarrow> \<exists>x \<in> set fl. declares name x"
  by (induction fl arbitrary: k) (force simp: label_entries_def label_entry_def declares_def split: tasm_ast.splits)+

lemma label_address:
  assumes "distinct (map fst (label_entries 0 fl))" and "sym_find (label_entries 0 fl) name = Some a"
  shows "a = addr fl (after_label fl name)" and "suffix (after_label fl name) fl"
proof -
  have "name \<in> fst ` set (label_entries 0 fl)" using sym_find_in_set [OF assms(2)] by force
  then obtain pre x where fl: "fl = pre @ x # after_label fl name" and "declares name x"
    using label_entries_declared after_label_split by blast
  then obtain p m where x: "x = (p, AST_LABEL_DECL m)" "full_name p m = name"
    by (cases x; cases "snd x") (auto simp: declares_def)
  have "length pre < length fl" "fl ! length pre = (p, AST_LABEL_DECL m)" "take (length pre) fl = pre"
    using arg_cong [OF fl, of length] arg_cong [OF fl, of "\<lambda>l. l ! length pre"] arg_cong [OF fl, of "take (length pre)"] x
    by simp_all
  with label_entry_nth [of "length pre" fl p m] x(2) have "(name, op_count pre) \<in> set (label_entries 0 fl)" by simp
  from sym_find_distinct [OF assms(1) this] assms(2) have "a = op_count pre" by simp
  moreover have "op_count fl = op_count pre + op_count (after_label fl name)"
    using arg_cong [OF fl, of op_count] x(1) by simp
  ultimately show "a = addr fl (after_label fl name)" by (simp add: addr_def)
  show "suffix (after_label fl name) fl" using fl by (metis append_Cons append_Nil append_assoc suffix_def)
qed

lemma proc_entries_declared:
  "name \<in> fst ` set (proc_entries k ls) \<Longrightarrow> \<exists>l \<in> set ls. is_proc name l"
proof (induction ls arbitrary: k)
  case (Cons l ls)
  show ?case
  proof (cases "name \<in> fst ` set (proc_entry k l)")
    case True
    then have "is_proc name l" by (cases l) (auto simp: proc_entry_def is_proc_def split: option.splits)
    then show ?thesis by simp
  next
    case False
    with Cons.prems have "name \<in> fst ` set (proc_entries (k + op_count (flat_line l)) ls)"
      by (auto simp: proc_entries_def)
    from Cons.IH [OF this] show ?thesis by simp
  qed
qed (simp add: proc_entries_def)

lemma proc_address:
  assumes "distinct (map fst (proc_entries 0 ls))" and "sym_find (proc_entries 0 ls) name = Some a"
  shows "a = addr (flat_lines ls) (at_proc ls name)" and "suffix (at_proc ls name) (flat_lines ls)"
proof -
  let ?P = "\<lambda>l. \<not> is_proc name l"
  have "name \<in> fst ` set (proc_entries 0 ls)" using sym_find_in_set [OF assms(2)] by force
  then have "dropWhile ?P ls \<noteq> []" using proc_entries_declared by (fastforce simp: dropWhile_eq_Nil_conv)
  then obtain l post where d: "dropWhile ?P ls = l # post" by (cases "dropWhile ?P ls") auto
  then have "is_proc name l" by (metis dropWhile_eq_Cons_conv)
  then obtain body where l: "l = AST_PROC (Some name) body" by (cases l) (auto simp: is_proc_def)
  define pre where "pre = takeWhile ?P ls"
  have ls: "ls = pre @ l # post" using d takeWhile_dropWhile_id [of ?P ls] by (simp add: pre_def)
  have fl: "flat_lines ls = flat_lines pre @ at_proc ls name"
    using ls d by (simp add: at_proc_def flat_lines_def)
  have "(name, op_count (flat_lines pre)) \<in> set (proc_entries 0 ls)"
    using proc_entry_nth [of "length pre" ls name body] by (simp add: ls l)
  from sym_find_distinct [OF assms(1) this] assms(2) have "a = op_count (flat_lines pre)" by simp
  then show "a = addr (flat_lines ls) (at_proc ls name)" by (simp add: addr_def fl)
  show "suffix (at_proc ls name) (flat_lines ls)" using fl by (auto simp: suffix_def)
qed

subsection \<open>The assembled program\<close>

definition assembled_as :: "tasm_ast list \<Rightarrow> opcode_t list \<Rightarrow> bool" where
  "assembled_as ls cs \<longleftrightarrow> \<not> dup_names ls \<and>
     assemble (label_entries 0 (flat_lines ls)) (proc_entries 0 ls) (flat_lines ls) = Some cs \<and>
     length cs \<le> TVM_PROGRAM_CAPACITY"

definition holds_code :: "opcode_t list \<Rightarrow> machine \<Rightarrow> bool" where
  "holds_code cs vm \<longleftrightarrow> prog_size (program vm) = length cs \<and> (\<forall>i < length cs. code (program vm) i = cs ! i)"

lemma assembled_length: "assembled_as ls cs \<Longrightarrow> length cs = op_count (flat_lines ls)"
  by (auto simp: assembled_as_def dest: assemble_length)

text \<open>The instruction at the address of a list of lines.\<close>

lemma assembled_at:
  assumes "assembled_as ls cs" and "suffix t (flat_lines ls)"
    and "to_op t = (p, AST_OP op iname oprnd) # next_lines"
  shows "addr (flat_lines ls) t < length cs"
    and "assemble_op (label_entries 0 (flat_lines ls)) (proc_entries 0 ls) p op oprnd =
      Some (cs ! addr (flat_lines ls) t)"
    and "suffix next_lines (flat_lines ls)" and "addr (flat_lines ls) next_lines = addr (flat_lines ls) t + 1"
proof -
  let ?fl = "flat_lines ls"
  have "suffix (to_op t) ?fl" using to_op_suffix assms(2) by (rule suffix_order.trans)
  then obtain pre where fl: "?fl = pre @ (p, AST_OP op iname oprnd) # next_lines"
    unfolding assms(3) by (auto simp: suffix_def)
  have c: "op_count t = Suc (op_count next_lines)" using op_count_to_op [of t] assms(3) by simp
  have "op_count ?fl = op_count pre + Suc (op_count next_lines)" by (simp add: fl)
  with c have a: "addr ?fl t = op_count pre" "addr ?fl next_lines = op_count pre + 1" by (simp_all add: addr_def)
  have cs: "assemble (label_entries 0 ?fl) (proc_entries 0 ls) ?fl = Some cs" using assms(1) by (simp add: assembled_as_def)
  have "length pre < length ?fl" "?fl ! length pre = (p, AST_OP op iname oprnd)" "take (length pre) ?fl = pre"
    by (simp_all add: fl)
  with assemble_nth [OF cs, of "length pre" p op iname oprnd] a
  show "addr ?fl t < length cs" "assemble_op (label_entries 0 ?fl) (proc_entries 0 ls) p op oprnd = Some (cs ! addr ?fl t)"
    by simp_all
  show "addr ?fl next_lines = addr ?fl t + 1" using a by simp
  show "suffix next_lines ?fl" using fl by (metis append_Cons append_Nil append_assoc suffix_def)
qed

text \<open>The operand of a jump or call, as an address in the program, stands for the lines it leads to.\<close>

definition leads_to :: "flat \<Rightarrow> u32 \<Rightarrow> flat \<Rightarrow> bool" where
  "leads_to fl w t \<longleftrightarrow> suffix t fl \<and> (op_count fl \<le> unat w \<longleftrightarrow> op_count t = 0) \<and>
     (op_count t \<noteq> 0 \<longrightarrow> unat w = addr fl t)"

lemma leads_to_addr:
  assumes "suffix t fl" and "op_count fl \<le> TVM_PROGRAM_CAPACITY"
  shows "leads_to fl (word_of_nat (addr fl t)) t"
proof -
  have "unat (word_of_nat (addr fl t) :: u32) = addr fl t"
    using assms(2) by (intro unat_of_nat_id) (simp add: addr_def capacities)
  with suffix_op_count [OF assms(1)] assms(1) show ?thesis by (auto simp: leads_to_def addr_def)
qed

lemma leads_to_from_op: "leads_to fl w (from_op fl (unat w))"
  by (auto simp: leads_to_def from_op_suffix op_count_from_op addr_def)

lemma assembled_small: "assembled_as ls cs \<Longrightarrow> op_count (flat_lines ls) \<le> TVM_PROGRAM_CAPACITY"
  using assembled_length by (fastforce simp: assembled_as_def)

lemma jump_operand:
  assumes "assembled_as ls cs" and "op \<in> set jump_ops"
    and "assemble_op (label_entries 0 (flat_lines ls)) (proc_entries 0 ls) p op oprnd = Some c"
  shows "\<exists>w. c = operand_opcode op STACK_OBJ_TYPE_VM_ADDRESS w \<and> leads_to (flat_lines ls) w (jump_target ls p oprnd)"
proof -
  have op: "op \<noteq> OP_PUSH" using assms(2) by (auto simp: jump_ops_def)
  from assms(2,3) op consider tx v where "oprnd = Some (AST_NUMBER tx v)"
      "c = operand_opcode op STACK_OBJ_TYPE_VM_ADDRESS v"
    | n a where "oprnd = Some (AST_LABEL_CALL n)" "sym_find (label_entries 0 (flat_lines ls)) (full_name p n) = Some a"
      "c = operand_opcode op STACK_OBJ_TYPE_VM_ADDRESS (word_of_nat a)"
    by (auto simp: assemble_op_def split: option.splits tasm_ast.splits)
  then show ?thesis
  proof cases
    case 1
    then show ?thesis by (auto simp: jump_target_def leads_to_from_op)
  next
    case 2
    have "distinct (map fst (label_entries 0 (flat_lines ls)))" using assms(1) by (simp add: assembled_as_def dup_names_def)
    from label_address [OF this 2(2)] leads_to_addr [OF _ assembled_small [OF assms(1)]] 2(1,3)
    show ?thesis by (auto simp: jump_target_def)
  qed
qed

lemma call_operand:
  assumes "assembled_as ls cs"
    and "assemble_op (label_entries 0 (flat_lines ls)) (proc_entries 0 ls) p OP_CALL oprnd = Some c"
  shows "\<exists>w. c = operand_opcode OP_CALL STACK_OBJ_TYPE_VM_ADDRESS w \<and> leads_to (flat_lines ls) w (call_target ls oprnd)"
proof -
  from assms(2) obtain n a where c: "oprnd = Some (AST_LABEL_CALL n)" "sym_find (proc_entries 0 ls) n = Some a"
      "c = operand_opcode OP_CALL STACK_OBJ_TYPE_VM_ADDRESS (word_of_nat a)"
    by (auto simp: assemble_op_def jump_ops_def split: option.splits tasm_ast.splits)
  have "distinct (map fst (proc_entries 0 ls))" using assms(1) by (simp add: assembled_as_def dup_names_def)
  from proc_address [OF this c(2)] leads_to_addr [OF _ assembled_small [OF assms(1)]] c(1,3)
  show ?thesis by (auto simp: call_target_def)
qed

lemma other_operand:
  assumes "op \<notin> set jump_ops" and "op \<noteq> OP_CALL" and "assemble_op L P p op oprnd = Some c"
  shows "op_type c = optype_code op" and "operand c = literal op oprnd"
  using assms by (auto simp: assemble_op_def literal_def literal_type_def operand_opcode_def plain_opcode_def
      vm_operand_def number_ops_def split: if_splits option.splits tasm_ast.splits simp del: optype_code.simps)

subsection \<open>The simulation\<close>

definition simulates :: "flat \<Rightarrow> src_state \<Rightarrow> machine \<Rightarrow> bool" where
  "simulates fl s vm \<longleftrightarrow> src_vm s = strip vm \<and> suffix (src_rest s) fl \<and> (\<forall>t \<in> set (src_rets s). suffix t fl) \<and>
     ip vm = addr fl (src_rest s) \<and> rsp vm = length (src_rets s) \<and>
     (\<forall>i < rsp vm. return_stack vm i = addr fl (rev (src_rets s) ! i))"

definition sim_result :: "flat \<Rightarrow> src_result \<Rightarrow> step_result \<Rightarrow> bool" where
  "sim_result fl = rel_option (\<lambda>(e, s) (e', vm). e = e' \<and> simulates fl s vm)"

lemma sim_result_simps [simp]:
  "sim_result fl None r \<longleftrightarrow> r = None"
  "sim_result fl (src_exc e s) (exc e vm) \<longleftrightarrow> simulates fl s vm"
  "sim_result fl (src_ok s) (ok vm) \<longleftrightarrow> simulates fl s vm"
  by (simp_all add: sim_result_def src_exc_def src_ok_def exc_def ok_def)

lemma simulates_tick [simp]: "simulates fl s (tick vm) = simulates fl s vm"
  by (simp add: simulates_def)

text \<open>What the steps of the two machines start from: the lines behind the instruction that is executed
  have the next address.\<close>

definition at_step :: "flat \<Rightarrow> src_state \<Rightarrow> machine \<Rightarrow> flat \<Rightarrow> bool" where
  "at_step fl s vm next_lines \<longleftrightarrow> simulates fl s vm \<and> suffix next_lines fl \<and>
     addr fl next_lines = ip vm + 1 \<and> prog_size (program vm) = op_count fl"

lemma goto_sim: "at_step fl s vm next_lines \<Longrightarrow> leads_to fl (ui32 ob) t \<Longrightarrow> sim_result fl (src_goto t s) (op_jmp ob vm)"
  by (auto simp: src_goto_def op_jmp_def leads_to_def simulates_def at_step_def)

lemma branch_sim:
  "at_step fl s vm next_lines \<Longrightarrow> leads_to fl (ui32 ob) t \<Longrightarrow>
    sim_result fl (src_branch test t next_lines s) (jump_if test ob vm)"
  by (auto simp: at_step_def src_branch_def jump_if_def leads_to_def simulates_def Let_def next_ip_def)

lemma call_sim:
  "at_step fl s vm next_lines \<Longrightarrow> leads_to fl (ui32 ob) t \<Longrightarrow> sim_result fl (src_call t next_lines s) (op_call ob vm)"
  by (cases "tvm_frame_next (frames vm) (frame vm)")
    (auto simp: at_step_def src_call_def op_call_def leads_to_def simulates_def nth_append)

lemma ret_sim: "at_step fl s vm next_lines \<Longrightarrow> sim_result fl (src_ret s) (op_ret vm)"
  by (cases "tvm_frame_prev (frames vm) (frame vm)"; cases "src_rets s")
    (auto simp: at_step_def src_ret_def op_ret_def simulates_def nth_append)

lemma other_sim:
  assumes "at_step fl s vm next_lines" and "op \<notin> set control_ops"
  shows "sim_result fl (src_other op env ob next_lines s) (exec_op op env ob vm)"
proof -
  have "strip_result (exec_op op env ob (src_vm s)) = strip_result (exec_op op env ob vm)"
    using exec_op_control_free [OF assms(2), of env ob] assms(1) by (simp add: control_free_def simulates_def at_step_def)
  moreover have "simulates fl (s\<lparr>src_rest := next_lines, src_vm := strip vm'\<rparr>) vm'"
    if "exec_op op env ob vm = Some (EXCEPT_OK, vm')" for vm'
    using runs_as_ok [OF exec_op_effect that] assms
    by (auto simp: at_step_def effect_def same_calls_def control_ops_def simulates_def)
  moreover have "vm' = vm" if "exec_op op env ob vm = Some (e, vm')" "e \<noteq> EXCEPT_OK" for e vm'
    using runs_as_exc [OF exec_op_effect that] .
  ultimately show ?thesis
    using assms(1) by (cases "exec_op op env ob vm") (auto simp: at_step_def src_other_def sim_result_def strip_result_def)
qed

lemma step_sim:
  assumes "assembled_as ls cs" and "holds_code cs vm" and sim: "simulates (flat_lines ls) s vm"
    and "op_count (src_rest s) \<noteq> 0"
  shows "sim_result (flat_lines ls) (src_step env ls s) (tvm_exec_opcode env vm)"
proof -
  let ?fl = "flat_lines ls"
  obtain p op iname oprnd next_lines where t: "to_op (src_rest s) = (p, AST_OP op iname oprnd) # next_lines"
    using to_op_cases [OF assms(4)] by blast
  have s: "suffix (src_rest s) ?fl" "ip vm = addr ?fl (src_rest s)" using sim by (simp_all add: simulates_def)
  note at = assembled_at [OF assms(1) s(1) t]
  have next_ok: "suffix next_lines ?fl" "addr ?fl next_lines = ip vm + 1" using at s by simp_all
  have size: "prog_size (program vm) = op_count ?fl" using assms(1,2) assembled_length by (simp add: holds_code_def)
  have small: "ip vm < TVM_PROGRAM_CAPACITY" using at(1) s(2) assms(1) by (simp add: assembled_as_def)
  define c where "c = cs ! ip vm"
  have c: "code (program vm) (ip vm) = c" "assemble_op (label_entries 0 ?fl) (proc_entries 0 ls) p op oprnd = Some c"
    using at(1,2) s(2) assms(2) by (simp_all add: holds_code_def c_def)
  have st: "at_step ?fl s vm next_lines" using sim next_ok size by (simp add: at_step_def)
  note sims = goto_sim [OF st] branch_sim [OF st] call_sim [OF st] ret_sim [OF st] other_sim [OF st]
  consider (jump) "op \<in> set jump_ops" | (call) "op = OP_CALL" | (other) "op \<notin> set jump_ops" "op \<noteq> OP_CALL" by blast
  then show ?thesis
  proof cases
    case jump
    from jump_operand [OF assms(1) jump c(2)] obtain w where
      w: "c = operand_opcode op STACK_OBJ_TYPE_VM_ADDRESS w" "leads_to ?fl w (jump_target ls p oprnd)" by blast
    with exec_assembled [OF small] c(1)
    have e: "tvm_exec_opcode env vm = exec_op op env (vm_operand STACK_OBJ_TYPE_VM_ADDRESS w) vm" by simp
    show ?thesis using jump sims(1,2) w(2)
      by (auto simp: e src_step_def t src_op_def jump_ops_def op_jz_def op_jnz_def)
  next
    case call
    from call_operand [OF assms(1) c(2) [unfolded call]] obtain w where
      w: "c = operand_opcode OP_CALL STACK_OBJ_TYPE_VM_ADDRESS w" "leads_to ?fl w (call_target ls oprnd)" by blast
    with exec_assembled [OF small] c(1)
    have e: "tvm_exec_opcode env vm = exec_op OP_CALL env (vm_operand STACK_OBJ_TYPE_VM_ADDRESS w) vm" by simp
    show ?thesis using call sims(3) w(2) by (simp add: e src_step_def t src_op_def)
  next
    case other
    from other_operand [OF other c(2)] c(1) small
    have e: "tvm_exec_opcode env vm = exec_op op env (literal op oprnd) vm"
      by (simp add: tvm_exec_opcode_def Let_def del: optype_code.simps)
    show ?thesis
    proof (cases "op = OP_RET")
      case True
      then show ?thesis using sims(4) by (simp add: e src_step_def t src_op_def)
    next
      case False
      with other have "op \<notin> set control_ops" by (auto simp: jump_ops_def control_ops_def)
      from sims(5) [OF this] other False show ?thesis by (simp add: e src_step_def t src_op_def jump_ops_def)
    qed
  qed
qed

subsection \<open>Whole runs\<close>

lemma running_sim:
  assumes "assembled_as ls cs" and "holds_code cs vm" and "simulates (flat_lines ls) s vm"
  shows "src_running s \<longleftrightarrow> \<not> halted vm \<and> ip vm < prog_size (program vm)"
proof -
  have "op_count (src_rest s) \<le> op_count (flat_lines ls)"
    using assms(3) by (simp add: simulates_def suffix_op_count)
  with assms assembled_length [OF assms(1)] show ?thesis
    by (auto simp: src_running_def simulates_def holds_code_def addr_def)
qed

text \<open>Behind the last instruction the virtual machine executes the zero of the code array, which is
  \<open>nop\<close>, before its loop ends.\<close>

definition zero_behind :: "machine \<Rightarrow> bool" where
  "zero_behind vm \<longleftrightarrow> prog_size (program vm) < TVM_PROGRAM_CAPACITY \<and>
     code (program vm) (prog_size (program vm)) = zero_opcode"

definition sim_outcome :: "vm_env \<Rightarrow> nat \<Rightarrow> machine \<Rightarrow> src_outcome option \<Rightarrow> bool" where
  "sim_outcome env n vm r = (case r of
     None \<Rightarrow> tvm_run_loop n env vm = None
   | Some (Src_Halted s) \<Rightarrow> \<exists>vm'. tvm_run_loop (Suc n) env vm = Some (Halted vm') \<and> strip vm' = src_vm s
   | Some (Src_Raised e s) \<Rightarrow> \<exists>vm'. tvm_run_loop n env vm = Some (Raised e vm') \<and> strip vm' = src_vm s
   | Some (Src_Running s) \<Rightarrow> \<exists>vm'. tvm_run_loop n env vm = Some (Running vm') \<and> strip vm' = src_vm s)"

lemma end_of_program:
  assumes "zero_behind vm" and "\<not> halted vm" and "ip vm = prog_size (program vm)"
  shows "\<exists>vm'. tvm_run_loop (Suc n) env vm = Some (Halted vm') \<and> strip vm' = strip vm"
proof -
  have "optype_of (op_type (code (program vm) (ip vm))) = Some OP_NOP"
    using assms(1,3) optype_of_code [of OP_NOP] by (simp add: zero_behind_def zero_opcode_def)
  then have e: "tvm_exec_opcode env vm = Some (EXCEPT_OK, next_ip vm)"
    using assms(1,3) by (simp add: tvm_exec_opcode_def zero_behind_def Let_def op_nop_def)
  have "\<not> running (tick (next_ip vm))" using assms(3) by (simp add: running_def next_ip_def)
  then have "tvm_run_loop n env (tick (next_ip vm)) = Some (Halted (tick (next_ip vm)))" by (cases n) simp_all
  with e assms(2,3) show ?thesis by (simp add: running_def)
qed

lemma stopped_sim:
  assumes "assembled_as ls cs" and "holds_code cs vm" and "zero_behind vm" and "simulates (flat_lines ls) s vm"
    and "\<not> src_running s"
  shows "\<exists>vm'. tvm_run_loop (Suc n) env vm = Some (Halted vm') \<and> strip vm' = src_vm s"
proof (cases "halted vm")
  case True
  with assms(4) show ?thesis by (simp add: running_def simulates_def)
next
  case False
  with running_sim [OF assms(1,2,4)] assms(5) have "prog_size (program vm) \<le> ip vm" by simp
  moreover have "ip vm \<le> prog_size (program vm)"
    using assms(2,4) assembled_length [OF assms(1)] by (simp add: simulates_def holds_code_def addr_def)
  ultimately have "ip vm = prog_size (program vm)" by simp
  from end_of_program [OF assms(3) False this] assms(4) show ?thesis by (simp add: simulates_def)
qed

lemma run_sim:
  assumes "assembled_as ls cs" and "holds_code cs vm" and "zero_behind vm" and "simulates (flat_lines ls) s vm"
  shows "sim_outcome env n vm (src_run n env ls s)"
  using assms(2-4)
proof (induction n arbitrary: s vm)
  case (0 s vm)
  show ?case
  proof (cases "src_running s")
    case True
    with running_sim [OF assms(1) 0(1,3)] 0(3) show ?thesis
      by (simp add: sim_outcome_def running_def simulates_def)
  next
    case False
    with stopped_sim [OF assms(1) 0 False, of 0 env] show ?thesis by (simp add: sim_outcome_def)
  qed
next
  case (Suc n s vm)
  show ?case
  proof (cases "src_running s")
    case False
    with stopped_sim [OF assms(1) Suc.prems False, of "Suc n" env] show ?thesis by (simp add: sim_outcome_def)
  next
    case True
    with running_sim [OF assms(1) Suc.prems(1,3)] have run: "running vm" by (simp add: running_def)
    from True have "op_count (src_rest s) \<noteq> 0" by (simp add: src_running_def)
    note st = step_sim [OF assms(1) Suc.prems(1,3) this, of env]
    show ?thesis
    proof (cases "tvm_exec_opcode env vm")
      case None
      with st True run show ?thesis by (simp add: sim_result_def sim_outcome_def)
    next
      case (Some ev)
      then obtain e vm1 where v: "tvm_exec_opcode env vm = Some (e, vm1)" by (cases ev) auto
      with st obtain s1 where s1: "src_step env ls s = Some (e, s1)" "simulates (flat_lines ls) s1 vm1"
        by (auto simp: sim_result_def option_rel_Some2)
      show ?thesis
      proof (cases "e = EXCEPT_OK")
        case False
        with v s1 True run show ?thesis by (simp add: sim_outcome_def simulates_def)
      next
        case ok: True
        have same: "program vm1 = program vm" using v ok step_program [of env vm "tick vm1"] run
          by (simp add: vm_step_iff)
        have "holds_code cs (tick vm1)" "zero_behind (tick vm1)" "simulates (flat_lines ls) s1 (tick vm1)"
          using Suc.prems s1(2) same by (simp_all add: holds_code_def zero_behind_def)
        note ih = Suc.IH [OF this]
        have "tvm_run_loop (Suc k) env vm = tvm_run_loop k env (tick vm1)" for k using v run ok by simp
        moreover have "src_run (Suc n) env ls s = src_run n env ls s1" using s1(1) True ok by simp
        ultimately show ?thesis using ih
          by (simp add: sim_outcome_def del: tvm_run_loop.simps src_run.simps split: option.splits src_outcome.splits)
      qed
    qed
  qed
qed

end
