(* ===== verification/Source_Meaning.thy ===== *)
theory Source_Meaning
  imports Source_Simulation Tvm_Main File_Properties
begin

text \<open>
  An assembled program means what its source means: the simulation of \<open>Source_Simulation\<close> for the code
  that the passes of the assembler produce, in a machine with that code, and for the machine that has
  loaded it from a file.
\<close>

lemma simulates_init:
  assumes "ip vm = 0" and "rsp vm = 0"
  shows "simulates (flat_lines ls) (src_init ls vm) vm"
  using assms by (simp add: simulates_def src_init_def addr_def)

lemma assembled_code:
  assumes "list_all wf_line ls" and "list_all (\<lambda>x. operands_ok (snd x)) (flat_lines ls)"
    and "names_apart (label_entries 0 (flat_lines ls)) (proc_entries 0 ls)"
    and "assemble_ast (AST_FILE ls) = Some (Inr tr)" and "\<not> tasm_translator_is_err tr"
    and "program vm = tr_program tr"
  obtains cs where "assembled_as ls cs" "holds_code cs vm" "op_count (flat_lines ls) < TVM_PROGRAM_CAPACITY \<Longrightarrow> zero_behind vm"
proof -
  note a = assembled [OF assms(1-4)]
  obtain cs where cs: "assemble (label_entries 0 (flat_lines ls)) (proc_entries 0 ls) (flat_lines ls) = Some cs"
    using assembled_program [OF a(1)] assms(5) by (auto simp: tasm_translator_is_err_def)
  with a(1) have e: "emits (resolved ls) cs tr" by (simp add: lines_ok_def)
  then have code: "prog_size (program vm) = length cs" "\<And>i. i < length cs \<Longrightarrow> code (program vm) i = cs ! i"
    "code (program vm) (length cs) = zero_opcode"
    by (simp_all add: emits_def assms(6) zero_program_def)
  have "length cs \<le> TVM_PROGRAM_CAPACITY"
    using a(3) code(1) assms(6) by (simp add: symbol_capacities capacities)
  with cs a(2) have "assembled_as ls cs" by (simp add: assembled_as_def)
  moreover have "holds_code cs vm" using code(1,2) by (simp add: holds_code_def)
  moreover have "op_count (flat_lines ls) < TVM_PROGRAM_CAPACITY \<Longrightarrow> zero_behind vm"
    using code(1,3) assemble_length [OF cs] by (simp add: zero_behind_def)
  ultimately show thesis by (rule that)
qed

text \<open>Read from the machine's side: a run that ends is a run of the source that ends in the same way.\<close>

lemma ended_sim:
  assumes "sim_outcome env n vm r"
  shows "tvm_run_loop n env vm = Some (Halted vm') \<Longrightarrow> \<exists>s. r = Some (Src_Halted s) \<and> src_vm s = strip vm'"
    and "tvm_run_loop n env vm = Some (Raised e vm') \<Longrightarrow> \<exists>s. r = Some (Src_Raised e s) \<and> src_vm s = strip vm'"
proof -
  note more = run_loop_more_fuel [of n env vm _ "Suc n"]
  show "\<exists>s. r = Some (Src_Halted s) \<and> src_vm s = strip vm'" if l: "tvm_run_loop n env vm = Some (Halted vm')"
    using assms l more [OF l]
    by (auto simp: sim_outcome_def simp del: tvm_run_loop.simps split: option.splits src_outcome.splits)
  show "\<exists>s. r = Some (Src_Raised e s) \<and> src_vm s = strip vm'" if l: "tvm_run_loop n env vm = Some (Raised e vm')"
    using assms l more [OF l]
    by (auto simp: sim_outcome_def simp del: tvm_run_loop.simps split: option.splits src_outcome.splits)
qed

subsection \<open>The loaded machine\<close>

lemma load_keeps:
  assumes "tvm_load_program_from_file env bs ar vm = Some (vm', ar')"
  shows "vm' = vm\<lparr>program := program vm', data_ptr := data_ptr vm', mem := mem vm'\<rparr>"
  using assms by (auto simp: tvm_load_program_from_file_def split: if_splits)

lemma dec_n_length: "dec_n d n bs = Some (xs, r) \<Longrightarrow> length xs = n"
  by (induction n arbitrary: bs xs) auto

lemma load_program_behind: "load_program bs p = Some q \<Longrightarrow> prog_size q \<le> i \<Longrightarrow> code q i = code p i"
  by (auto simp: load_program_def dest!: dec_n_length)

lemma loaded_code:
  assumes "list_all wf_line ls" and "list_all (\<lambda>x. operands_ok (snd x)) (flat_lines ls)"
    and "list_all (\<lambda>x. constant_line (snd x)) (flat_lines ls)"
    and "names_apart (label_entries 0 (flat_lines ls)) (proc_entries 0 ls)"
    and "assemble_ast (AST_FILE ls) = Some (Inr tr)" and "\<not> tasm_translator_is_err tr"
    and "bss = concat (map (\<lambda>x. data_items (snd x)) (flat_lines ls))"
    and "8 * length bss \<le> program_arena_capacity" and "length (concat bss) \<le> program_arena_capacity"
    and "tasm_translator_generate_bin pad tr [] = Some (file, tr')"
    and "tvm_load_program_from_file env file ar (tvm_init m) = Some (vm', ar')"
  obtains cs where "assembled_as ls cs" "holds_code cs vm'"
    "op_count (flat_lines ls) < TVM_PROGRAM_CAPACITY \<Longrightarrow> zero_behind vm'"
    "module_count (metadata (program vm')) = 0"
    "bss \<noteq> [] \<Longrightarrow> const_table (program vm') = consts_of bss"
    "bss \<noteq> [] \<Longrightarrow> mem_read (mem vm') (data_ptr vm') (length (concat bss)) = Some (concat bss)"
proof -
  from assembled_file_loads [OF assms] obtain cs where
    l: "assemble (label_entries 0 (flat_lines ls)) (proc_entries 0 ls) (flat_lines ls) = Some cs"
    "length cs \<le> TVM_PROGRAM_CAPACITY" "load_program file zero_program = Some (program vm')"
    "prog_size (program vm') = length cs" "\<forall>i < length cs. code (program vm') i = cs ! i"
    "metadata (program vm') = set_modules [] (metadata zero_program)"
    "bss \<noteq> [] \<longrightarrow> const_table (program vm') = consts_of bss \<and>
       mem_read (mem vm') (data_ptr vm') (length (concat bss)) = Some (concat bss)" by auto
  have "assembled_as ls cs" using l(1,2) assembled(2) [OF assms(1,2,4,5)] by (simp add: assembled_as_def)
  moreover have "holds_code cs vm'" using l(4,5) by (simp add: holds_code_def)
  moreover have "zero_behind vm'" if "op_count (flat_lines ls) < TVM_PROGRAM_CAPACITY"
    using that load_program_behind [OF l(3)] l(4) assemble_length [OF l(1)]
    by (simp add: zero_behind_def zero_program_def)
  moreover have "module_count (metadata (program vm')) = 0" using l(6) by (simp add: set_modules_def)
  ultimately show thesis using that l(7) by blast
qed

subsection \<open>A sample program\<close>

text \<open>A loop around a procedure call that prints a character twice.\<close>

definition count_file :: "tasm_ast list" where
  "count_file = [AST_OP OP_PUSH [] (Some (AST_NUMBER [] 2)), lbl ''a'', ref OP_CALL ''p'', opn OP_DEC, opn OP_DUP,
     ref OP_JNZ ''a'', opn OP_HALT,
     AST_PROC (Some (bytes_of ''p'')) [AST_OP OP_PUSH [] (Some (AST_NUMBER [] 120)), opn OP_PUTC, opn OP_RET]]"

lemma count_file_ok:
  "list_all wf_line count_file" "flat_ok (flat_lines count_file)"
  "list_all (\<lambda>x. operands_ok (snd x)) (flat_lines count_file)"
  "names_apart (label_entries 0 (flat_lines count_file)) (proc_entries 0 count_file)"
  "\<not> dup_names count_file" "op_count (flat_lines count_file) = 9"
  by (simp_all add: count_file_def sample_defs flat_ok_def operand_fits_def jump_ops_def number_ops_def
      label_fits_def scoped_name_def names_apart_def dup_names_def label_entries_def proc_entries_def
      label_entry_def proc_entry_def full_name_def data_bytes_def)

lemma ops_metadata:
  assumes "run_flat tr fl = Some tr'" and "list_all (\<lambda>x. is_op (snd x) \<or> (\<exists>n. snd x = AST_LABEL_DECL n)) fl"
  shows "metadata (tr_program tr') = metadata (tr_program tr)"
  using assms
proof (induction fl arbitrary: tr)
  case (Cons x fl)
  then obtain tr1 where s: "tasm_translate_line tr (snd x) (fst x) False = Some tr1" "run_flat tr1 fl = Some tr'"
    by auto
  have "metadata (tr_program tr1) = metadata (tr_program tr)"
    using s(1) Cons.prems(2) by (cases "snd x") (auto simp: tasm_translate_line_def dest: op_metadata)
  with Cons.IH [OF s(2)] Cons.prems(2) show ?case by simp
qed simp

definition src_output :: "src_outcome option \<Rightarrow> bytes option" where
  "src_output r = (case r of Some (Src_Halted s) \<Rightarrow> Some (out (src_vm s)) | _ \<Rightarrow> None)"

lemma count_file_runs: "src_output (src_run 16 demo_env count_file (src_init count_file (tvm_init empty_memory))) = Some [120, 120]"
  by code_simp

subsection \<open>The property\<close>

text \<open>C3. An assembled program means what its source means: the virtual machine with the code that the
  passes have produced runs like the interpreter of the source, for every number of steps. It is
  undefined when the interpreter is, raises the same exception in the same state, and halts in the
  same state, where the state is everything but instruction pointer and return stack.\<close>

theorem program_means_source:
  assumes "list_all wf_line ls" and "list_all (\<lambda>x. operands_ok (snd x)) (flat_lines ls)"
    and "names_apart (label_entries 0 (flat_lines ls)) (proc_entries 0 ls)"
    and "assemble_ast (AST_FILE ls) = Some (Inr tr)" and "\<not> tasm_translator_is_err tr"
    and "op_count (flat_lines ls) < TVM_PROGRAM_CAPACITY"
    and "program vm = tr_program tr" and "ip vm = 0" and "rsp vm = 0"
  shows "case src_run n env ls (src_init ls vm) of
      None \<Rightarrow> tvm_run_loop n env vm = None
    | Some (Src_Halted s) \<Rightarrow> \<exists>vm'. tvm_run_loop (Suc n) env vm = Some (Halted vm') \<and> strip vm' = src_vm s
    | Some (Src_Raised e s) \<Rightarrow> \<exists>vm'. tvm_run_loop n env vm = Some (Raised e vm') \<and> strip vm' = src_vm s
    | Some (Src_Running s) \<Rightarrow> \<exists>vm'. tvm_run_loop n env vm = Some (Running vm') \<and> strip vm' = src_vm s"
proof -
  obtain cs where "assembled_as ls cs" "holds_code cs vm" "zero_behind vm"
    using assembled_code [OF assms(1-5,7)] assms(6) by metis
  from run_sim [OF this simulates_init [OF assms(8,9)], of env n] show ?thesis
    unfolding sim_outcome_def .
qed

theorem program_means_source_witness:
  "\<exists>tr vm'. assemble_ast (AST_FILE count_file) = Some (Inr tr) \<and>
     tvm_run_loop 17 demo_env (tvm_init empty_memory\<lparr>program := tr_program tr\<rparr>) = Some (Halted vm') \<and>
     out vm' = [120, 120]"
proof -
  have "\<exists>r. assemble_ast (AST_FILE count_file) = Some r"
    using assemble_file_defined [OF count_file_ok(1,2)]
    by (simp add: count_file_def sample_defs symbol_capacities capacities label_entries_def
        proc_entries_def label_entry_def proc_entry_def)
  then obtain r where r: "assemble_ast (AST_FILE count_file) = Some r" ..
  with assemble_file_cases [OF count_file_ok(1) r] count_file_ok(5)
  obtain tr where tr: "assemble_ast (AST_FILE count_file) = Some (Inr tr)" by auto
  have ok: "\<not> tasm_translator_is_err tr"
    using assembled(1) [OF count_file_ok(1,3,4) tr]
    by (simp add: count_file_def sample_defs label_entries_def proc_entries_def label_entry_def proc_entry_def
        full_name_def assemble_line_def assemble_op_def jump_ops_def number_ops_def lines_ok_def emits_def
        tasm_translator_is_err_def)
  let ?vm = "tvm_init empty_memory\<lparr>program := tr_program tr\<rparr>"
  have "run_flat (resolved count_file) (flat_lines count_file) = Some tr"
    using assemble_file_cases [OF count_file_ok(1) tr] by auto
  from ops_metadata [OF this] have md: "metadata (tr_program tr) = metadata zero_program"
    by (simp add: count_file_def sample_defs)
  have "const_table (tr_program tr) = consts_of (concat (map (\<lambda>x. data_items (snd x)) (flat_lines count_file)))"
    by (rule assembled_consts [OF count_file_ok(1) _ tr]) (simp add: count_file_def sample_defs)
  then have ct: "const_table (tr_program tr) = const_table zero_program"
    by (simp add: count_file_def sample_defs consts_of_def zero_program_def)
  have "strip ?vm = strip (tvm_init empty_memory)"
    using ct md by (simp add: strip_def zero_program_def)
  then have i: "src_init count_file ?vm = src_init count_file (tvm_init empty_memory)" by (simp add: src_init_def)
  from count_file_runs obtain s where s: "src_run 16 demo_env count_file (src_init count_file ?vm) = Some (Src_Halted s)"
    "out (src_vm s) = [120, 120]" unfolding i by (auto simp: src_output_def split: option.splits src_outcome.splits)
  have small: "op_count (flat_lines count_file) < TVM_PROGRAM_CAPACITY" by (simp add: count_file_ok(6) capacities)
  from program_means_source [OF count_file_ok(1,3,4) tr ok small, of ?vm 16 demo_env] s(1)
  obtain vm' where "tvm_run_loop (Suc 16) demo_env ?vm = Some (Halted vm')" "strip vm' = src_vm s" by auto
  moreover from this(2) s(2) have "out vm' = [120, 120]" using strip_simps(10) [of vm'] by simp
  ultimately show ?thesis using tr by (auto simp: eval_nat_numeral)
qed

end
