(* ===== verification/Toolchain_Properties.thy ===== *)
theory Toolchain_Properties
  imports Source_Properties Source_Meaning
begin

text \<open>
  The properties of the programs as wholes: what the assembler has written when it succeeds, what an
  assembled program does in the virtual machine, and the two composed: a source file that is assembled
  and run does what the interpreter of its lines says.
\<close>

subsection \<open>The assembler\<close>

text \<open>A translation that returns has come across no constant without a value.\<close>

lemma run_flat_values: "run_flat tr fl = Some tr' \<Longrightarrow> \<forall>x \<in> set fl. snd x \<noteq> AST_DATA None"
  by (induction fl arbitrary: tr) (auto simp: tasm_translate_line_def tasm_translate_data_def)

lemma value_fits_constant: "value_fits a \<Longrightarrow> a \<noteq> AST_DATA None \<Longrightarrow> constant_line a"
proof (cases a)
  case (AST_DATA v)
  then show "value_fits a \<Longrightarrow> a \<noteq> AST_DATA None \<Longrightarrow> constant_line a" by (cases v) auto
qed simp_all

text \<open>What a run of \<open>main\<close> with exit status 0 and an output file has done.\<close>

lemma tasm_main_success:
  assumes "tasm_main fs behind pad argv = Some (0, (oname, bin) # others)"
    and "cli_tasm_parse_command_line no_args argv = Some (True, args)" and "file_name args = Some fname"
    and "read_file_content (fs fname) behind = Some (Inr src)" and "parse_source src = Some (ast, ps)"
  shows "output_name args = Some oname \<and> \<not> is_err ps \<and>
    (\<exists>tr tr1. assemble_ast ast = Some (Inr tr) \<and> \<not> tasm_translator_is_err tr \<and>
       tasm_translator_generate_bin pad tr (clib_names args) = Some (bin, tr1))"
proof -
  from assms have ne: "\<not> is_err ps"
    by (auto simp: tasm_main_def EXIT_FAILURE_def tasm_parser_is_err_def)
  with assms obtain r where r: "assemble_ast ast = Some r" "(case r of Inl n \<Rightarrow> Some (n, [])
      | Inr tr \<Rightarrow> if tasm_translator_is_err tr then Some (0, [])
          else map_option (Pair 0) (write_outputs pad args ast tr)) = Some (0, (oname, bin) # others)"
    by (auto simp: tasm_main_def tasm_parser_is_err_def)
  with ne show ?thesis by (cases r) (auto simp: write_outputs_def split: if_splits)
qed

lemma tasm_main_lines:
  assumes "tasm_main fs behind pad argv = Some (0, (oname, bin) # others)"
    and "cli_tasm_parse_command_line no_args argv = Some (True, args)" and "clib_names args = []"
    and "file_name args = Some fname" and "read_file_content (fs fname) behind = Some (Inr src)"
    and "parse_source src = Some (AST_FILE ls, ps)"
  obtains tr tr1 where "output_name args = Some oname" "\<not> is_err ps" "assemble_ast (AST_FILE ls) = Some (Inr tr)"
    "\<not> tasm_translator_is_err tr" "tasm_translator_generate_bin pad tr [] = Some (bin, tr1)"
    "list_all wf_line ls" "list_all (\<lambda>x. operands_ok (snd x)) (flat_lines ls)"
    "list_all (\<lambda>x. constant_line (snd x)) (flat_lines ls)"
proof -
  from tasm_main_success [OF assms(1,2,4-6)] obtain tr tr1 where
    t: "output_name args = Some oname" "\<not> is_err ps" "assemble_ast (AST_FILE ls) = Some (Inr tr)"
      "\<not> tasm_translator_is_err tr" "tasm_translator_generate_bin pad tr [] = Some (bin, tr1)"
    using assms(3) by auto
  from parsed_lines [OF assms(6) t(2)] have wf: "list_all wf_line ls"
    "list_all (\<lambda>x. operands_ok (snd x)) (flat_lines ls)" "list_all (\<lambda>x. value_fits (snd x)) (flat_lines ls)"
    by (auto simp: list_all_iff)
  from assemble_file_cases [OF wf(1) t(3)] have "run_flat (resolved ls) (flat_lines ls) = Some tr" by auto
  with run_flat_values wf(3) value_fits_constant have "list_all (\<lambda>x. constant_line (snd x)) (flat_lines ls)"
    unfolding list_all_iff by blast
  with t wf that show thesis by blast
qed

text \<open>C16. The assembler as a whole: when a run without libraries ends with status 0 and has written a
  file, then the source was parsed without an error, the file is the one named on the command line,
  and a machine that loads it gets the program of the reference assembler for the source's lines, and
  the constants of the source.\<close>

theorem assembler_correct:
  assumes "tasm_main fs behind pad argv = Some (0, (oname, bin) # others)"
    and "cli_tasm_parse_command_line no_args argv = Some (True, args)" and "clib_names args = []"
    and "file_name args = Some fname" and "read_file_content (fs fname) behind = Some (Inr src)"
    and "parse_source src = Some (AST_FILE ls, ps)"
    and "names_apart (label_entries 0 (flat_lines ls)) (proc_entries 0 ls)"
    and "bss = concat (map (\<lambda>x. data_items (snd x)) (flat_lines ls))"
    and "8 * length bss \<le> program_arena_capacity" and "length (concat bss) \<le> program_arena_capacity"
    and "tvm_load_program_from_file env bin ar vm = Some (vm', ar')"
  shows "output_name args = Some oname \<and> \<not> is_err ps \<and>
    (\<exists>cs. assemble (label_entries 0 (flat_lines ls)) (proc_entries 0 ls) (flat_lines ls) = Some cs \<and>
       prog_size (program vm') = length cs \<and> (\<forall>i < length cs. code (program vm') i = cs ! i) \<and>
       (bss \<noteq> [] \<longrightarrow> mem_read (mem vm') (data_ptr vm') (length (concat bss)) = Some (concat bss)))"
  using assms(1-6)
proof (rule tasm_main_lines)
  fix tr tr1 assume t: "output_name args = Some oname" "\<not> is_err ps" "assemble_ast (AST_FILE ls) = Some (Inr tr)"
    "\<not> tasm_translator_is_err tr" "tasm_translator_generate_bin pad tr [] = Some (bin, tr1)"
    "list_all wf_line ls" "list_all (\<lambda>x. operands_ok (snd x)) (flat_lines ls)"
    "list_all (\<lambda>x. constant_line (snd x)) (flat_lines ls)"
  from assembled_file_loads [OF t(6-8) assms(7) t(3,4) assms(8-10) t(5) assms(11)] t(1,2)
  show ?thesis by blast
qed

definition halt_fs :: "bytes \<Rightarrow> bytes option" where "halt_fs name = Some (bytes_of ''hlt'' @ [c_newline])"

definition halt_argv :: "bytes list" where "halt_argv = [bytes_of ''tasm'', bytes_of ''a'']"

lemma halt_assembled:
  "\<exists>tr. assemble_ast (AST_FILE [AST_OP OP_HALT (bytes_of ''hlt'') None]) = Some (Inr tr) \<and>
     \<not> tasm_translator_is_err tr \<and> program_ok (tr_program tr) [] \<and>
     referance_count (const_table (tr_program tr)) = 0"
  by (simp add: assemble_ast_def tasm_translate_unit_def tasm_translate_proc_and_line_def
      tasm_translate_line_def translate_op_def jump_ops_def number_ops_def program_push_def zero_program_def
      zero_module_def program_ok_def named_modules_def const_ok_def capacities symbol_capacities
      tasm_translator_is_err_def Let_def)

text \<open>The build of a file with one line.\<close>

definition halt_args :: cli_parsed_args_t where
  "halt_args = no_args\<lparr>file_name := Some (bytes_of ''a''), output_name := Some (bytes_of ''out.bin'')\<rparr>"

abbreviation halt_lines :: "tasm_ast list" where "halt_lines \<equiv> [AST_OP OP_HALT (bytes_of ''hlt'') None]"

lemma halt_cli: "cli_tasm_parse_command_line no_args halt_argv = Some (True, halt_args)"
  by (simp add: cli_tasm_parse_command_line_def halt_argv_def cli_tasm_usage_def cli_tasm_option_def
      bytes_of_def byte_of_char_def no_args_def halt_args_def)

lemma halt_args_simps: "clib_names halt_args = []" "file_name halt_args = Some (bytes_of ''a'')"
  by (simp_all add: halt_args_def no_args_def)

lemma halt_read: "read_file_content (halt_fs (bytes_of ''a'')) [0] = Some (Inr halt_source)"
  by (simp add: read_file_content_def halt_fs_def halt_source_def src_arena_capacity_def bytes_of_def
      byte_of_char_def char_defs)

lemma halt_apart: "names_apart (label_entries 0 (flat_lines halt_lines)) (proc_entries 0 halt_lines)"
  by (simp add: names_apart_def label_entries_def proc_entries_def label_entry_def proc_entry_def)

lemma halt_build:
  obtains ps bin q where "parse_source halt_source = Some (AST_FILE halt_lines, ps)"
    "tasm_main halt_fs [0] (\<lambda>_ _. 0) halt_argv = Some (0, [(bytes_of ''out.bin'', bin)])"
    "load_program bin zero_program = Some q" "prog_size q = 1" "code q 0 = plain_opcode OP_HALT"
    "referance_count (const_table q) = 0" "module_count (metadata q) = 0"
proof -
  obtain ps where ps: "parse_source halt_source = Some (AST_FILE halt_lines, ps)" "\<not> is_err ps" using parse_halt by blast
  obtain tr where tr: "assemble_ast (AST_FILE halt_lines) = Some (Inr tr)" "\<not> tasm_translator_is_err tr"
    "program_ok (tr_program tr) []" using halt_assembled by blast
  from program_file [OF tr(3), of "\<lambda>_ _. 0" zero_program] obtain bin tr1 where
    b: "tasm_translator_generate_bin (\<lambda>_ _. 0) tr [] = Some (bin, tr1)" by auto
  have main: "tasm_main halt_fs [0] (\<lambda>_ _. 0) halt_argv = Some (0, [(bytes_of ''out.bin'', bin)])"
    using halt_cli halt_read ps tr(1,2) b(1)
    by (simp add: tasm_main_def write_outputs_def tasm_parser_is_err_def no_args_def halt_args_def)
  have "assemble L P (flat_lines halt_lines) = Some [plain_opcode OP_HALT]" for L P
    by (simp add: assemble_line_def assemble_op_def jump_ops_def number_ops_def)
  with assembled_program_file [OF _ _ _ halt_apart tr(1,2) refl _ _ b, of zero_program] obtain q where
    "load_program bin zero_program = Some q" "prog_size q = 1" "code q 0 = plain_opcode OP_HALT"
    "referance_count (const_table q) = 0" "metadata q = set_modules [] (metadata zero_program)"
    by (auto simp: operand_fits_def jump_ops_def number_ops_def)
  then show thesis using that ps(1) main by (simp add: set_modules_def)
qed

theorem assembler_correct_witness:
  "\<exists>bin vm' ar'. tasm_main halt_fs [0] (\<lambda>_ _. 0) halt_argv = Some (0, [(bytes_of ''out.bin'', bin)]) \<and>
     tvm_load_program_from_file demo_env bin [] (tvm_init empty_memory) = Some (vm', ar') \<and>
     prog_size (program vm') = 1 \<and> code (program vm') 0 = plain_opcode OP_HALT"
proof (rule halt_build)
  fix ps bin q assume b: "parse_source halt_source = Some (AST_FILE halt_lines, ps)"
    "tasm_main halt_fs [0] (\<lambda>_ _. 0) halt_argv = Some (0, [(bytes_of ''out.bin'', bin)])"
    "load_program bin zero_program = Some q" "referance_count (const_table q) = 0"
  obtain vm' where l: "tvm_load_program_from_file demo_env bin [] (tvm_init empty_memory) = Some (vm', [])"
    using b(3,4) by (simp add: tvm_load_program_from_file_def)
  from assembler_correct [OF b(2) halt_cli halt_args_simps halt_read b(1) halt_apart refl _ _ l] have
    "\<exists>cs. assemble (label_entries 0 (flat_lines halt_lines)) (proc_entries 0 halt_lines) (flat_lines halt_lines) = Some cs \<and>
       prog_size (program vm') = length cs \<and> (\<forall>i < length cs. code (program vm') i = cs ! i)"
    by (simp add: program_arena_capacity_def)
  moreover have "assemble L P (flat_lines halt_lines) = Some [plain_opcode OP_HALT]" for L P
    by (simp add: assemble_line_def assemble_op_def jump_ops_def number_ops_def)
  ultimately show ?thesis using b(2) l by auto
qed

text \<open>What the back end asks of a file: complete names, values and operands, room in its tables, distinct
  names, a declaration for every reference, and constants the loader has room for.\<close>

definition buildable :: "tasm_ast list \<Rightarrow> bool" where
  "buildable ls \<longleftrightarrow> flat_ok (flat_lines ls) \<and> op_count (flat_lines ls) \<le> MAX_PROGRAM_CAPACITY \<and>
     length (label_entries 0 (flat_lines ls)) \<le> SYMBOL_LABEL_DECL_CAPACITY \<and>
     length (proc_entries 0 ls) \<le> SYMBOL_PROC_DECL_CAPACITY \<and>
     (\<Sum>x\<leftarrow>flat_lines ls. refs_of (snd x)) \<le> SYMBOL_LABEL_CALL_CAPACITY \<and>
     (\<Sum>x\<leftarrow>flat_lines ls. cfuns_of (snd x)) \<le> TVM_METADATA_MAX_CFUN_CAPACITY \<and>
     \<not> dup_names ls \<and> names_apart (label_entries 0 (flat_lines ls)) (proc_entries 0 ls) \<and>
     assemble (label_entries 0 (flat_lines ls)) (proc_entries 0 ls) (flat_lines ls) \<noteq> None \<and>
     8 * length (concat (map (\<lambda>x. data_items (snd x)) (flat_lines ls))) \<le> program_arena_capacity \<and>
     length (concat (concat (map (\<lambda>x. data_items (snd x)) (flat_lines ls)))) \<le> program_arena_capacity"

text \<open>What the file format asks of the libraries on the command line and of the functions they declare:
  names of at most 255 bytes, and no more modules, functions and arguments than the loader has room for.\<close>

definition linkable :: "bytes list \<Rightarrow> tasm_ast list \<Rightarrow> bool" where
  "linkable libs ls \<longleftrightarrow> length libs \<le> TVM_METADATA_MAX_MODULE_CAPACITY \<and>
     list_all module_ok (native_modules libs (declared_functions ls))"

lemma linkable_none: "linkable [] ls" by (simp add: linkable_def native_modules_def)

lemma denoted_text:
  assumes "denotes (text @ [c_eof]) ls"
  shows "text \<noteq> []" and "c_eof \<notin> set text" and "0 \<notin> set text"
proof -
  from assms obtain lines where l: "text @ [c_eof] = lines_source lines" "lines \<noteq> []" "list_all printable_line lines"
    by (auto simp: denotes_def)
  then obtain body where "text @ [c_eof] = body @ [c_newline, c_eof]" "0 \<notin> set body" "c_eof \<notin> set body"
    using lines_text_source [OF l(3,2)] unfolding text_source_def by metis
  then have "text = body @ [c_newline]" "0 \<notin> set body" "c_eof \<notin> set body" by simp_all
  then show "text \<noteq> []" and "c_eof \<notin> set text" and "0 \<notin> set text" by (simp_all add: char_defs)
qed

lemma read_denoted:
  assumes "denotes (text @ [c_eof]) ls" and "length text + 1 < src_arena_capacity"
  shows "read_file_content (Some text) (0 # behind) = Some (Inr (text @ [c_eof]))"
proof -
  note t = denoted_text [OF assms(1)]
  have tw: "takeWhile (\<lambda>b. b \<noteq> c_eof) text = text" using t(2) by (auto simp: takeWhile_eq_all_conv)
  have tz: "takeWhile (\<lambda>b. b \<noteq> 0) (text @ c_eof # 0 # s) = text @ [c_eof]" for s
    using t(3) by (subst takeWhile_append2) (auto simp: c_eof_def)
  obtain k where k: "src_arena_capacity - Suc (length text) = Suc k" using assms(2)
    by (cases "src_arena_capacity - Suc (length text)") simp_all
  show ?thesis using t(1) assms(2) by (simp add: read_file_content_def Let_def tw tz k)
qed

lemma buildable_file:
  assumes "denotes src ls" and "buildable ls" and "linkable libs ls"
  obtains ps tr bin tr1 cs where "parse_source src = Some (AST_FILE ls, ps)" "\<not> is_err ps"
    "assemble_ast (AST_FILE ls) = Some (Inr tr)" "\<not> tasm_translator_is_err tr"
    "tasm_translator_generate_bin pad tr libs = Some (bin, tr1)"
    "assemble (label_entries 0 (flat_lines ls)) (proc_entries 0 ls) (flat_lines ls) = Some cs"
    "assembled_as ls cs"
    "\<And>p0. \<exists>q. load_program bin p0 = Some q \<and> prog_size q = length cs \<and> (\<forall>i < length cs. code q i = cs ! i) \<and>
      metadata q = set_modules (native_modules libs (declared_functions ls)) (metadata p0) \<and>
      referance_count (const_table q) = length (concat (map (\<lambda>x. data_items (snd x)) (flat_lines ls))) \<and>
      (concat (map (\<lambda>x. data_items (snd x)) (flat_lines ls)) \<noteq> [] \<longrightarrow>
        const_table q = consts_of (concat (map (\<lambda>x. data_items (snd x)) (flat_lines ls))))"
proof -
  let ?bss = "concat (map (\<lambda>x. data_items (snd x)) (flat_lines ls))"
  note b = assms(2) [unfolded buildable_def]
  obtain ps where ps: "parse_source src = Some (AST_FILE ls, ps)" "\<not> is_err ps" using source_parsed [OF assms(1)] by blast
  from parsed_lines [OF ps] have wf: "list_all wf_line ls" "list_all (\<lambda>x. operands_ok (snd x)) (flat_lines ls)"
    and fits: "\<forall>x \<in> set (flat_lines ls). value_fits (snd x)" by (auto simp: list_all_iff)
  have "\<forall>x \<in> set (flat_lines ls). snd x \<noteq> AST_DATA None" using b by (auto simp: flat_ok_def list_all_iff)
  with fits have const: "list_all (\<lambda>x. constant_line (snd x)) (flat_lines ls)"
    using value_fits_constant by (auto simp: list_all_iff)
  from assemble_file_defined [OF wf(1)] b obtain r where r: "assemble_ast (AST_FILE ls) = Some r" by auto
  with assemble_file_cases [OF wf(1) r] b obtain tr where tr: "assemble_ast (AST_FILE ls) = Some (Inr tr)" by auto
  have apart: "names_apart (label_entries 0 (flat_lines ls)) (proc_entries 0 ls)" using b by blast
  note a = assembled [OF wf apart tr]
  from b a(1) have ne: "\<not> tasm_translator_is_err tr"
    by (auto simp: lines_ok_def emits_def tasm_translator_is_err_def split: option.splits)
  have room: "8 * length ?bss \<le> program_arena_capacity" "length (concat ?bss) \<le> program_arena_capacity" using b by blast+
  have "const_table (tr_program tr) = consts_of ?bss" using assembled_consts [OF wf(1) const tr] by simp
  then have "program_ok (tr_program tr) libs"
    using consts_of_ok [OF room] a(3) assms(3) named_native_modules [OF assembled_cfuns [OF wf(1) tr]]
    by (simp add: program_ok_def linkable_def symbol_capacities capacities)
  from program_file [OF this, of pad zero_program] obtain bin tr1 where
    bin: "tasm_translator_generate_bin pad tr libs = Some (bin, tr1)" by auto
  note f = assembled_program_libs [OF wf const apart tr ne refl room bin assms(3) [unfolded linkable_def, THEN conjunct1]
      assms(3) [unfolded linkable_def, THEN conjunct2]]
  from f obtain cs where cs:
    "assemble (label_entries 0 (flat_lines ls)) (proc_entries 0 ls) (flat_lines ls) = Some cs"
    "length cs \<le> TVM_PROGRAM_CAPACITY" by blast
  then have "assembled_as ls cs" using assembled(2) [OF wf apart tr] by (simp add: assembled_as_def)
  with f cs that [OF ps tr ne bin] show thesis by fastforce
qed

text \<open>C4. The assembler succeeds on what it should: a file whose text the grammar allows, whose names and
  references are in order and which fits into the tables is assembled with exit status 0 to one
  program file, and that file is read as the program of the reference assembler with the constants
  of the source.\<close>

theorem source_builds:
  assumes "cli_tasm_parse_command_line no_args argv = Some (True, args)" and "file_name args = Some fname"
    and "output_name args = Some oname" and "clib_names args = libs" and "\<not> compile args" and "\<not> ast_show args"
    and "fs fname = Some text" and "denotes (text @ [c_eof]) ls" and "length text + 1 < src_arena_capacity"
    and "buildable ls" and "linkable libs ls"
  shows "\<exists>bin cs. tasm_main fs (0 # behind) pad argv = Some (0, [(oname, bin)]) \<and>
    assemble (label_entries 0 (flat_lines ls)) (proc_entries 0 ls) (flat_lines ls) = Some cs \<and>
    (\<forall>p0. \<exists>q. load_program bin p0 = Some q \<and> prog_size q = length cs \<and> (\<forall>i < length cs. code q i = cs ! i) \<and>
      metadata q = set_modules (native_modules libs (declared_functions ls)) (metadata p0) \<and>
      (concat (map (\<lambda>x. data_items (snd x)) (flat_lines ls)) \<noteq> [] \<longrightarrow>
        const_table q = consts_of (concat (map (\<lambda>x. data_items (snd x)) (flat_lines ls)))))"
proof (rule buildable_file [OF assms(8,10,11), where pad = pad])
  fix ps tr bin tr1 cs
  assume b: "parse_source (text @ [c_eof]) = Some (AST_FILE ls, ps)" "\<not> is_err ps"
    "assemble_ast (AST_FILE ls) = Some (Inr tr)" "\<not> tasm_translator_is_err tr"
    "tasm_translator_generate_bin pad tr libs = Some (bin, tr1)"
    "assemble (label_entries 0 (flat_lines ls)) (proc_entries 0 ls) (flat_lines ls) = Some cs"
    "\<And>p0. \<exists>q. load_program bin p0 = Some q \<and> prog_size q = length cs \<and> (\<forall>i < length cs. code q i = cs ! i) \<and>
      metadata q = set_modules (native_modules libs (declared_functions ls)) (metadata p0) \<and>
      referance_count (const_table q) = length (concat (map (\<lambda>x. data_items (snd x)) (flat_lines ls))) \<and>
      (concat (map (\<lambda>x. data_items (snd x)) (flat_lines ls)) \<noteq> [] \<longrightarrow>
        const_table q = consts_of (concat (map (\<lambda>x. data_items (snd x)) (flat_lines ls))))"
  have "tasm_main fs (0 # behind) pad argv = Some (0, [(oname, bin)])"
    using assms(1-7) read_denoted [OF assms(8,9)] b(1-5)
    by (simp add: tasm_main_def write_outputs_def tasm_parser_is_err_def)
  with b(6,7) show ?thesis by blast
qed

lemma print_demo_buildable: "buildable print_demo"
  by (simp add: buildable_def print_demo_def flat_ok_def operand_fits_def jump_ops_def number_ops_def label_fits_def
      scoped_name_def names_apart_def dup_names_def label_entries_def proc_entries_def label_entry_def proc_entry_def
      full_name_def data_bytes_def symbol_capacities capacities program_arena_capacity_def assemble_line_def
      assemble_op_def bytes_of_def byte_of_char_def)

theorem source_builds_witness:
  "\<exists>bin. tasm_main (\<lambda>_. Some (concat (map (\<lambda>l. l @ [c_newline]) (print_lines print_demo)))) [0] (\<lambda>_ _. 0) halt_argv =
     Some (0, [(bytes_of ''out.bin'', bin)])"
proof -
  let ?text = "concat (map (\<lambda>l. l @ [c_newline]) (print_lines print_demo))"
  have d: "denotes (?text @ [c_eof]) print_demo"
    using print_denotes [OF print_demo_ok] by (simp add: print_source_def lines_source_def print_demo_def)
  have l: "length ?text + 1 < src_arena_capacity"
    by (simp add: print_demo_def print_lines_def quoted_def bytes_of_def src_arena_capacity_def)
  have a: "file_name halt_args = Some (bytes_of ''a'')" "output_name halt_args = Some (bytes_of ''out.bin'')"
    "clib_names halt_args = []" "\<not> compile halt_args" "\<not> ast_show halt_args"
    by (simp_all add: halt_args_def no_args_def)
  have f: "(\<lambda>_. Some ?text) (bytes_of ''a'') = Some ?text" by simp
  from source_builds [OF halt_cli a f d l print_demo_buildable linkable_none, of "[]" "\<lambda>_ _. 0"] show ?thesis by blast
qed

subsection \<open>From a source file to its output\<close>

text \<open>C2. Assembling a source file and running the result does what the source says: when the assembler
  has succeeded and the virtual machine, run on the file it has written, ends, then the interpreter of
  the source's lines ends within the same number of steps, started in a fresh machine with the
  constants of the source in its memory. The exit status is 0 when it has halted and 1 when it has
  raised an exception, and the standard output is what the program has printed, followed by the
  closing message when it has halted.\<close>

theorem toolchain_runs_source:
  assumes "tasm_main fs behind pad argv = Some (0, (oname, bin) # others)"
    and "cli_tasm_parse_command_line no_args argv = Some (True, args)" and "clib_names args = []"
    and "file_name args = Some fname" and "read_file_content (fs fname) behind = Some (Inr src)"
    and "parse_source src = Some (AST_FILE ls, ps)"
    and "names_apart (label_entries 0 (flat_lines ls)) (proc_entries 0 ls)"
    and "bss = concat (map (\<lambda>x. data_items (snd x)) (flat_lines ls))"
    and "8 * length bss \<le> program_arena_capacity" and "length (concat bss) \<le> program_arena_capacity"
    and "op_count (flat_lines ls) < TVM_PROGRAM_CAPACITY"
    and "fs' oname = Some bin" and "env = \<lparr>policy_of = al, junk_of = jk, ffi = ff, tci = tci_init\<rparr>"
    and "tvm_main n al jk ff fs' m [prog, oname] = Some (Exited st printed)"
  shows "\<exists>vm m0 p a m1. vm = (tvm_init m0)\<lparr>program := p, data_ptr := a, mem := m1\<rparr> \<and>
    (bss \<noteq> [] \<longrightarrow> const_table p = consts_of bss \<and> mem_read m1 a (length (concat bss)) = Some (concat bss)) \<and>
    (case src_run n env ls (src_init ls vm) of
       Some (Src_Halted s) \<Rightarrow> st = 0 \<and> printed = out (src_vm s) @ halted_message
     | Some (Src_Raised e s) \<Rightarrow> st = 1 \<and> printed = out (src_vm s)
     | _ \<Rightarrow> False)"
  using assms(1-6)
proof (rule tasm_main_lines)
  fix tr tr1 assume t: "assemble_ast (AST_FILE ls) = Some (Inr tr)"
    "\<not> tasm_translator_is_err tr" "tasm_translator_generate_bin pad tr [] = Some (bin, tr1)"
    "list_all wf_line ls" "list_all (\<lambda>x. operands_ok (snd x)) (flat_lines ls)"
    "list_all (\<lambda>x. constant_line (snd x)) (flat_lines ls)"
  obtain ar1 m1 ar2 m2 where ar: "arena_init al jk m tci_arena_capacity = (ar1, m1)"
    "arena_init al jk m1 program_arena_capacity = (ar2, m2)" by (metis surj_pair)
  have cli: "cli_tvm_parse_command_line no_args [prog, oname] = Some (True, no_args\<lparr>file_name := Some oname\<rparr>)"
    by (simp add: cli_tvm_parse_command_line_def cli_tvm_usage_def)
  from assms(14) obtain vm ar3 natives where
    l: "tvm_load_program_from_file env bin ar2 (tvm_init m2) = Some (vm, ar3)" and
    r: "load_natives ff tci_init vm = Some natives" "(case natives of
       Inl (k, printed) \<Rightarrow> Some (Exited k printed)
     | Inr (tc, vm1) \<Rightarrow> run_and_finish n \<lparr>policy_of = al, junk_of = jk, ffi = ff, tci = tc\<rparr> ar3 ar1 vm1) = Some (Exited st printed)"
    unfolding tvm_main_def cli assms(13) by (auto simp: ar assms(12) no_args_def)
  from loaded_code [OF t(4-6) assms(7) t(1,2) assms(8-10) t(3) l] obtain cs where
    c: "assembled_as ls cs" "holds_code cs vm" "zero_behind vm" "module_count (metadata (program vm)) = 0"
    "bss \<noteq> [] \<Longrightarrow> const_table (program vm) = consts_of bss"
    "bss \<noteq> [] \<Longrightarrow> mem_read (mem vm) (data_ptr vm) (length (concat bss)) = Some (concat bss)"
    using assms(11) by metis
  note shape = load_keeps [OF l]
  have "natives = Inr (tci_init, vm)" using r(1) load_natives_none [OF c(4), of ff tci_init] by simp
  with r(2) have run: "run_and_finish n env ar3 ar1 vm = Some (Exited st printed)" by (simp add: assms(13))
  have "simulates (flat_lines ls) (src_init ls vm) vm"
    by (rule simulates_init; subst shape; simp)
  from run_sim [OF c(1-3) this, of env n] have sim: "sim_outcome env n vm (src_run n env ls (src_init ls vm))" .
  have "tci_module_count (tci env) = 0" by (simp add: assms(13) tci_init_def)
  with run have "case src_run n env ls (src_init ls vm) of
       Some (Src_Halted s) \<Rightarrow> st = 0 \<and> printed = out (src_vm s) @ halted_message
     | Some (Src_Raised e s) \<Rightarrow> st = 1 \<and> printed = out (src_vm s)
     | _ \<Rightarrow> False"
  proof (cases rule: run_and_finish_cases)
    case (1 vm')
    with ended_sim(1) [OF sim 1(1)] show ?thesis by auto
  next
    case (2 e vm')
    with ended_sim(2) [OF sim 2(1)] show ?thesis by auto
  qed
  with shape c(5,6) show ?thesis by blast
qed

lemma halt_runs:
  assumes "load_program bin zero_program = Some q" "prog_size q = 1" "code q 0 = plain_opcode OP_HALT"
    "referance_count (const_table q) = 0" "module_count (metadata q) = 0"
  shows "tvm_main 1 bump_alloc (\<lambda>_. 0) adding_ffi (\<lambda>_. Some bin) empty_memory [[116], bytes_of ''out.bin''] =
    Some (Exited 0 halted_message)"
proof -
  have cli: "cli_tvm_parse_command_line no_args [[116], x] = Some (True, no_args\<lparr>file_name := Some x\<rparr>)" for x
    by (simp add: cli_tvm_parse_command_line_def cli_tvm_usage_def)
  obtain m1 where m1: "arena_init bump_alloc (\<lambda>_. 0) empty_memory tci_arena_capacity =
      ([\<lparr>ar_size = 0, ar_capacity = 4096, ar_memory = 16\<rparr>], m1)" "chunks m1 = [16 \<mapsto> 4096]" "brk m1 = 4112"
    by (simp add: arena_init_def c_malloc_def bump_alloc_def empty_memory_def tci_arena_capacity_def
        del: upt_rec_numeral)
  obtain m2 where m2: "arena_init bump_alloc (\<lambda>_. 0) m1 program_arena_capacity =
      ([\<lparr>ar_size = 0, ar_capacity = 1024, ar_memory = 4128\<rparr>], m2)" "chunks m2 = [16 \<mapsto> 4096, 4128 \<mapsto> 1024]"
    by (simp add: arena_init_def c_malloc_def bump_alloc_def m1 program_arena_capacity_def del: upt_rec_numeral)
  let ?env = "\<lparr>policy_of = bump_alloc, junk_of = (\<lambda>_. 0), ffi = adding_ffi, tci = tci_init\<rparr>"
  let ?vm = "tvm_init m2\<lparr>program := q\<rparr>"
  have l: "tvm_load_program_from_file ?env bin ar (tvm_init m2) = Some (?vm, ar)" for ar
    using assms(1,4) by (simp add: tvm_load_program_from_file_def)
  have "tvm_exec_opcode ?env ?vm = Some (EXCEPT_OK, next_ip (?vm\<lparr>halted := True\<rparr>))"
    using assms(2,3) by (simp add: tvm_exec_opcode_def plain_opcode_def op_halt_def capacities del: optype_code.simps)
  then have run: "tvm_run_loop 1 ?env ?vm = Some (Halted (tick (next_ip (?vm\<lparr>halted := True\<rparr>))))"
    by (simp add: running_def next_ip_def)
  have "\<exists>vm'. tvm_run 1 ?env ?vm = Some (Halted vm') \<and> out vm' = halted_message \<and> chunks (mem vm') = chunks m2"
    unfolding tvm_run_def run
    by (simp add: tgc_destroy_def next_ip_def tvm_init_def tvm_frame_init_def tvm_frame_free_def
        empty_heap_def halted_message_def tick_def)
  then obtain vm' where r: "tvm_run 1 ?env ?vm = Some (Halted vm')" "out vm' = halted_message"
    "chunks (mem vm') = [16 \<mapsto> 4096, 4128 \<mapsto> 1024]" using m2(2) by auto
  have "tvm_main 1 bump_alloc (\<lambda>_. 0) adding_ffi (\<lambda>_. Some bin) empty_memory [[116], bytes_of ''out.bin''] =
    run_and_finish 1 ?env [\<lparr>ar_size = 0, ar_capacity = 1024, ar_memory = 4128\<rparr>]
      [\<lparr>ar_size = 0, ar_capacity = 4096, ar_memory = 16\<rparr>] ?vm"
    unfolding tvm_main_def cli by (simp add: m1(1) m2(1) l load_natives_none assms(5) del: One_nat_def)
  also have "\<dots> = Some (Exited 0 halted_message)"
    unfolding run_and_finish_def r(1)
    by (simp add: r(2,3) tvm_finish_def tci_unload_all_def tci_init_def tvm_destroy_def tci_destroy_def
        arena_destroy_def c_free_def)
  finally show ?thesis .
qed

theorem toolchain_runs_source_witness:
  "\<exists>bin. tasm_main halt_fs [0] (\<lambda>_ _. 0) halt_argv = Some (0, [(bytes_of ''out.bin'', bin)]) \<and>
     (\<exists>vm s. src_run 1 demo_env halt_lines (src_init halt_lines vm) = Some (Src_Halted s) \<and> out (src_vm s) = [])"
proof (rule halt_build)
  fix ps bin q assume b: "parse_source halt_source = Some (AST_FILE halt_lines, ps)"
    "tasm_main halt_fs [0] (\<lambda>_ _. 0) halt_argv = Some (0, [(bytes_of ''out.bin'', bin)])"
    "load_program bin zero_program = Some q" "prog_size q = 1" "code q 0 = plain_opcode OP_HALT"
    "referance_count (const_table q) = 0" "module_count (metadata q) = 0"
  from toolchain_runs_source [OF b(2) halt_cli halt_args_simps halt_read b(1) halt_apart refl _ _ _ refl
      demo_env_def halt_runs [OF b(3-7)]]
  obtain vm where "case src_run 1 demo_env halt_lines (src_init halt_lines vm) of
       Some (Src_Halted s) \<Rightarrow> (0 :: int) = 0 \<and> halted_message = out (src_vm s) @ halted_message
     | Some (Src_Raised e s) \<Rightarrow> (0 :: int) = 1 \<and> halted_message = out (src_vm s)
     | _ \<Rightarrow> False"
    by (auto simp: program_arena_capacity_def capacities simp del: src_run.simps)
  then have "\<exists>s. src_run 1 demo_env halt_lines (src_init halt_lines vm) = Some (Src_Halted s) \<and> out (src_vm s) = []"
    by (auto simp del: src_run.simps split: option.splits src_outcome.splits)
  with b(2) show ?thesis by blast
qed

subsection \<open>The back end for nasm\<close>

text \<open>C39. The text for nasm: for the lines of an assembled file the compiler of \<open>tasmc.c\<close> returns exactly
  when every instruction has a case in it, and then the text is the frame of the file around the texts
  of \<open>nop\<close>, \<open>push\<close>, \<open>pop\<close>, \<open>add\<close> and \<open>hlt\<close>, in order: every other instruction is left out of the
  program without a message.\<close>

theorem nasm_keeps_five_instructions:
  assumes "list_all wf_line ls" and "list_all (\<lambda>x. operands_ok (snd x)) (flat_lines ls)"
    and "list_all (\<lambda>x. constant_line (snd x)) (flat_lines ls)"
  shows "map_option fst (tasmc_compile_nasm (AST_FILE ls)) =
    (if list_all (\<lambda>x. compilable (snd x)) (flat_lines ls)
     then Some (nasm_file @ concat (map (\<lambda>x. line_text (snd x))
       (filter (\<lambda>x. \<exists>op name oprnd. snd x = AST_OP op name oprnd \<and> op \<in> {OP_NOP, OP_PUSH, OP_POP, OP_ADD, OP_HALT})
         (flat_lines ls))) @ nasm_stack)
     else None)"
proof -
  have "flat_fits (flat_lines ls)" using assms(2,3) by (simp add: flat_fits_def list_all_iff)
  moreover have "flat_text fl = concat (map (\<lambda>x. line_text (snd x))
       (filter (\<lambda>x. \<exists>op name oprnd. snd x = AST_OP op name oprnd \<and> op \<in> {OP_NOP, OP_PUSH, OP_POP, OP_ADD, OP_HALT}) fl))"
    for fl
  proof (induction fl)
    case (Cons x fl)
    then show ?case by (cases "snd x") auto
  qed simp
  ultimately show ?thesis using nasm_text [OF assms(1)] by (simp add: asm_of_def flat_compilable_def map_option_case)
qed

theorem nasm_keeps_five_instructions_witness:
  "map_option fst (tasmc_compile_nasm (AST_FILE [opn OP_NOP, opn OP_SUB, opn OP_ADD])) =
     Some (nasm_file @ nasm_nop @ nasm_add @ nasm_stack) \<and>
   map_option fst (tasmc_compile_nasm (AST_FILE [opn OP_BAND])) = None"
proof
  note t = nasm_keeps_five_instructions
  show "map_option fst (tasmc_compile_nasm (AST_FILE [opn OP_NOP, opn OP_SUB, opn OP_ADD])) =
     Some (nasm_file @ nasm_nop @ nasm_add @ nasm_stack)"
    by (subst t) (simp_all add: opn_def operand_fits_def jump_ops_def number_ops_def nasm_ops_def silent_ops_def)
  show "map_option fst (tasmc_compile_nasm (AST_FILE [opn OP_BAND])) = None"
    by (subst t) (simp_all add: opn_def operand_fits_def jump_ops_def number_ops_def nasm_ops_def silent_ops_def)
qed

end
