(* ===== verification/Tvm_Dump.thy ===== *)
theory Tvm_Dump
  imports Tvm_Invariants
begin

text \<open>
  The dump of the operand stack, \<open>tvm_stack_dump\<close> of \<open>include/tvm/tvm.h\<close>, which the code has calls of
  in comments only, and the conversions of \<open>printf\<close> it uses, as the C library of the target writes
  them: \<open>%08x\<close>, \<open>%f\<close> (rounded to six decimals, ties to even, from the exact value) and \<open>%p\<close>.
\<close>

definition hex_digit :: "nat \<Rightarrow> u8" where
  "hex_digit d = word_of_nat (if d < 10 then 48 + d else 87 + d)"

fun hex_nat :: "nat \<Rightarrow> bytes" where
  "hex_nat n = (if n < 16 then [hex_digit n] else hex_nat (n div 16) @ [hex_digit (n mod 16)])"

declare hex_nat.simps [simp del]

definition zero_padded :: "nat \<Rightarrow> bytes \<Rightarrow> bytes" where
  "zero_padded k s = replicate (k - length s) 48 @ s"

definition fmt_08x :: "u32 \<Rightarrow> bytes" where
  "fmt_08x w = zero_padded 8 (hex_nat (unat w))"

definition fmt_p :: "u64 \<Rightarrow> bytes" where
  "fmt_p w = (if w = 0 then bytes_of ''(nil)'' else bytes_of ''0x'' @ hex_nat (unat w))"

definition fmt_f :: "u32 \<Rightarrow> bytes" where
  "fmt_f w = (if f32_sign w then [45] else []) @
     (if f32_is_nan w then bytes_of ''nan'' else if f32_is_inf w then bytes_of ''inf''
      else let q = rne (f32_mag w * 10 ^ 6) (2 ^ 149)
           in dec_nat (q div 10 ^ 6) @ 46 # zero_padded 6 (dec_nat (q mod 10 ^ 6)))"

definition dump_line :: "nat \<Rightarrow> object_t \<Rightarrow> bytes" where
  "dump_line i ob = bytes_of ''0x'' @ fmt_08x (word_of_nat i) @ bytes_of '': '' @
     fmt_d (sint (ui32 ob)) @ bytes_of '' (as int), '' @ fmt_f (ui32 ob) @ bytes_of '' (as float), '' @
     fmt_p (ui64 ob) @ bytes_of '' (as ptr)'' @ [10]"

definition tvm_stack_dump :: "machine \<Rightarrow> machine option" where
  "tvm_stack_dump vm = do {
     guard_c (sp vm \<le> TVM_STACK_CAPACITY);
     Some (vm\<lparr>out := out vm @ bytes_of ''stack:'' @ [10] @
       concat (map (\<lambda>i. dump_line i (stack vm i)) [0..<sp vm])\<rparr>) }"

text \<open>Tenths are printed exactly rounded: the float next to 0.1 as \<open>0.100000\<close>.\<close>

lemma dec_nat_numeral:
  "numeral k < (10 :: nat) \<Longrightarrow> dec_nat (numeral k) = [48 + word_of_nat (numeral k)]"
  "\<not> numeral k < (10 :: nat) \<Longrightarrow>
     dec_nat (numeral k) = dec_nat (numeral k div 10) @ [48 + word_of_nat (numeral k mod 10)]"
  "dec_nat 0 = [48]" "dec_nat (Suc 0) = [49]"
  by (subst dec_nat.simps, simp)+

lemma fmt_f_samples:
  "fmt_f 0x3DCCCCCD = bytes_of ''0.100000''" "fmt_f 0xC0200000 = bytes_of ''-2.500000''"
  by (simp_all add: fmt_f_def f32_sign_def f32_is_nan_def f32_is_inf_def f32_exp_def f32_frac_def f32_mag_def
      rne_def Let_def zero_padded_def dec_nat_numeral bytes_of_def byte_of_char_def)

text \<open>In a well-formed machine the dump returns and changes nothing but the output.\<close>

lemma stack_dump_keeps:
  assumes "vm_ok vm"
  shows "\<exists>s. tvm_stack_dump vm = Some (vm\<lparr>out := out vm @ s\<rparr>)"
  using assms by (simp add: tvm_stack_dump_def vm_ok_def) (rule exI, rule refl)

end
