(* ===== verification/Tvm_Keeps.thy ===== *)
theory Tvm_Keeps
  imports Tvm_Run Arena
begin

text \<open>
  What a process holds besides the array of the heap stays allocated while the machine runs: a run
  allocates, and moves the array when it grows, and releases nothing else.
\<close>

text \<open>The chunks without that of the array.\<close>

definition others :: "memory \<Rightarrow> gc_heap \<Rightarrow> nat \<rightharpoonup> nat" where
  "others m h = (if h_ptr h = 0 then chunks m else (chunks m)(h_ptr h - stb_header_size := None))"

lemma others_null: "h_ptr h = 0 \<Longrightarrow> others m h = chunks m" by (simp add: others_def)

lemma others_sub: "others m h \<subseteq>\<^sub>m chunks m" by (auto simp: others_def map_le_def)

lemma others_grow: "chunks m \<subseteq>\<^sub>m chunks m' \<Longrightarrow> others m h \<subseteq>\<^sub>m others m' h"
  by (auto simp: others_def map_le_def dom_def)

lemma others_cong: "chunks m' = chunks m \<Longrightarrow> h_ptr h' = h_ptr h \<Longrightarrow> others m' h' = others m h"
  by (simp add: others_def)

context allocator
begin

lemma malloc_chunks: "mem_ok m \<Longrightarrow> c_malloc al jk m n = (a, m') \<Longrightarrow> chunks m \<subseteq>\<^sub>m chunks m'"
  using malloc_fresh(2,7) [of m jk n a m'] malloc_null [of jk m n m']
  by (cases "a = 0") (auto simp: map_le_def)

lemma arrmaybegrow_others:
  assumes ok: "mem_ok m" "arr_ok m h" and run: "arrmaybegrow al jk m h n = Some (m', h')" and n: "0 < n"
  shows "others m h \<subseteq>\<^sub>m others m' h'"
proof -
  let ?p = "if h_ptr h = 0 then 0 else h_ptr h - stb_header_size"
  let ?cap = "arr_new_cap (h_len h) (h_cap h) n"
  consider "m' = m" "h' = h" | b where "b \<noteq> 0"
      "c_realloc al jk m ?p (gc_block_size * ?cap + stb_header_size) = Some (b, m')"
      "h_ptr h' = b + stb_header_size"
    using run by (auto simp: arrmaybegrow_def arrgrow_def Let_def split: if_splits)
  then show ?thesis
  proof cases
    case (2 b)
    show ?thesis
    proof (cases "h_ptr h = 0")
      case True
      with 2 have "c_malloc al jk m (gc_block_size * ?cap + stb_header_size) = (b, m')" by (simp add: c_realloc_def)
      from malloc_fresh(2,7) [OF ok(1) this 2(1)] True 2(3) show ?thesis
        by (auto simp: others_def map_le_def)
    next
      case False
      then have p: "?p \<noteq> 0" "chunks m ?p = Some (gc_block_size * h_cap h + stb_header_size)"
        using ok(2) by (auto simp: arr_ok_def)
      have le: "gc_block_size * h_cap h + stb_header_size \<le> gc_block_size * ?cap + stb_header_size"
        using arr_new_cap_ge by simp
      obtain m1 where m1: "c_free m ?p = Some m1" "chunks m1 = (chunks m)(?p := None)" using p by (simp add: c_free_def)
      obtain q m2 where q: "c_malloc al jk m1 (gc_block_size * ?cap + stb_header_size) = (q, m2)"
        by (cases "c_malloc al jk m1 (gc_block_size * ?cap + stb_header_size)")
      have "q = b" using 2(1,2) p m1(1) q by (auto simp: c_realloc_def split: if_splits)
      with malloc_fresh(7) [OF free_ok [OF ok(1) m1(1)] q] 2(1) m1(2) have "others m h b = None"
        using False by (simp add: others_def)
      moreover have "chunks m' = (chunks m)(?p := None, b \<mapsto> gc_block_size * ?cap + stb_header_size)"
        by (rule realloc_grow(2) [OF ok(1) p le 2(2,1)])
      ultimately show ?thesis using False 2(3) by (auto simp: others_def map_le_def)
    qed
  qed simp
qed

lemma arrput_others:
  assumes ok: "mem_ok m" "arr_ok m h" and run: "arrput al jk m h b = Some (m', h')"
  shows "others m h \<subseteq>\<^sub>m others m' h'"
proof -
  obtain m1 h1 where g: "arrmaybegrow al jk m h 1 = Some (m1, h1)"
    and w: "mem_write m1 (block_addr h1 (h_len h1)) (block_bytes b) = Some m'" and h: "h_ptr h' = h_ptr h1"
    using run by (auto simp: arrput_def block_write_def)
  from arrmaybegrow_others [OF ok g] others_cong [OF mem_write_keeps(1) [OF w] h] show ?thesis by simp
qed

lemma arraddnptr_others:
  assumes ok: "mem_ok m" "arr_ok m h" and run: "arraddnptr al jk m h n = Some (m', h')" and n: "0 < n"
  shows "others m h \<subseteq>\<^sub>m others m' h'"
proof -
  obtain h1 where g: "arrmaybegrow al jk m h n = Some (m', h1)" and h: "h_ptr h' = h_ptr h1"
    using run by (auto simp: arraddnptr_def)
  from arrmaybegrow_others [OF ok g n] others_cong [OF refl h] show ?thesis by simp
qed

lemma create_block_others:
  assumes ok: "mem_ok m" "heap_ok m h" and sz: "sz < 2 ^ 64" "pc < 2 ^ 64"
    and run: "tgc_create_block al jk m h sz pc = Some (a, m', h')"
  shows "others m h \<subseteq>\<^sub>m others m' h'"
proof -
  obtain v m0 where v: "c_malloc al jk m sz = (v, m0)" by (cases "c_malloc al jk m sz")
  let ?b = "\<lparr>gb_value = v, gb_pointer_count = pc, gb_size = sz, gb_pointers = 0, gb_marked = 0\<rparr>"
  obtain m1 h1 h2 where p: "arrput al jk m0 h ?b = Some (m1, h1)"
    and g: "(if pc \<noteq> 0 then arraddnptr al jk m1 h1 pc else Some (m1, h1)) = Some (m', h2)"
    and h': "h_ptr h' = h_ptr h2"
    using run v by (auto simp: tgc_create_block_def Let_def)
  have aok: "arr_ok m h" using ok(2) by (simp add: heap_ok_def)
  have ok0: "mem_ok m0" "arr_ok m0 h" using malloc_ok [OF ok(1) v] malloc_arr_ok [OF ok(1) aok v] by blast+
  have "block_ok ?b" using malloc_below [OF v] sz by (simp add: block_ok_def)
  note pu = arrput_ok(1,2) [OF ok0 p this]
  have "others m1 h1 \<subseteq>\<^sub>m others m' h2"
    using arraddnptr_others [OF pu, of jk pc m' h2] g by (cases "pc = 0") auto
  with arrput_others [OF ok0 p] others_grow [OF malloc_chunks [OF ok(1) v], of h] others_cong [OF refl h', of m']
  show ?thesis by (simp add: map_le_trans)
qed

end

context vm_world
begin

text \<open>One instruction, and a run.\<close>

lemma exec_op_others:
  assumes ok: "vm_ok vm" and run: "exec_op t env opnd vm = Some (EXCEPT_OK, vm')"
  shows "others (mem vm) (heap vm) \<subseteq>\<^sub>m others (mem vm') (heap vm')"
proof -
  have m: "mem_ok (mem vm)" "heap_ok (mem vm) (heap vm)" using ok by (simp_all add: vm_ok_def)
  consider "t = OP_HALLOC" | "t = OP_HSET \<or> t = OP_HSETOF" | "t = OP_NATIVE"
    | "t \<notin> {OP_HALLOC, OP_HSET, OP_HSETOF, OP_NATIVE}" by auto
  then show ?thesis
  proof cases
    case 1
    with run have "halloc_eff env vm vm'" using runs_as_ok [OF op_halloc_runs, of env vm vm'] by simp
    then obtain a where "tgc_create_block (policy_of env) (junk_of env) (mem vm) (heap vm)
        (unat (ui32 (top_obj 2 vm))) (unat (ui32 (top_obj 1 vm))) = Some (a, mem vm', heap vm')"
      by (auto simp: halloc_eff_def)
    moreover have "unat (ui32 ob) < 2 ^ 64" for ob by (rule less_trans [OF unat_u32_less]) simp
    ultimately show ?thesis using create_block_others [OF m] by blast
  next
    case 2
    with run have "hset_eff vm vm'" using runs_as_ok [OF op_hset_runs] runs_as_ok [OF op_hsetof_runs] by auto
    then obtain a bs where "mem_write (mem vm) a bs = Some (mem vm')" "heap vm' = heap vm" by (auto simp: hset_eff_def)
    with mem_write_keeps(1) [of "mem vm" a bs "mem vm'"] show ?thesis by (simp add: others_def)
  next
    case 3
    with run have "native_eff env opnd vm vm'" using runs_as_ok [OF op_native_runs] by simp
    then show ?thesis using native_call_ok [OF m(1)] others_grow by (auto simp: native_eff_def)
  next
    case 4
    with runs_as_ok [OF exec_op_effect run] have "same_mem vm vm'" by (simp add: effect_def)
    then show ?thesis by (simp add: same_mem_def)
  qed
qed

lemma step_others: "vm_ok vm \<Longrightarrow> vm_step env vm vm' \<Longrightarrow> others (mem vm) (heap vm) \<subseteq>\<^sub>m others (mem vm') (heap vm')"
  by (auto elim!: vm_stepE exec_opcode_effect dest: exec_op_others)

lemma reachable_others:
  "reachable env vm vm' \<Longrightarrow> vm_ok vm \<Longrightarrow> others (mem vm) (heap vm) \<subseteq>\<^sub>m others (mem vm') (heap vm')"
proof (induction rule: reachable.induct)
  case (reach_step vm1 vm2)
  with step_others [OF reachable_ok] show ?case by (blast intro: map_le_trans)
qed simp

end

text \<open>The end of a run: the array and the current frame are released, and the rest is still there.\<close>

lemma tgc_destroy_others:
  assumes "arr_ok m h"
  shows "\<exists>m' h'. tgc_destroy m h = Some (m', h') \<and> (mem_ok m \<longrightarrow> mem_ok m') \<and> chunks m' = others m h"
proof (cases "h_ptr h = 0")
  case False
  with assms obtain m' where "c_free m (h_ptr h - stb_header_size) = Some m'" "chunks m' = others m h"
    by (auto simp: arr_ok_def c_free_def others_def)
  with False free_ok [of m _ m'] show ?thesis by (auto simp: tgc_destroy_def)
qed (simp add: tgc_destroy_def others_def)

lemma frames_ok_free: "frames_ok fs a d \<Longrightarrow> tvm_frame_free fs a \<noteq> None"
proof -
  assume "frames_ok fs a d"
  then obtain as where "length as = Suc d" "hd as = a" "linked fs as" by (auto simp: frames_ok_def chain_of_def)
  with linked_cells [of fs as a] show ?thesis by (cases as) (auto simp: tvm_frame_free_def)
qed


end
