(* ===== verification/Tvm_Process.thy ===== *)
theory Tvm_Process
  imports Tvm_Keeps Tvm_Main
begin

text \<open>
  The virtual machine as a process: a machine that has loaded a program holds the buffers of two
  arenas; whatever the program does they are still there at the end, so that every run that the loop
  ends is followed by a release of memory that is defined, and \<open>main\<close> returns.
\<close>

text \<open>The buffers of the arenas are chunks of their own, apart from the array of the heap.\<close>

definition holds_buffers :: "memory \<Rightarrow> gc_heap \<Rightarrow> arena_t \<Rightarrow> bool" where
  "holds_buffers m h ar \<longleftrightarrow> distinct (map ar_memory ar) \<and>
     (\<forall>a \<in> set ar. ar_memory a \<noteq> 0 \<and> others m h (ar_memory a) \<noteq> None)"

lemma holds_buffers_mono:
  "holds_buffers m h ar \<Longrightarrow> others m h \<subseteq>\<^sub>m others m' h' \<Longrightarrow> holds_buffers m' h' ar"
  by (auto simp: holds_buffers_def map_le_def dom_def)

lemma release_arenas:
  assumes "mem_ok m" and "h_ptr h = 0" and "holds_buffers m h (ar1 @ ar2)"
  shows "\<exists>m1 m2. tvm_destroy m ar1 = Some m1 \<and> tci_destroy m1 ar2 = Some m2"
proof -
  have "\<exists>m1. tvm_destroy m ar1 = Some m1 \<and> mem_ok m1 \<and> (\<forall>a \<in> set ar2. chunks m1 (ar_memory a) \<noteq> None)"
  proof (cases "ar1 = []")
    case True
    with assms show ?thesis by (auto simp: tvm_destroy_def holds_buffers_def others_def)
  next
    case False
    have "\<exists>m1. free_all m (rev (map ar_memory ar1)) = Some m1 \<and> mem_ok m1 \<and>
        chunks m1 = (\<lambda>x. if x \<in> set (rev (map ar_memory ar1)) then None else chunks m x)"
      by (rule free_all_ok [OF assms(1)]) (use assms(2,3) in \<open>auto simp: holds_buffers_def others_def\<close>)
    then obtain m1 where m1: "free_all m (rev (map ar_memory ar1)) = Some m1" "mem_ok m1"
      "chunks m1 = (\<lambda>x. if x \<in> ar_memory ` set ar1 then None else chunks m x)" by auto
    have "ar_memory a \<notin> ar_memory ` set ar1" "chunks m (ar_memory a) \<noteq> None" if "a \<in> set ar2" for a
      using that assms(2,3) by (auto simp: holds_buffers_def others_def)
    with m1 False show ?thesis by (simp add: tvm_destroy_def arena_destroy_def)
  qed
  then obtain m1 where m1: "tvm_destroy m ar1 = Some m1" "mem_ok m1" "\<forall>a \<in> set ar2. chunks m1 (ar_memory a) \<noteq> None"
    by blast
  have "\<exists>m2. free_all m1 (rev (map ar_memory ar2)) = Some m2"
    using free_all_ok [OF m1(2), of "rev (map ar_memory ar2)"] m1(3) assms(3) by (auto simp: holds_buffers_def)
  with m1(1) show ?thesis by (auto simp: tci_destroy_def arena_destroy_def)
qed

text \<open>The exit status when the run has halted: the libraries are unloaded before the arenas are released.\<close>

definition unloaded :: "ffi_env \<Rightarrow> tci_t \<Rightarrow> bytes \<Rightarrow> ended" where
  "unloaded ff tc printed = (case tci_unload_all ff tc of Inl k \<Rightarrow> Exited k printed | Inr _ \<Rightarrow> Exited 0 printed)"

lemma unloaded_none: "tci_module_count tc = 0 \<Longrightarrow> unloaded ff tc printed = Exited 0 printed"
  by (simp add: unloaded_def tci_unload_all_def)

context vm_world
begin

lemma halted_run:
  assumes ok: "vm_ok vm" and run: "tvm_run_loop n env vm = Some (Halted vm1)"
  obtains vm' where "tvm_run n env vm = Some (Halted vm')" "out vm' = out vm1 @ halted_message"
    "mem_ok (mem vm')" "h_ptr (heap vm') = 0" "others (mem vm) (heap vm) \<subseteq>\<^sub>m others (mem vm') (heap vm')"
proof -
  have re: "reachable env vm vm1" using run_loop_reachable [OF run] by simp
  note ok1 = reachable_ok [OF re ok]
  obtain m h where g: "tgc_destroy (mem vm1) (heap vm1) = Some (m, h)" "mem_ok m"
    "chunks m = others (mem vm1) (heap vm1)"
    using tgc_destroy_others [of "mem vm1" "heap vm1"] ok1 by (auto simp: vm_ok_def heap_ok_def)
  have h: "h_ptr h = 0" using g(1) by (auto simp: tgc_destroy_def split: if_splits)
  obtain fs where fs: "tvm_frame_free (frames vm1) (frame vm1) = Some fs"
    using frames_ok_free ok1 unfolding vm_ok_def by blast
  let ?vm = "vm1\<lparr>mem := m, heap := h, frames := fs, out := out vm1 @ halted_message\<rparr>"
  show thesis
    by (rule that [of ?vm]) (use run g fs h reachable_others [OF re ok] in
        \<open>simp_all add: tvm_run_def halted_message_def others_null\<close>)
qed

text \<open>The end of the process is that of the loop, unless a library cannot be unloaded.\<close>

lemma run_and_finish_total:
  assumes ok: "vm_ok vm" and buffers: "holds_buffers (mem vm) (heap vm) (ar1 @ ar2)"
  shows "run_and_finish n env ar1 ar2 vm = (case tvm_run_loop n env vm of
      None \<Rightarrow> None
    | Some (Halted vm1) \<Rightarrow> Some (unloaded (ffi env) (tci env) (out vm1 @ halted_message))
    | Some (Raised e vm1) \<Rightarrow> Some (Exited 1 (out vm1))
    | Some (Running vm1) \<Rightarrow> Some Unfinished)"
proof (cases "tvm_run_loop n env vm")
  case None
  then show ?thesis by (simp add: run_and_finish_def tvm_run_def)
next
  case (Some r)
  show ?thesis
  proof (cases r)
    case (Halted vm1)
    obtain vm' where v: "tvm_run n env vm = Some (Halted vm')" "out vm' = out vm1 @ halted_message"
      "mem_ok (mem vm')" "h_ptr (heap vm') = 0" "others (mem vm) (heap vm) \<subseteq>\<^sub>m others (mem vm') (heap vm')"
      using halted_run [OF ok Some [unfolded Halted]] by blast
    from release_arenas [OF v(3,4) holds_buffers_mono [OF buffers v(5)]] obtain m1 m2 where
      "tvm_destroy (mem vm') ar1 = Some m1" "tci_destroy m1 ar2 = Some m2" by blast
    with v(1,2) Some Halted show ?thesis
      by (simp add: run_and_finish_def tvm_finish_def unloaded_def split: sum.splits)
  qed (use Some in \<open>simp_all add: run_and_finish_def tvm_run_def\<close>)
qed

text \<open>The start of the process.\<close>

lemma arena_init_holds:
  assumes "mem_ok m" and "arena_init (policy_of env) jk m n = (ar, m')" and "\<forall>a \<in> set ar. ar_memory a \<noteq> 0"
  obtains p where "p \<noteq> 0" "ar = [\<lparr>ar_size = 0, ar_capacity = n, ar_memory = p\<rparr>]" "mem_ok m'"
    "chunks m' = (chunks m)(p \<mapsto> n)" "chunks m p = None" "mem_ok_range m' p n"
proof -
  obtain p where p: "c_malloc (policy_of env) jk m n = (p, m')" "ar = [\<lparr>ar_size = 0, ar_capacity = n, ar_memory = p\<rparr>]"
    using assms(2) by (auto simp: arena_init_def split: prod.splits)
  with assms(3) have "p \<noteq> 0" by simp
  with malloc_fresh [OF assms(1) p(1)] malloc_ok [OF assms(1) p(1)] p(2) that show thesis by blast
qed

lemma process_start:
  assumes ok: "mem_ok m" and a1: "arena_init (policy_of env) (junk_of env) m tci_arena_capacity = (far, m1)"
    and a2: "arena_init (policy_of env) (junk_of env) m1 program_arena_capacity = (par, m2)"
    and nn: "\<forall>a \<in> set (far @ par). ar_memory a \<noteq> 0"
    and q: "load_program bin zero_program = Some q"
    and ct: "referance_count (const_table q) = 0 \<or>
      length (data (const_table q)) = data_size (const_table q) \<and> data_size (const_table q) \<le> program_arena_capacity"
  obtains vm par' where "tvm_load_program_from_file env bin par (tvm_init m2) = Some (vm, par')"
    "vm_ok vm" "holds_buffers (mem vm) (heap vm) (par' @ far)"
proof -
  from nn have nn': "\<forall>a \<in> set far. ar_memory a \<noteq> 0" "\<forall>a \<in> set par. ar_memory a \<noteq> 0" by auto
  obtain p1 where p1: "p1 \<noteq> 0" "far = [\<lparr>ar_size = 0, ar_capacity = tci_arena_capacity, ar_memory = p1\<rparr>]" "mem_ok m1"
    "chunks m1 = (chunks m)(p1 \<mapsto> tci_arena_capacity)"
    using arena_init_holds [OF ok a1 nn'(1)] by metis
  obtain p2 where p2: "p2 \<noteq> 0" "par = [\<lparr>ar_size = 0, ar_capacity = program_arena_capacity, ar_memory = p2\<rparr>]" "mem_ok m2"
    "chunks m2 = (chunks m1)(p2 \<mapsto> program_arena_capacity)" "chunks m1 p2 = None" "mem_ok_range m2 p2 program_arena_capacity"
    using arena_init_holds [OF p1(3) a2 nn'(2)] by metis
  have init: "heap (tvm_init m2) = empty_heap" "mem (tvm_init m2) = m2" "program (tvm_init m2) = zero_program"
    by (simp_all add: tvm_init_def tvm_frame_init_def)
  have held: "holds_buffers m3 empty_heap (\<lparr>ar_size = k, ar_capacity = program_arena_capacity, ar_memory = p2\<rparr> # far)"
    if "chunks m3 = chunks m2" for m3 k
    using p1 p2 that by (auto simp: holds_buffers_def others_def empty_heap_def)
  note vi = vm_ok_init [OF p2(3)]
  show thesis
  proof (cases "referance_count (const_table q) = 0")
    case True
    then have l: "tvm_load_program_from_file env bin par (tvm_init m2) = Some (tvm_init m2\<lparr>program := q\<rparr>, par)"
      using q by (simp add: tvm_load_program_from_file_def init)
    have "vm_ok (tvm_init m2\<lparr>program := q\<rparr>)" using vi by (simp add: vm_ok_def tvm_init_def tvm_frame_init_def)
    with l held [of m2 0] that show thesis by (simp add: p2(2) init)
  next
    case False
    let ?d = "data (const_table q)" and ?n = "data_size (const_table q)"
    from False ct have d: "length ?d = ?n" "?n \<le> program_arena_capacity" by auto
    obtain a par' where al: "arena_alloc (policy_of env) (junk_of env) m2 par ?n = Some (a, par', m2)" "?n = 0 \<or> a = p2"
      "\<exists>k. par' = [\<lparr>ar_size = k, ar_capacity = program_arena_capacity, ar_memory = p2\<rparr>]"
      using d(2) by (cases "?n = 0") (auto simp: arena_alloc_def p2(2))
    have "mem_ok_range m2 a ?n"
      using al(2) mem_ok_range_mono [OF p2(6), of p2 ?n] d(2) by (auto simp: mem_ok_range_def)
    then obtain m3 where m3: "mem_write m2 a ?d = Some m3" by (simp add: mem_write_def d(1))
    let ?vm = "tvm_init m2\<lparr>program := q, data_ptr := a, mem := m3\<rparr>"
    have l: "tvm_load_program_from_file env bin par (tvm_init m2) = Some (?vm, par')"
      using q al(1) m3 False by (simp add: tvm_load_program_from_file_def init)
    have "heap_ok m3 empty_heap" by (rule heap_ok_empty)
    then have "vm_ok ?vm"
      using vi write_ok [OF p2(3) m3] by (simp add: vm_ok_def tvm_init_def tvm_frame_init_def)
    with l held [OF mem_write_keeps(1) [OF m3]] al(3) that show thesis by (auto simp: init)
  qed
qed

end

end
