(* ===== verification/Source_Runs.thy ===== *)
theory Source_Runs
  imports Toolchain_Properties Tvm_Process
begin

text \<open>
  From a source text to the end of the process: assembling and running as one function of the source,
  with nothing assumed of either program's success.
\<close>

text \<open>What \<open>main\<close> of the virtual machine returns, read off the interpreter of the source. When the
  interpreter halts after all \<open>n\<close> steps the loop may have one more instruction to look at, the one
  behind the program.\<close>

definition process_end :: "ffi_env \<Rightarrow> tci_t \<Rightarrow> src_outcome option \<Rightarrow> ended option" where
  "process_end ff tc r = (case r of
     None \<Rightarrow> None
   | Some (Src_Halted s) \<Rightarrow> Some (unloaded ff tc (out (src_vm s) @ halted_message))
   | Some (Src_Raised e s) \<Rightarrow> Some (Exited 1 (out (src_vm s)))
   | Some (Src_Running s) \<Rightarrow> Some Unfinished)"

definition steps_for :: "src_outcome option \<Rightarrow> nat \<Rightarrow> nat" where
  "steps_for r n = (case r of Some (Src_Halted s) \<Rightarrow> Suc n | _ \<Rightarrow> n)"

text \<open>The process that a source with the declarations in \<open>vm\<close> stands for, with \<open>n\<close> steps of its interpreter:
  the first library is loaded and the declared functions are prepared before the run. With it comes the
  number of instructions that \<open>main\<close> is allowed.\<close>

definition source_process ::
  "nat \<Rightarrow> policy \<Rightarrow> junk \<Rightarrow> ffi_env \<Rightarrow> tasm_ast list \<Rightarrow> machine \<Rightarrow> nat \<times> ended option" where
  "source_process n al jk ff ls vm = (case load_natives ff tci_init vm of
     None \<Rightarrow> (n, None)
   | Some (Inl (k, printed)) \<Rightarrow> (n, Some (Exited k printed))
   | Some (Inr (tc, vm1)) \<Rightarrow>
       (let r = src_run n \<lparr>policy_of = al, junk_of = jk, ffi = ff, tci = tc\<rparr> ls (src_init ls vm1)
        in (steps_for r n, process_end ff tc r)))"

lemma load_natives_keeps: "load_natives ff tc0 vm = Some (Inr (tc, vm1)) \<Longrightarrow> vm1 = vm\<lparr>out := out vm1\<rparr>"
  by (erule loaded_natives) auto

context vm_world
begin

lemma process_of_source:
  assumes "assembled_as ls cs" and "holds_code cs vm" and "zero_behind vm"
    and "ip vm = 0" and "rsp vm = 0" and "vm_ok vm" and "holds_buffers (mem vm) (heap vm) (ar1 @ ar2)"
  shows "run_and_finish (steps_for (src_run n env ls (src_init ls vm)) n) env ar1 ar2 vm =
    process_end (ffi env) (tci env) (src_run n env ls (src_init ls vm))"
proof -
  note total = run_and_finish_total [OF assms(6,7)]
  have out: "out vm' = out (src_vm s)" if "strip vm' = src_vm s" for vm' s
    using that strip_simps(10) [of vm'] by simp
  from run_sim [OF assms(1-3) simulates_init [OF assms(4,5)], of env n] show ?thesis
    by (auto simp: sim_outcome_def process_end_def steps_for_def total dest!: out
        simp del: tvm_run_loop.simps src_run.simps split: option.splits src_outcome.splits)
qed

text \<open>The contract of the environment does not mention the loaded libraries.\<close>

lemma any_libraries: "vm_world (env\<lparr>tci := tc\<rparr>)"
  by unfold_locales (use al_fresh al_new al_aligned al_range native_law in auto)

lemma natives_process:
  assumes "load_natives (ffi env) tci_init vm = Some (Inr (tc, vm1))"
    and "assembled_as ls cs" and "holds_code cs vm" and "zero_behind vm"
    and "ip vm = 0" and "rsp vm = 0" and "vm_ok vm" and "holds_buffers (mem vm) (heap vm) (ar1 @ ar2)"
  shows "run_and_finish (fst (source_process n (policy_of env) (junk_of env) (ffi env) ls vm)) (env\<lparr>tci := tc\<rparr>) ar1 ar2 vm1 =
    snd (source_process n (policy_of env) (junk_of env) (ffi env) ls vm)"
proof -
  obtain printed where v: "vm1 = vm\<lparr>out := printed\<rparr>" using load_natives_keeps [OF assms(1)] by blast
  have e: "env\<lparr>tci := tc\<rparr> = \<lparr>policy_of = policy_of env, junk_of = junk_of env, ffi = ffi env, tci = tc\<rparr>" by simp
  from assms(3-8) have "holds_code cs vm1" "zero_behind vm1" "ip vm1 = 0" "rsp vm1 = 0" "vm_ok vm1"
    "holds_buffers (mem vm1) (heap vm1) (ar1 @ ar2)"
    by (simp_all add: v holds_code_def zero_behind_def vm_ok_def)
  from vm_world.process_of_source [OF any_libraries assms(2) this, of n tc] show ?thesis
    by (simp add: source_process_def assms(1) Let_def e del: src_run.simps)
qed

text \<open>A program file in a process: \<open>main\<close> of \<open>tvm\<close> on a file that is read as the code of the source.\<close>

lemma built_process:
  assumes "mem_ok m" and "arena_init (policy_of env) (junk_of env) m tci_arena_capacity = (far, m1)"
    and "arena_init (policy_of env) (junk_of env) m1 program_arena_capacity = (par, m2)"
    and "\<forall>a \<in> set (far @ par). ar_memory a \<noteq> 0"
    and q: "load_program bin zero_program = Some q" "prog_size q = length cs" "\<forall>i < length cs. code q i = cs ! i"
      "referance_count (const_table q) = length bss" "bss \<noteq> [] \<longrightarrow> const_table q = consts_of bss"
    and "assembled_as ls cs" and "op_count (flat_lines ls) < TVM_PROGRAM_CAPACITY"
    and "length (concat bss) \<le> program_arena_capacity"
  shows "\<exists>vm a m3. vm = (tvm_init m2)\<lparr>program := q, data_ptr := a, mem := m3\<rparr> \<and>
    (bss \<noteq> [] \<longrightarrow> mem_read m3 a (length (concat bss)) = Some (concat bss)) \<and>
    (\<forall>n fs'. fs' oname = Some bin \<longrightarrow>
      tvm_main (fst (source_process n (policy_of env) (junk_of env) (ffi env) ls vm)) (policy_of env) (junk_of env) (ffi env)
        fs' m [prog, oname] = snd (source_process n (policy_of env) (junk_of env) (ffi env) ls vm))"
proof -
  have ct: "referance_count (const_table q) = 0 \<or> length (data (const_table q)) = data_size (const_table q) \<and>
      data_size (const_table q) \<le> program_arena_capacity" using q(4,5) assms(12) by (cases "bss = []") (auto simp: consts_of_def)
  let ?env = "env\<lparr>tci := tci_init\<rparr>"
  have pol: "policy_of ?env = policy_of env" "junk_of ?env = junk_of env" by simp_all
  obtain vm par' where l: "tvm_load_program_from_file ?env bin par (tvm_init m2) = Some (vm, par')"
    and start: "vm_ok vm" "holds_buffers (mem vm) (heap vm) (par' @ far)"
    using vm_world.process_start [OF any_libraries assms(1), of tci_init, unfolded pol, OF assms(2-4) q(1) ct] by metis
  note shape = load_keeps [OF l]
  have vq: "program vm = q" using l q(1) by (auto simp: tvm_load_program_from_file_def init_simps split: if_splits)
  have rd: "bss \<noteq> [] \<longrightarrow> mem_read (mem vm) (data_ptr vm) (length (concat bss)) = Some (concat bss)"
  proof
    assume ne: "bss \<noteq> []"
    with q(5) have "data (const_table q) = concat bss" by (simp add: consts_of_def)
    with l q(1,4) ne show "mem_read (mem vm) (data_ptr vm) (length (concat bss)) = Some (concat bss)"
      by (auto simp: tvm_load_program_from_file_def init_simps split: if_splits dest: mem_read_write_same)
  qed
  have "code q i = zero_opcode" if "length cs \<le> i" for i
    using load_program_behind [OF q(1)] that q(2) by (simp add: zero_program_def)
  then have code: "holds_code cs vm" "zero_behind vm"
    using q(2,3) assembled_length [OF assms(10)] assms(11) by (simp_all add: vq holds_code_def zero_behind_def)
  have "ip vm = 0" "rsp vm = 0" by (subst shape; simp)+
  note run = natives_process [OF _ assms(10) code this start]
  have cli: "cli_tvm_parse_command_line no_args [prog, oname] = Some (True, no_args\<lparr>file_name := Some oname\<rparr>)"
    by (simp add: cli_tvm_parse_command_line_def cli_tvm_usage_def)
  have e: "env\<lparr>tci := tc\<rparr> = \<lparr>policy_of = policy_of env, junk_of = junk_of env, ffi = ffi env, tci = tc\<rparr>" for tc by simp
  have main: "tvm_main k (policy_of env) (junk_of env) (ffi env) fs' m [prog, oname] =
      (case load_natives (ffi env) tci_init vm of
         None \<Rightarrow> None
       | Some (Inl (k, printed)) \<Rightarrow> Some (Exited k printed)
       | Some (Inr (tc, vm1)) \<Rightarrow> run_and_finish k (env\<lparr>tci := tc\<rparr>) par' far vm1)" if "fs' oname = Some bin" for k fs'
    unfolding tvm_main_def cli using that assms(2,3) l by (simp add: e split: option.splits sum.splits)
  have "tvm_main (fst (source_process n (policy_of env) (junk_of env) (ffi env) ls vm)) (policy_of env) (junk_of env) (ffi env)
        fs' m [prog, oname] = snd (source_process n (policy_of env) (junk_of env) (ffi env) ls vm)"
    if f: "fs' oname = Some bin" for n fs'
    unfolding main [where fs' = fs', OF f] using run [of _ _ n] by (auto simp: source_process_def split: option.split sum.split)
  with shape vq rd show ?thesis by metis
qed

end

subsection \<open>A program that prints\<close>

text \<open>A loop that calls a procedure, and a call of a native function.\<close>

definition run_demo :: "tasm_ast list" where
  "run_demo =
    [AST_DATA (Some (AST_STRING [104, 105, 10])),
     AST_CFUNCTION (ctype_code CTYPE_INT32) [ctype_code CTYPE_INT32, ctype_code CTYPE_INT32] 2 (Some (bytes_of ''sum'')),
     AST_OP OP_PUSH (bytes_of ''push'') (Some (AST_NUMBER (fmt_d 2) (word_of_int 2))),
     AST_LABEL_DECL (bytes_of ''a''),
     AST_OP OP_CALL (bytes_of ''call'') (Some (AST_LABEL_CALL (bytes_of ''p''))),
     AST_OP OP_DEC (bytes_of ''dec'') None,
     AST_OP OP_DUP (bytes_of ''dup'') None,
     AST_OP OP_JNZ (bytes_of ''jnz'') (Some (AST_LABEL_CALL (bytes_of ''a''))),
     AST_OP OP_PUSH (bytes_of ''push'') (Some (AST_CHAR (Some [80]))),
     AST_OP OP_PUSH (bytes_of ''push'') (Some (AST_CHAR (Some [33]))),
     AST_OP OP_NATIVE (bytes_of ''native'') (Some (AST_NUMBER (fmt_d 0) (word_of_int 0))),
     AST_OP OP_PUTC (bytes_of ''putc'') None,
     AST_OP OP_HALT (bytes_of ''hlt'') None,
     AST_PROC (Some (bytes_of ''p''))
       [AST_OP OP_PUSH (bytes_of ''push'') (Some (AST_CHAR (Some [120]))), AST_OP OP_PUTC (bytes_of ''putc'') None,
        AST_OP OP_RET (bytes_of ''ret'') None]]"

definition run_demo_text :: bytes where
  "run_demo_text = concat (map (\<lambda>l. l @ [c_newline]) (print_lines run_demo))"

definition run_demo_argv :: "bytes list" where "run_demo_argv = map bytes_of [''tasm'', ''-l'', ''l'', ''a'']"

definition run_demo_args :: cli_parsed_args_t where
  "run_demo_args = no_args\<lparr>file_name := Some (bytes_of ''a''), output_name := Some (bytes_of ''out.bin''),
     clib_names := [bytes_of ''l'']\<rparr>"

lemma fmt_d_digit: "fmt_d 2 = [50]" "fmt_d 0 = [48]" by code_simp+

lemma run_demo_spelled: "list_all line_spelled run_demo" "list_all printable_line (print_lines run_demo)"
proof -
  have k: "id_type (bytes_of ''push'') = TOKEN_OP OP_PUSH" "id_type (bytes_of ''call'') = TOKEN_OP OP_CALL"
    "id_type (bytes_of ''dec'') = TOKEN_OP OP_DEC" "id_type (bytes_of ''dup'') = TOKEN_OP OP_DUP"
    "id_type (bytes_of ''jnz'') = TOKEN_OP OP_JNZ" "id_type (bytes_of ''hlt'') = TOKEN_OP OP_HALT"
    "id_type (bytes_of ''putc'') = TOKEN_OP OP_PUTC" "id_type (bytes_of ''ret'') = TOKEN_OP OP_RET"
    "id_type (bytes_of ''native'') = TOKEN_OP OP_NATIVE"
    by (rule id_type_bytes;
      simp add: keyword_table_def inst_strings_lower_def inst_strings_upper_def all_optypes_def)+
  have i: "id_type (bytes_of ''a'') = TOKEN_ID" "id_type (bytes_of ''p'') = TOKEN_ID"
    "id_type (bytes_of ''sum'') = TOKEN_ID" by code_simp+
  have n: "name_text (bytes_of ''a'')" "name_text (bytes_of ''p'')" "name_text (bytes_of ''sum'')" "name_text (bytes_of ''push'')"
    "name_text (bytes_of ''call'')" "name_text (bytes_of ''dec'')" "name_text (bytes_of ''dup'')" "name_text (bytes_of ''native'')"
    "name_text (bytes_of ''jnz'')" "name_text (bytes_of ''hlt'')" "name_text (bytes_of ''putc'')" "name_text (bytes_of ''ret'')"
    by (simp_all add: name_text_def bytes_of_def byte_of_char_def is_id_char_def char_defs)
  have two: "operand_spelled Push_operand (AST_NUMBER (fmt_d 2) (word_of_int 2))" by (rule fmt_d_spelled) simp_all
  have none: "operand_spelled Int_operand (AST_NUMBER (fmt_d 0) (word_of_int 0))" by code_simp
  show "list_all printable_line (print_lines run_demo)"
    by (simp add: run_demo_def print_lines_def printable_line_def quoted_def bytes_of_def byte_of_char_def char_defs fmt_d_digit
        ctype_text_def tci_ctypes_def)
  show "list_all line_spelled run_demo"
    using k i n two none
    by (simp add: run_demo_def label_name_def string_spelled_def operand_table_def ctype_spelled_def all_ctypes_def char_defs
        del: operand_spelled.simps(1))
qed

lemma run_demo_denotes: "denotes (run_demo_text @ [c_eof]) run_demo" "length run_demo_text + 1 < src_arena_capacity"
proof -
  show "denotes (run_demo_text @ [c_eof]) run_demo"
    using print_denotes [OF run_demo_spelled] by (simp add: run_demo_text_def print_source_def lines_source_def run_demo_def)
  show "length run_demo_text + 1 < src_arena_capacity"
    by (simp add: run_demo_text_def run_demo_def print_lines_def quoted_def bytes_of_def src_arena_capacity_def fmt_d_digit
        ctype_text_def tci_ctypes_def)
qed

lemma run_demo_buildable: "buildable run_demo" "op_count (flat_lines run_demo) < TVM_PROGRAM_CAPACITY"
  by (simp_all add: buildable_def run_demo_def flat_ok_def operand_fits_def jump_ops_def number_ops_def label_fits_def
      scoped_name_def names_apart_def dup_names_def label_entries_def proc_entries_def label_entry_def proc_entry_def
      full_name_def data_bytes_def symbol_capacities capacities program_arena_capacity_def assemble_line_def
      assemble_op_def bytes_of_def byte_of_char_def)

lemma run_demo_linkable: "linkable [bytes_of ''l''] run_demo"
  by (simp add: linkable_def native_modules_def declared_functions_def run_demo_def capacities module_ok_def name_ok_def
      cfun_ok_def program_arena_capacity_def bytes_of_def byte_of_char_def)

lemma run_demo_cli: "cli_tasm_parse_command_line no_args run_demo_argv = Some (True, run_demo_args)"
  by (simp add: cli_tasm_parse_command_line_def run_demo_argv_def cli_tasm_usage_def cli_tasm_option_def
      bytes_of_def byte_of_char_def no_args_def run_demo_args_def MAX_LIB_COUNT_def)

definition run_demo_output :: bytes where
  "run_demo_output = bytes_of ''xx:l'' @ [10] @ CLR_WHITE @ bytes_of ''Runtime library loaded '' @ CLR_GREEN @
     bytes_of ''successfully. '' @ CLR_END @ bytes_of ''l'' @ [10] @ bytes_of ''xx'' @
     bytes_of ''id: 0'' @ [10] @ CLR_BLUE @ bytes_of ''sum'' @ [10] @ CLR_END @ bytes_of ''q''"

lemma run_demo_process:
  "source_process 25 bump_alloc (\<lambda>_. 0) adding_ffi run_demo (tvm_init m2\<lparr>program := \<lparr>metadata =
     set_modules (native_modules [bytes_of ''l''] (declared_functions run_demo)) (metadata zero_program),
     const_table = ct, code = c, prog_size = k\<rparr>,
     data_ptr := a, mem := m3\<rparr>) = (26, Some (Exited 0 (run_demo_output @ halted_message)))"
  by code_simp

subsection \<open>The property\<close>



end
