(* ===== verification/Native_Properties.thy ===== *)
theory Native_Properties
  imports Tvm_Main Vm_Demo
begin

text \<open>
  Calls of native functions from end to end: the library of a program is loaded, the interfaces of the
  functions it declares are prepared, and an instruction \<open>native\<close> calls the function it names with the
  arguments from the stack.
\<close>

text \<open>What the process prints before a call, and the machine behind it: the arguments are popped, and the
  result of a function that is not \<open>void\<close> is pushed. The type tag and the upper half of the object it is
  stored to stay as they were.\<close>

definition native_message :: "u32 \<Rightarrow> bytes \<Rightarrow> bytes" where
  "native_message i name = bytes_of ''id: '' @ fmt_d (sint i) @ [10] @ CLR_BLUE @ name @ [10] @ CLR_END"

definition native_done :: "bool \<Rightarrow> nat \<Rightarrow> bytes \<Rightarrow> u64 \<times> memory \<times> bytes \<Rightarrow> machine \<Rightarrow> machine" where
  "native_done is_void n msg result vm = (case result of (r, m, printed) \<Rightarrow>
     (let k = sp vm - n; vm1 = vm\<lparr>sp := k, mem := m, out := out vm @ msg @ printed, ip := ip vm + 1\<rparr> in
      if is_void then vm1
      else vm1\<lparr>stack := (stack vm)(k := set_ui32 (ucast r) (stack vm k)), sp := k + 1\<rparr>))"

text \<open>A module that has been loaded and prepared.\<close>

lemma those_Some_nth: "those xs = Some ys \<Longrightarrow> i < length xs \<Longrightarrow> xs ! i = Some (ys ! i)"
proof -
  assume "those xs = Some ys" "i < length xs"
  then have "map id xs = map Some ys" using those_map_Some_iff [of id xs ys] by simp
  with \<open>i < length xs\<close> show ?thesis by (metis id_apply length_map list.map_id nth_map)
qed

lemma those_length: "those xs = Some ys \<Longrightarrow> length ys = length xs"
  using those_map_Some_iff [of id xs ys] by (metis id_apply length_map list.map_id)

lemma natives_loaded:
  assumes "load_natives ff tci_init vm = Some (Inr (tc, vm1))" and "module_count (metadata (program vm)) \<noteq> 0"
  obtains fs where "last_module tc = Some 0" "handle (tci_modules tc 0) = dlopen_c ff (mod_name (modules (metadata (program vm)) 0))"
    "native_funcs (tci_modules tc 0) = fs" "length fs = cfun_count (modules (metadata (program vm)) 0)"
    "\<And>i. i < length fs \<Longrightarrow> tci_prepare_cfun ff (cfuns (modules (metadata (program vm)) 0) i) = Some (fs ! i)"
    "cfun_count (modules (metadata (program vm)) 0) \<le> TVM_METADATA_MAX_CFUN_CAPACITY"
    "program vm1 = program vm"
proof -
  let ?md = "modules (metadata (program vm)) 0"
  from assms obtain tc1 msg where l: "tci_load_module ff tci_init (mod_name ?md) = Some (Inr (tc1, msg))"
    and p: "tci_metaprogram_to_ffi ff tc1 (program vm) = Some tc" and v: "program vm1 = program vm"
    by (auto elim: loaded_natives)
  from l have tc1: "tci_module_count tc1 = 1" "handle (tci_modules tc1 0) = dlopen_c ff (mod_name ?md)"
    by (auto simp: tci_load_module_def Let_def tci_init_def split: if_splits)
  from p tc1(1) obtain fs where fs: "those (map (\<lambda>i. tci_prepare_cfun ff (cfuns ?md i)) [0..<cfun_count ?md]) = Some fs"
    "tc = tc1\<lparr>tci_modules := (tci_modules tc1)(0 := (tci_modules tc1 0)\<lparr>native_func_count := cfun_count ?md, native_funcs := fs\<rparr>)\<rparr>"
    "cfun_count ?md \<le> TVM_METADATA_MAX_CFUN_CAPACITY"
    by (auto simp: tci_metaprogram_to_ffi_def tci_prepare_last_module_def last_module_def Let_def)
  from those_length [OF fs(1)] have len: "length fs = cfun_count ?md" by simp
  have "tci_prepare_cfun ff (cfuns ?md i) = Some (fs ! i)" if "i < length fs" for i
    using those_Some_nth [OF fs(1), of i] that len by simp
  with fs(2,3) tc1 len v that show thesis by (simp add: last_module_def)
qed

lemma prepared_interface:
  assumes "tci_prepare_cfun ff f = Some p"
  obtains c where "cif p = Some c" "is_ok p = ffi_prep_c ff c" "tci_ctype_to_ffi_type (rtype f) = Some (cif_ret c)"
    "map tci_ctype_to_ffi_type (take (unat (acount f)) (atypes f)) = map Some (cif_args c)"
proof -
  from assms obtain r as where "tci_ctype_to_ffi_type (rtype f) = Some r"
    "map tci_ctype_to_ffi_type (take (unat (acount f)) (atypes f)) = map Some as"
    "p = \<lparr>cif = Some \<lparr>cif_ret = r, cif_args = as\<rparr>, is_ok = ffi_prep_c ff \<lparr>cif_ret = r, cif_args = as\<rparr>\<rparr>"
    by (auto simp: tci_prepare_cfun_def tci_prepare_function_def Let_def those_map_Some_iff)
  then show thesis by (intro that [of "\<lparr>cif_ret = r, cif_args = as\<rparr>"]) simp_all
qed


definition add_cfun :: tvm_program_cfun_t where
  "add_cfun = \<lparr>rtype = ctype_code CTYPE_INT32, atypes = [ctype_code CTYPE_INT32, ctype_code CTYPE_INT32], acount = 2,
     symbol_name = bytes_of ''add''\<rparr>"

definition native_demo :: machine where
  "native_demo = (tvm_init empty_memory)\<lparr>program := zero_program\<lparr>metadata := set_modules [(bytes_of ''l'', [add_cfun])]
     (metadata zero_program)\<rparr>\<rparr>"

definition native_demo_call :: machine where
  "native_demo_call = native_demo\<lparr>stack := (\<lambda>i. num (if i = 0 then 3 else 4)), sp := 2\<rparr>"

lemma native_demo_loads:
  obtains tc vm1 where "load_natives adding_ffi tci_init native_demo = Some (Inr (tc, vm1))"
proof -
  have "\<exists>tc vm1. load_natives adding_ffi tci_init native_demo = Some (Inr (tc, vm1))"
    by (simp add: load_natives_def native_demo_def set_modules_def set_module_def tci_load_module_def adding_ffi_def
        tci_init_def TCI_MODULE_CAPACITY_def tci_metaprogram_to_ffi_def tci_prepare_last_module_def last_module_def
        capacities Let_def tci_prepare_cfun_def tci_prepare_function_def add_cfun_def tci_ctype_to_ffi_type_def
        del: ctype_code.simps)
  with that show thesis by blast
qed


end
