(* ===== verification/Tgc_Collect.thy ===== *)
theory Tgc_Collect
  imports Tvm_Run Vm_Demo
begin

text \<open>
  A collection of the heap, \<open>tgc_collect\<close>: what marking and sweeping do to the blocks of the array. The
  marks of the blocks are described by the set of the indices of the marked ones, relative to the memory
  before the collection, in which no block is marked.
\<close>

subsection \<open>Reading and writing of whole blocks\<close>

lemma five_words:
  assumes "length bs = gc_block_size"
  obtains a b c d e where "bs = a @ b @ c @ d @ e" "length a = 8" "length b = 8" "length c = 8" "length d = 8" "length e = 8"
proof -
  let ?r1 = "drop 8 bs" let ?r2 = "drop 8 ?r1" let ?r3 = "drop 8 ?r2" let ?r4 = "drop 8 ?r3"
  have "bs = take 8 bs @ take 8 ?r1 @ take 8 ?r2 @ take 8 ?r3 @ ?r4" by (simp only: append_take_drop_id)
  from that [OF this] assms show thesis by (simp add: gc_block_size_def)
qed

lemma block_bytes_of_bytes:
  assumes "length bs = gc_block_size"
  shows "block_bytes (block_of_bytes bs) = bs" and "block_ok (block_of_bytes bs)"
proof -
  obtain a b c d e where w: "bs = a @ b @ c @ d @ e" "length a = 8" "length b = 8" "length c = 8" "length d = 8" "length e = 8"
    using five_words [OF assms] .
  have id: "le_bytes 8 (le_val x) = x" "le_val x < 2 ^ 64" if "length x = 8" for x
    using le_bytes_le_val [of x] le_val_bound [of x] that by simp_all
  show "block_bytes (block_of_bytes bs) = bs" "block_ok (block_of_bytes bs)"
    using w(2-6) id by (simp_all add: w(1) block_bytes_def block_of_bytes_def block_ok_def)
qed

lemma block_read_bytes:
  "block_read m a = Some b \<longleftrightarrow> mem_read m a gc_block_size = Some (block_bytes b) \<and> block_ok b"
proof -
  have "length bs = gc_block_size" if "mem_read m a gc_block_size = Some bs" for bs
    using that by (simp add: mem_read_Some_iff)
  then show ?thesis using block_bytes_of_bytes block_of_bytes_block_bytes by (auto simp: block_read_def)
qed

definition block_range :: "gc_heap \<Rightarrow> nat \<Rightarrow> nat set" where
  "block_range h i = {block_addr h i..<block_addr h i + gc_block_size}"

lemma block_ranges_apart: "i \<noteq> j \<Longrightarrow> block_range h i \<inter> block_range h j = {}"
  by (cases "i < j") (auto simp: block_range_def block_addr_def gc_block_size_def)

lemma block_addr_inject: "block_addr h i = block_addr h j \<Longrightarrow> i = j"
  by (simp add: block_addr_def gc_block_size_def)

lemma block_write_rewrites:
  assumes "block_read m (block_addr h i) = Some b" and "block_ok c"
  obtains m' where "block_write m (block_addr h i) c = Some m'" "chunks m' = chunks m" "brk m' = brk m"
    "\<And>x. x \<notin> block_range h i \<Longrightarrow> cells m' x = cells m x"
    "\<And>j. block_read m' (block_addr h j) = (if j = i then Some c else block_read m (block_addr h j))"
proof -
  have "mem_ok_range m (block_addr h i) gc_block_size"
    using assms(1) by (auto simp: block_read_bytes mem_read_Some_iff mem_ok_range_iff le_iff_add)
  then obtain m' where w: "mem_write m (block_addr h i) (block_bytes c) = Some m'" by (simp add: mem_write_def)
  have "block_read m' (block_addr h j) = block_read m (block_addr h j)" if "j \<noteq> i" for j
  proof -
    have "block_addr h j + gc_block_size \<le> block_addr h i \<or> block_addr h i + length (block_bytes c) \<le> block_addr h j"
      using that by (cases "i < j") (auto simp: block_addr_def gc_block_size_def)
    from mem_read_write_other [OF w this] show ?thesis by (simp add: block_read_def)
  qed
  moreover have "block_read m' (block_addr h i) = Some c"
    using mem_read_write_same [OF w] assms(2) by (simp add: block_read_bytes)
  moreover have "cells m' x = cells m x" if "x \<notin> block_range h i" for x
    using w that by (auto simp: mem_write_Some_iff poke_apply block_range_def)
  ultimately show thesis using that w mem_write_keeps [OF w] by (simp add: block_write_def)
qed

subsection \<open>The marks\<close>

definition with_mark :: "bool \<Rightarrow> gc_block \<Rightarrow> gc_block" where
  "with_mark p b = b\<lparr>gb_marked := (if p then 1 else 0)\<rparr>"

text \<open>The memory with the blocks of a set marked.\<close>

definition marked_as :: "memory \<Rightarrow> gc_heap \<Rightarrow> nat set \<Rightarrow> memory \<Rightarrow> bool" where
  "marked_as m0 h S m \<longleftrightarrow> chunks m = chunks m0 \<and> brk m = brk m0 \<and>
     (\<forall>x. (\<forall>i < h_len h. x \<notin> block_range h i) \<longrightarrow> cells m x = cells m0 x) \<and>
     (\<forall>i < h_len h. block_read m (block_addr h i) = map_option (with_mark (i \<in> S)) (block_read m0 (block_addr h i)))"

text \<open>No block is marked, and none has the array of pointers that the code never fills.\<close>

definition unmarked :: "memory \<Rightarrow> gc_heap \<Rightarrow> bool" where
  "unmarked m h \<longleftrightarrow>
     (\<forall>i < h_len h. \<exists>b. block_read m (block_addr h i) = Some b \<and> gb_marked b = 0 \<and> gb_pointers b = 0)"

lemma with_mark_id: "gb_marked b = 0 \<Longrightarrow> with_mark False b = b" by (simp add: with_mark_def)

lemma marked_as_start: "unmarked m h \<Longrightarrow> marked_as m h {} m"
  by (fastforce simp: marked_as_def unmarked_def with_mark_id)

lemma marked_as_end:
  assumes "unmarked m0 h" and "marked_as m0 h S m" and "S \<inter> {..<h_len h} = {}"
  shows "m = m0"
proof -
  have "cells m x = cells m0 x" for x
  proof (cases "\<forall>i < h_len h. x \<notin> block_range h i")
    case True
    with assms(2) show ?thesis by (simp add: marked_as_def)
  next
    case False
    then obtain i where i: "i < h_len h" "x \<in> block_range h i" by blast
    with assms(1) obtain b where b: "block_read m0 (block_addr h i) = Some b" "gb_marked b = 0" by (auto simp: unmarked_def)
    have "i \<notin> S" using assms(3) i(1) by blast
    with assms(2) i(1) b have "block_read m (block_addr h i) = Some b" by (simp add: marked_as_def with_mark_id)
    with b(1) have "\<forall>k < gc_block_size. cells m (block_addr h i + k) = cells m0 (block_addr h i + k)"
      by (simp add: block_read_bytes mem_read_Some_iff)
    moreover obtain k where "k < gc_block_size" "x = block_addr h i + k"
      using i(2) by (auto simp: block_range_def dest!: le_Suc_ex)
    ultimately show ?thesis by simp
  qed
  with assms(2) show ?thesis by (intro memory.equality) (auto simp: marked_as_def)
qed

lemma marked_as_write:
  assumes "unmarked m0 h" and "marked_as m0 h S m" and "i < h_len h"
  obtains b m' where "block_read m (block_addr h i) = Some b" "gb_marked b = (if i \<in> S then 1 else 0)" "gb_pointers b = 0"
    "block_write m (block_addr h i) (b\<lparr>gb_marked := (if p then 1 else 0)\<rparr>) = Some m'"
    "marked_as m0 h (if p then insert i S else S - {i}) m'"
proof -
  from assms(1,3) obtain b0 where b0: "block_read m0 (block_addr h i) = Some b0" "gb_marked b0 = 0" "gb_pointers b0 = 0"
    by (auto simp: unmarked_def)
  let ?b = "with_mark (i \<in> S) b0"
  have b: "block_read m (block_addr h i) = Some ?b" using assms(2,3) b0(1) by (simp add: marked_as_def)
  have "block_ok (with_mark p b0)" using b0(1) by (simp add: block_read_bytes block_ok_def with_mark_def)
  from block_write_rewrites [OF b this] obtain m' where w:
    "block_write m (block_addr h i) (with_mark p b0) = Some m'" "chunks m' = chunks m" "brk m' = brk m"
    "\<And>x. x \<notin> block_range h i \<Longrightarrow> cells m' x = cells m x"
    "\<And>j. block_read m' (block_addr h j) = (if j = i then Some (with_mark p b0) else block_read m (block_addr h j))" by blast
  have "marked_as m0 h (if p then insert i S else S - {i}) m'"
    using assms(2,3) w b0(1) by (auto simp: marked_as_def)
  with b w(1) b0 that [of ?b m'] show thesis by (simp add: with_mark_def)
qed

lemma mark_marks:
  assumes "unmarked m0 h" and "marked_as m0 h S m" and "i < h_len h" and "h_ptr h \<noteq> 0"
  shows "\<exists>m'. tgc_mark m (block_addr h i) = Some m' \<and> marked_as m0 h (insert i S) m'"
proof -
  obtain b m' where b: "block_read m (block_addr h i) = Some b" "gb_marked b = (if i \<in> S then 1 else 0)" "gb_pointers b = 0"
    "block_write m (block_addr h i) (b\<lparr>gb_marked := 1\<rparr>) = Some m'" "marked_as m0 h (insert i S) m'"
    using marked_as_write [OF assms(1-3), of True] by (metis (full_types))
  then show ?thesis using assms(2,4) by (cases "i \<in> S") (auto simp: tgc_mark_def block_addr_def insert_absorb)
qed


subsection \<open>Mark and sweep\<close>

definition is_root :: "vars \<Rightarrow> nat \<Rightarrow> bool" where
  "is_root vs v \<longleftrightarrow> obj_type (vs v) = obj_type_code STACK_OBJ_TYPE_DATA_ADDRESS"

definition rooted :: "gc_heap \<Rightarrow> vars \<Rightarrow> nat list \<Rightarrow> nat set" where
  "rooted h vs ks = {i. \<exists>v \<in> set ks. is_root vs v \<and> unat (ui64 (vs v)) = block_addr h i}"

lemma mark_vars_marks:
  assumes "unmarked m0 h" and "h_ptr h \<noteq> 0"
    and "\<forall>v \<in> set ks. is_root vs v \<longrightarrow> ui64 (vs v) = 0 \<or> (\<exists>i < h_len h. unat (ui64 (vs v)) = block_addr h i)"
    and "marked_as m0 h S m"
  shows "\<exists>m'. mark_vars m vs ks = Some m' \<and> marked_as m0 h (S \<union> rooted h vs ks) m'"
  using assms(3,4)
proof (induction ks arbitrary: S m)
  case Nil
  then show ?case by (simp add: rooted_def)
next
  case (Cons v ks)
  then have ks: "\<forall>v \<in> set ks. is_root vs v \<longrightarrow> ui64 (vs v) = 0 \<or> (\<exists>i < h_len h. unat (ui64 (vs v)) = block_addr h i)" by simp
  note IH = Cons.IH [OF ks]
  have addr: "block_addr h i \<noteq> 0" for i using assms(2) by (simp add: block_addr_def)
  show ?case
  proof (cases "is_root vs v")
    case False
    then have "rooted h vs (v # ks) = rooted h vs ks" by (simp add: rooted_def)
    with IH [OF Cons.prems(2)] False show ?thesis by (simp add: is_root_def)
  next
    case True
    with Cons.prems(1) consider "ui64 (vs v) = 0" | i where "i < h_len h" "unat (ui64 (vs v)) = block_addr h i" by auto
    then show ?thesis
    proof cases
      case 1
      then have "unat (ui64 (vs v)) \<noteq> block_addr h i" for i using addr [of i] by simp
      then have "rooted h vs (v # ks) = rooted h vs ks" by (auto simp: rooted_def)
      with IH [OF Cons.prems(2)] 1 True show ?thesis by (simp add: is_root_def tgc_mark_def)
    next
      case (2 i)
      then have "rooted h vs (v # ks) = insert i (rooted h vs ks)"
        using True block_addr_inject by (auto simp: rooted_def)
      with mark_marks [OF assms(1) Cons.prems(2) 2(1) assms(2)] IH [of "insert i S"] 2(2) True show ?thesis
        by (auto simp: is_root_def)
    qed
  qed
qed

lemma sweep_unmarks:
  assumes "unmarked m0 h" and "marked_as m0 h S m" and "{k..<h_len h} \<subseteq> S"
  shows "\<exists>m'. tgc_sweep_from m h k = Some (m', h, concat (replicate (h_len h - k) (bytes_of ''marked!'' @ [10]))) \<and>
     marked_as m0 h (S - {k..<h_len h}) m'"
  using assms(2,3)
proof (induction "h_len h - k" arbitrary: k S m)
  case 0
  then show ?case by (subst tgc_sweep_from.simps) simp
next
  case (Suc d)
  then have k: "k < h_len h" by simp
  obtain b m1 where b: "block_read m (block_addr h k) = Some b" "gb_marked b = (if k \<in> S then 1 else 0)"
    "block_write m (block_addr h k) (b\<lparr>gb_marked := 0\<rparr>) = Some m1" "marked_as m0 h (S - {k}) m1"
    using marked_as_write [OF assms(1) Suc.prems(1) k, of False] by (metis (full_types))
  have "k \<in> S" using Suc.prems(2) k by auto
  then have at: "tgc_sweep_at m h k = Some (m1, h, bytes_of ''marked!'' @ [10])" using b by (simp add: tgc_sweep_at_def)
  have "{Suc k..<h_len h} \<subseteq> S - {k}" using Suc.prems(2) by auto
  moreover have "d = h_len h - Suc k" using Suc.hyps(2) by simp
  ultimately obtain m' where
    m': "tgc_sweep_from m1 h (Suc k) = Some (m', h, concat (replicate (h_len h - Suc k) (bytes_of ''marked!'' @ [10])))"
      "marked_as m0 h (S - {k} - {Suc k..<h_len h}) m'"
    using Suc.hyps(1) [OF _ b(4)] by blast
  have "S - {k} - {Suc k..<h_len h} = S - {k..<h_len h}" using k by auto
  moreover have "h_len h - k = Suc (h_len h - Suc k)" using k by simp
  ultimately show ?case using m' k at by (subst tgc_sweep_from.simps) simp
qed

text \<open>C27. A collection releases nothing that the program can still use: when every block of the heap is the value
  of a local variable of the current frame, and every such variable that is marked through holds a block or
  null, marking and sweeping return the memory and the heap exactly as they were, with every mark cleared
  again, and one line is printed for each block.\<close>

theorem collect_keeps_rooted:
  assumes "arr_ok m h" and "unmarked m h"
    and "\<forall>v < TVM_MAX_LOCAL_VAR. is_root vs v \<longrightarrow> ui64 (vs v) = 0 \<or> (\<exists>i < h_len h. unat (ui64 (vs v)) = block_addr h i)"
    and "\<forall>i < h_len h. \<exists>v < TVM_MAX_LOCAL_VAR. is_root vs v \<and> unat (ui64 (vs v)) = block_addr h i"
  shows "tgc_collect m h vs = Some (m, h, concat (replicate (h_len h) (bytes_of ''marked!'' @ [10])))"
proof (cases "h_ptr h = 0")
  case True
  with assms(1) have "h_len h = 0" by (simp add: arr_ok_def)
  with assms(3) have "mark_vars m vs ks = Some m" if "set ks \<subseteq> {..<TVM_MAX_LOCAL_VAR}" for ks
    using that by (induction ks) (auto simp: is_root_def tgc_mark_def)
  then have "mark_vars m vs [0..<TVM_MAX_LOCAL_VAR] = Some m" by (rule meta_mp) auto
  with True \<open>h_len h = 0\<close> show ?thesis by (simp add: tgc_collect_def tgc_sweep_def)
next
  case False
  have "\<forall>v \<in> set [0..<TVM_MAX_LOCAL_VAR]. is_root vs v \<longrightarrow> ui64 (vs v) = 0 \<or>
      (\<exists>i < h_len h. unat (ui64 (vs v)) = block_addr h i)" using assms(3) by simp
  from mark_vars_marks [OF assms(2) False this marked_as_start [OF assms(2)]] obtain m1 where
    m1: "mark_vars m vs [0..<TVM_MAX_LOCAL_VAR] = Some m1" "marked_as m h (rooted h vs [0..<TVM_MAX_LOCAL_VAR]) m1" by auto
  have all: "{0..<h_len h} \<subseteq> rooted h vs [0..<TVM_MAX_LOCAL_VAR]" using assms(4) by (fastforce simp: rooted_def)
  from sweep_unmarks [OF assms(2) m1(2) all] obtain m2 where
    m2: "tgc_sweep_from m1 h 0 = Some (m2, h, concat (replicate (h_len h) (bytes_of ''marked!'' @ [10])))"
      "marked_as m h (rooted h vs [0..<TVM_MAX_LOCAL_VAR] - {0..<h_len h}) m2" by auto
  have "m2 = m" by (rule marked_as_end [OF assms(2) m2(2)]) auto
  with m1(1) m2(1) False show ?thesis by (simp add: tgc_collect_def tgc_sweep_def)
qed

definition one_block_memory :: memory where
  "one_block_memory = \<lparr>cells = (\<lambda>x. if 64 \<le> x \<and> x < 256 then Some 0 else None), chunks = [64 \<mapsto> 192], brk = 256\<rparr>"

definition one_block_heap :: gc_heap where
  "one_block_heap = \<lparr>h_ptr = 96, h_len = 1, h_cap = 4, h_count = 1\<rparr>"

lemma one_block_unmarked: "unmarked one_block_memory one_block_heap"
proof -
  let ?b = "\<lparr>gb_value = 0, gb_pointer_count = 0, gb_size = 0, gb_pointers = 0, gb_marked = 0\<rparr>"
  have "le_bytes k 0 = replicate k 0" for k by (induction k) simp_all
  then have "block_bytes ?b = replicate 40 0"
    by (simp add: block_bytes_def flip: replicate_add)
  then have "block_read one_block_memory (block_addr one_block_heap 0) = Some ?b"
    by (auto simp: block_read_bytes mem_read_Some_iff block_ok_def one_block_memory_def one_block_heap_def
        block_addr_def gc_block_size_def)
  then show ?thesis by (auto simp: unmarked_def one_block_heap_def)
qed

theorem collect_keeps_rooted_witness:
  "tgc_collect one_block_memory one_block_heap
     (\<lambda>v. if v = 3 then \<lparr>obj_type = obj_type_code STACK_OBJ_TYPE_DATA_ADDRESS, ui64 = 96\<rparr> else zero_object) =
     Some (one_block_memory, one_block_heap, bytes_of ''marked!'' @ [10])"
proof -
  let ?vs = "\<lambda>v. if v = 3 then \<lparr>obj_type = obj_type_code STACK_OBJ_TYPE_DATA_ADDRESS, ui64 = 96\<rparr> else zero_object"
  have a: "arr_ok one_block_memory one_block_heap"
    by (simp add: arr_ok_def one_block_memory_def one_block_heap_def stb_header_size_def gc_block_size_def)
  have "tgc_collect one_block_memory one_block_heap ?vs = Some (one_block_memory, one_block_heap,
      concat (replicate (h_len one_block_heap) (bytes_of ''marked!'' @ [10])))"
    by (rule collect_keeps_rooted [OF a one_block_unmarked])
      (auto simp: is_root_def one_block_heap_def block_addr_def zero_object_def capacities intro: exI [of _ 3])
  then show ?thesis by (simp add: one_block_heap_def)
qed

end
