(* ===== verification/Spec2Isabelle.thy ===== *)
theory Spec2Isabelle
  imports Prelude C_Memory Float32 Tvm_Types Lifo Tvm_Frames Tgc Tgc_Total Arena Tci Tvm_Exec
    Tvm_Effects Tvm_Invariants Tvm_Refine Tvm_Run Tvm_Progress Tvm_Heap Vm_Demo Vm_Properties
    Vm_Heap_Properties Tasm_Ast Tasm_Translator Tasm_Assembly Tasm_Reference Tasm_Correct
    Tasm_Properties Codec Tasm_Binary Tvm_Loader Program_File File_Properties
    Tdef Cli Tasm_Lexer Tasm_Parser Tasm_Main
    Lexer_Props Lexer_Tokens Keywords Parser_Props Parser_Result Parser_Progress
    Source_Grammar Token_Reader Token_Stream Grammar_Parser Source_Printer Source_Properties
    Tasmc Tvm_Main Source_Machine Source_Simulation Source_Meaning Toolchain_Properties Tvm_Dump Tvm_Keeps Tvm_Process
    Source_Runs Tasm_Natives Native_Properties Tgc_Collect
begin

text \<open>
  tile-vm: a stack virtual machine and its assembler.

  The program. \<open>tasm\<close> (\<open>src/tasm.c\<close>) reads an assembly file, lexes and parses it to a syntax tree,
  resolves its symbols in two passes, translates it to an array of instructions and a table of
  constants, and writes both to a program file; with the option \<open>-c\<close> it also writes assembler text
  for nasm. \<open>tvm\<close> (\<open>src/tvm.c\<close>) loads a program file into a machine with an operand stack of tagged
  objects, a return stack, a chain of frames of local variables, a heap of collected blocks and a
  table of native functions, interprets it, and ends with an exit status. The two share the
  instruction set and the file format, and nothing else.

  Conventions. A function that may run into undefined behaviour of C (a read outside an array, an
  invalid pointer, a trapping division, a signed overflow of \<open>atoi\<close>), abort, or not return has a result
  in the option type, \<open>None\<close> in these cases; errors the code handles are values: exceptions of the
  machine, diagnostics of the parser, error codes of the translator, exit statuses (\<open>Inl\<close>). Integers
  are words of their width, floats the 32 bits of IEEE binary32, a C string the bytes before its
  terminator, an array a function or list with its bound written out. The machine is x86_64:
  little-endian, pointers of 8 bytes. What is not under \<open>src/\<close> is a parameter: the policy of \<open>malloc\<close>
  and what fresh memory holds (\<open>policy\<close>, \<open>junk\<close>), \<open>libffi\<close> and the dynamic linker (\<open>ffi\<close>), the file
  system, the contents of padding bytes and of unwritten buffers.

  \<^bold>\<open>Shared.\<close> \<open>Prelude\<close>: word types, bytes, truncating division, decimal printing, the collections of
  rewrite rules. \<open>C_Memory\<close>: byte-addressed memory with \<open>malloc\<close>, \<open>realloc\<close>, \<open>free\<close>. \<open>Float32\<close>: the
  arithmetic of \<open>float\<close>, with the error bound of rounding. \<open>Tdef\<close> (\<open>common/tdef.h\<close>): byte order.
  \<open>Arena\<close> (\<open>common/arena.h\<close>): the arena, with its invariant. \<open>Cli\<close> (\<open>common/cli.h\<close>): command lines.

  \<^bold>\<open>The virtual machine.\<close> \<open>Tvm_Types\<close>: the types of \<open>tvm/tvm.h\<close>. \<open>Tvm_Frames\<close>: frames as a store of
  linked cells. \<open>Tgc\<close>, \<open>Tgc_Total\<close> (\<open>tvm/tgc.h\<close>): the heap and its collector, with the dynamic arrays
  of \<open>stb_ds\<close> it uses. \<open>Tci\<close> (\<open>tci.c\<close>, \<open>tvm/tci.h\<close>): native calls. \<open>Tvm_Exec\<close>: the state \<open>tvm_t\<close> and
  one definition per case of \<open>tvm_exec_opcode\<close>, composed by it in the order of the code. \<open>Tvm_Run\<close>:
  \<open>tvm_run\<close>, with fuel (the number of instructions it may execute) and as a step relation; the fuel is
  an argument of every statement, more of it never changes a result, and programs without backward
  jumps are shown to end within their length. \<open>Tvm_Loader\<close>: reading of a program file. \<open>Tvm_Main\<close>:
  \<open>main\<close>. \<open>Tvm_Dump\<close>: the dump of the stack and the conversions of \<open>printf\<close> it needs. On these rest: \<open>Tvm_Effects\<close> (what one instruction may change), \<open>Tvm_Invariants\<close> (the
  well-formed machine, the locale \<open>vm_world\<close> of its environment and its interpretation, calls as a
  provider of the locale of \<open>Lifo\<close>), \<open>Tvm_Refine\<close> (the abstract machine on lists of values and its
  simulation), \<open>Tvm_Progress\<close> (when instructions and runs are defined and end), \<open>Tvm_Heap\<close> (blocks of
  the heap), \<open>Tgc_Collect\<close> (what a collection does to the blocks), \<open>Native_Properties\<close> (native calls, from
  the declaration in the program file to the called function), \<open>Vm_Demo\<close> (a concrete environment),
  \<open>Vm_Properties\<close> and \<open>Vm_Heap_Properties\<close> (the properties with their witnesses).

  \<^bold>\<open>The assembler.\<close> \<open>Tasm_Lexer\<close> (\<open>tasm_token.h\<close>, \<open>tasm_lexer.h\<close>), \<open>Tasm_Parser\<close>
  (\<open>tasm_parser.h\<close>), \<open>Tasm_Ast\<close> (\<open>tasm_ast.h\<close>), \<open>Tasm_Translator\<close> (\<open>tasm_translator.h\<close>: symbol tables,
  resolving passes, translation, constants), \<open>Tasm_Binary\<close> (writing of the file), \<open>Tasmc\<close>
  (\<open>tasmc.c\<close>, \<open>tasmc_target.h\<close>), \<open>Tasm_Main\<close> (\<open>main\<close>). The loops of lexer and parser are partial
  functions: a loop of the code that does not end has no result, and the theorems say when there is
  one. On these rest: \<open>Lexer_Props\<close> and \<open>Lexer_Tokens\<close> (scanning as a function of the text that is
  left; locale \<open>skip_loop\<close>), \<open>Keywords\<close>, \<open>Parser_Props\<close> (locale \<open>parsing\<close>: what every parsing
  function keeps) with its instances in \<open>Parser_Result\<close>, \<open>Parser_Progress\<close> (locale \<open>line_loop\<close>: which
  inputs the loops end on), \<open>Source_Grammar\<close> (the language as a grammar), \<open>Token_Reader\<close>, \<open>Token_Stream\<close>
  and \<open>Grammar_Parser\<close> (locale \<open>line_reader\<close>: lexer, parsing functions and loops on the texts of the grammar),
  \<open>Source_Printer\<close> (a printer whose texts the grammar allows), \<open>Tasm_Assembly\<close>, \<open>Tasm_Reference\<close> and \<open>Tasm_Correct\<close> (a reference
  assembler, which the passes compute; locale \<open>symbol_pass\<close> for the two passes over symbols),
  \<open>Tasm_Natives\<close> (the declarations \<open>@cfun\<close> as the modules of the program file),
  \<open>Source_Properties\<close> and \<open>Tasm_Properties\<close>.

  \<^bold>\<open>Both together.\<close> \<open>Codec\<close>, \<open>Program_File\<close>, \<open>File_Properties\<close>: every part of the file as a codec
  (locales \<open>decoder\<close> and \<open>codec\<close>), and what the loader reads is what was written. \<open>Source_Machine\<close>: an
  interpreter of the syntax tree that knows lines, labels and procedures and no addresses.
  \<open>Source_Simulation\<close>, \<open>Source_Meaning\<close>: the machine with an assembled program simulates it step by
  step. \<open>Toolchain_Properties\<close>: a run of \<open>tasm\<close> followed by a run of \<open>tvm\<close> does what that
  interpreter says, when both return. \<open>Tvm_Keeps\<close>, \<open>Tvm_Process\<close>: what the process has allocated
  beside the heap's array stays allocated whatever a program does, so that the release of memory at the
  end of \<open>main\<close> is defined. \<open>Source_Runs\<close>: with this both programs return, and the result of \<open>main\<close>
  is a function of the source, of the libraries it is assembled with and of their native functions.

  Bounds. Capacities are those of the code (1024 instructions, 512 labels, procedures and references,
  arenas of the sizes passed to \<open>arena_init\<close>); statements that need a program or source to fit say so
  as a hypothesis, and the findings show what happens beyond. The fuel of \<open>tvm_run\<close> is the only one.

  Not modelled. The hash tables and string functions of \<open>stb_ds.h\<close> (vendored, not called; its
  dynamic arrays are part of \<open>Tgc\<close>) and the headers of \<open>libffi\<close> (a parameter). The branches for Windows.
  Of the messages: the usage texts of \<open>tasm\<close> and the texts of \<open>perror\<close>; the parser's diagnostics are values with their
  rows, columns and texts. Source locations in the tree, and the arenas that tokens, nodes and names are
  stored in. A \<open>fopen\<close> that fails for writing.
  The empty function \<open>tasm_translate_cstruct\<close>.
\<close>

end
